(* ===== verification/Prelude.thy ===== *)
theory Prelude
  imports Main "HOL-Library.Word"
begin

text \<open>
  Shared vocabulary of the development: the machine types of the Rust sources, the saturating
  arithmetic of \<open>std\<close>, runs of a partial step function together with the rule that lifts an
  invariant from steps to runs, and generic facts about lists that several components use.
\<close>

section \<open>Machine types\<close>

type_synonym u8 = "8 word"
type_synonym u32 = "32 word"
type_synonym u64 = "64 word"
type_synonym i64 = "64 word"

text \<open>\<open>Uuid\<close> is a 128-bit value; \<open>Ord\<close> on its sixteen big-endian bytes is the numeric order.\<close>

type_synonym uuid = "128 word"

text \<open>\<open>Uuid::as_bytes()[k]\<close> as a number.\<close>

definition uuid_byte :: "uuid \<Rightarrow> nat \<Rightarrow> nat" where
  "uuid_byte u k = unat u div 256 ^ (15 - k) mod 256"

text \<open>A Rust byte string, and the UTF-8 bytes of a Rust \<open>str\<close>, is a list of 8-bit characters.\<close>

type_synonym bytes = "char list"

text \<open>Time stamps and durations count nanoseconds.\<close>

type_synonym instant = nat
type_synonym duration = nat

text \<open>\<open>uN::saturating_add\<close>.\<close>

definition saturating_add :: "'a::len word \<Rightarrow> 'a word \<Rightarrow> 'a word" where
  "saturating_add a b = (if a + b < a then - 1 else a + b)"

section \<open>Text\<close>

text \<open>
  The UTF-8 encodings of the characters with the Unicode property \<open>White_Space\<close>, which
  \<open>char::is_whitespace\<close> and \<open>str::trim\<close> use: the ASCII blanks, U+0085, U+00A0, U+1680, U+2000 to
  U+200A, U+2028, U+2029, U+202F, U+205F and U+3000.
\<close>

definition utf8_whitespace :: "bytes list" where
  "utf8_whitespace =
     map (map char_of)
       ([[9], [10], [11], [12], [13], [32 :: nat], [194, 133], [194, 160], [225, 154, 128]]
        @ map (\<lambda>b. [226, 128, b]) [128, 129, 130, 131, 132, 133, 134, 135, 136, 137, 138, 168, 169, 175]
        @ [[226, 129, 159], [227, 128, 128]])"

definition strip_whitespace :: "bytes \<Rightarrow> bytes option" where
  "strip_whitespace s =
     (case find (\<lambda>w. take (length w) s = w) utf8_whitespace of
        None \<Rightarrow> None
      | Some w \<Rightarrow> Some (drop (length w) s))"

lemma utf8_whitespace_nonempty: "w \<in> set utf8_whitespace \<Longrightarrow> w \<noteq> []"
  by (auto simp: utf8_whitespace_def)

lemma strip_whitespace_shorter: "strip_whitespace s = Some r \<Longrightarrow> length r < length s"
proof -
  assume "strip_whitespace s = Some r"
  then obtain w where "w \<in> set utf8_whitespace" "take (length w) s = w" "r = drop (length w) s"
    by (auto simp: strip_whitespace_def find_Some_iff split: option.splits) (metis nth_mem)
  then show "length r < length s"
    using utf8_whitespace_nonempty [of w] by (cases s) auto
qed

text \<open>\<open>s.trim().is_empty()\<close>\<close>

function blank :: "bytes \<Rightarrow> bool" where
  "blank s = (s = [] \<or> (case strip_whitespace s of None \<Rightarrow> False | Some r \<Rightarrow> blank r))"
  by pat_completeness auto
termination
  by (relation "measure length") (auto dest: strip_whitespace_shorter)

declare blank.simps [simp del]

text \<open>\<open>s.chars()\<close> on the bytes of a valid UTF-8 string: a continuation byte belongs to the character
  before it.\<close>

definition utf8_cont :: "char \<Rightarrow> bool" where
  "utf8_cont c \<longleftrightarrow> 128 \<le> (of_char c :: nat) \<and> (of_char c :: nat) < 192"

definition chars_count :: "bytes \<Rightarrow> nat" where
  "chars_count s = length (filter (\<lambda>c. \<not> utf8_cont c) s)"

fun chars_take :: "nat \<Rightarrow> bytes \<Rightarrow> bytes" where
  "chars_take n [] = []"
| "chars_take n (c # cs) =
     (if utf8_cont c then c # chars_take n cs
      else case n of 0 \<Rightarrow> [] | Suc m \<Rightarrow> c # chars_take m cs)"

section \<open>Lists updated in place\<close>

text \<open>\<open>iter_mut().find(p)\<close> followed by an update of the element found.\<close>

fun update_first :: "('a \<Rightarrow> bool) \<Rightarrow> ('a \<Rightarrow> 'a) \<Rightarrow> 'a list \<Rightarrow> 'a list \<times> 'a option" where
  "update_first p f [] = ([], None)"
| "update_first p f (x # xs) =
     (if p x then (f x # xs, Some (f x))
      else case update_first p f xs of (ys, r) \<Rightarrow> (x # ys, r))"

text \<open>\<open>UPDATE \<dots> WHERE \<dots> RETURNING\<close> read with \<open>fetch_optional\<close>.\<close>

definition update_where :: "('a \<Rightarrow> bool) \<Rightarrow> ('a \<Rightarrow> 'a) \<Rightarrow> 'a list \<Rightarrow> 'a list \<times> 'a option" where
  "update_where p f xs = (map (\<lambda>x. if p x then f x else x) xs, map_option f (find p xs))"

section \<open>Runs of a partial step function\<close>

fun runs :: "('act \<Rightarrow> 's \<Rightarrow> 's option) \<Rightarrow> 'act list \<Rightarrow> 's \<Rightarrow> 's option" where
  "runs step [] s = Some s"
| "runs step (a # as) s = (case step a s of None \<Rightarrow> None | Some s' \<Rightarrow> runs step as s')"

text \<open>A sequence of calls and its answers.\<close>

fun session :: "('c \<Rightarrow> 's \<Rightarrow> 's \<times> 'a) \<Rightarrow> 'c list \<Rightarrow> 's \<Rightarrow> 's \<times> 'a list" where
  "session f [] s = (s, [])"
| "session f (c # cs) s =
     (case f c s of (s', a) \<Rightarrow> case session f cs s' of (s'', as) \<Rightarrow> (s'', a # as))"

text \<open>
  \<open>guarded_system\<close> is the interface between a component's single operations and the statements
  about arbitrary interleavings: a provider shows that its initial states satisfy an invariant and
  that each action keeps it, a client reads off the invariant for every run.
\<close>

locale guarded_system =
  fixes step :: "'act \<Rightarrow> 's \<Rightarrow> 's option"
    and init :: "'s \<Rightarrow> bool"
    and inv :: "'s \<Rightarrow> bool"
  assumes init_inv: "init s \<Longrightarrow> inv s"
    and step_inv: "inv s \<Longrightarrow> step a s = Some s' \<Longrightarrow> inv s'"
begin

lemma runs_inv: "inv s \<Longrightarrow> runs step as s = Some s' \<Longrightarrow> inv s'"
  by (induction as arbitrary: s) (auto split: option.splits dest: step_inv)

lemma reachable_inv: "init s \<Longrightarrow> runs step as s = Some s' \<Longrightarrow> inv s'"
  using init_inv runs_inv by blast

end

section \<open>Words\<close>

lemma unat_saturating_add:
  "unat (saturating_add a b :: 'a::len word) = min (2 ^ LENGTH('a) - 1) (unat a + unat b)"
proof (cases "unat a + unat b < 2 ^ LENGTH('a)")
  case True
  then have "unat (a + b) = unat a + unat b"
    by (simp add: unat_add_lem)
  then show ?thesis
    using True by (simp add: saturating_add_def word_less_nat_alt)
next
  case False
  then have "a + b < a"
    by (simp add: no_olen_add_nat not_le [symmetric])
  then show ?thesis
    using False by (simp add: saturating_add_def unsigned_minus_1_eq_mask mask_eq_exp_minus_1)
qed

section \<open>Lists\<close>

lemma runs_append:
  "runs step (xs @ ys) s = (case runs step xs s of None \<Rightarrow> None | Some s' \<Rightarrow> runs step ys s')"
  by (induction xs arbitrary: s) (auto split: option.splits)

lemma update_first_eq_where:
  assumes "\<And>x y. x \<in> set xs \<Longrightarrow> y \<in> set xs \<Longrightarrow> p x \<Longrightarrow> p y \<Longrightarrow> k x = k y" "distinct (map k xs)"
  shows "update_first p f xs = update_where p f xs"
  using assms
proof (induction xs)
  case (Cons x xs)
  show ?case
  proof (cases "p x")
    case True
    have "\<not> p y" if "y \<in> set xs" for y
      using Cons.prems True that by (metis distinct.simps(2) image_eqI list.set_intros list.set_map list.simps(9))
    then have "map (\<lambda>x. if p x then f x else x) xs = xs" by (auto intro: map_idI)
    then show ?thesis using True by (simp add: update_where_def)
  next
    case False
    then have "update_first p f xs = update_where p f xs" using Cons by simp
    then show ?thesis using False by (simp add: update_where_def)
  qed
qed (simp add: update_where_def)

section \<open>Sessions\<close>

lemma session_proj:
  "fst (session f (c # cs) s) = fst (session f cs (fst (f c s)))"
  "snd (session f (c # cs) s) = snd (f c s) # snd (session f cs (fst (f c s)))"
  by (simp_all split: prod.splits)

declare session.simps(2) [simp del]
declare session_proj [simp]

lemma length_session [simp]: "length (snd (session f cs s)) = length cs"
  by (induction cs arbitrary: s) simp_all

lemma session_snoc:
  "snd (session f (cs @ [c]) s) = snd (session f cs s) @ [snd (f c (fst (session f cs s)))]"
  by (induction cs arbitrary: s) simp_all

end
