(* ===== verification/Breaker.thy ===== *)
theory Breaker
  imports Prelude
begin

text \<open>
  The per-upstream circuit breaker of \<^verbatim>\<open>crates/waygate-upstream/src/breaker.rs\<close>.  The mutex-protected
  \<open>State\<close> is a record, every method is a function on it, and \<open>Instant::now\<close> is an explicit argument.
  Every method holds the mutex for its whole body, so a concurrent history is a sequence of method
  calls: \<open>breaker_step\<close> executes one of them against the permits that are still in flight.
\<close>

section \<open>State\<close>

record breaker_config =
  failure_threshold :: u32
  open_duration :: duration

definition breaker_config_default :: breaker_config where
  "breaker_config_default = \<lparr>failure_threshold = 5, open_duration = 30 * 10 ^ 9\<rparr>"

datatype breaker_state = Closed | Open | HalfOpen

fun breaker_state_as_str :: "breaker_state \<Rightarrow> string" where
  "breaker_state_as_str Closed = ''closed''"
| "breaker_state_as_str Open = ''open''"
| "breaker_state_as_str HalfOpen = ''half_open''"

datatype breaker_error = ErrOpen | ErrProbeInFlight

record inner_state =
  bstate :: breaker_state
  failures :: u32
  opened_at :: "instant option"
  probe_running :: bool

record breaker =
  cfg :: breaker_config
  inner :: inner_state
  open_notify :: bool

record permit =
  was_probe :: bool

section \<open>Operations\<close>

definition new_inner :: "breaker_config \<Rightarrow> bool \<Rightarrow> breaker" where
  "new_inner c notify =
     \<lparr>cfg = c,
      inner = \<lparr>bstate = Closed, failures = 0, opened_at = None, probe_running = False\<rparr>,
      open_notify = notify\<rparr>"

definition acquire :: "instant \<Rightarrow> breaker \<Rightarrow> breaker \<times> (breaker_error + permit)" where
  "acquire now b =
     (let g = inner b in
      case bstate g of
        Closed \<Rightarrow> (b, Inr \<lparr>was_probe = False\<rparr>)
      | Open \<Rightarrow>
          (let elapsed = (case opened_at g of None \<Rightarrow> 0 | Some t \<Rightarrow> now - t) in
           if elapsed \<ge> open_duration (cfg b)
           then (b\<lparr>inner := g\<lparr>bstate := HalfOpen, probe_running := True\<rparr>\<rparr>, Inr \<lparr>was_probe = True\<rparr>)
           else (b, Inl ErrOpen))
      | HalfOpen \<Rightarrow>
          if probe_running g then (b, Inl ErrProbeInFlight)
          else (b\<lparr>inner := g\<lparr>probe_running := True\<rparr>\<rparr>, Inr \<lparr>was_probe = True\<rparr>))"

definition reset :: "breaker \<Rightarrow> breaker" where
  "reset b = b\<lparr>inner := (inner b)\<lparr>bstate := Closed, failures := 0, opened_at := None,
                                probe_running := False\<rparr>\<rparr>"

definition on_success :: "bool \<Rightarrow> breaker \<Rightarrow> breaker \<times> bool" where
  "on_success probe b =
     (let g = inner b;
          recovered = (probe \<and> bstate g = HalfOpen \<and> probe_running g);
          g1 = g\<lparr>failures := 0\<rparr>;
          g2 = (if probe then g1\<lparr>probe_running := False\<rparr> else g1);
          g3 = g2\<lparr>bstate := Closed, opened_at := None\<rparr>
      in (b\<lparr>inner := g3\<rparr>, recovered))"

definition release_probe :: "breaker \<Rightarrow> breaker" where
  "release_probe b = b\<lparr>inner := (inner b)\<lparr>probe_running := False\<rparr>\<rparr>"

text \<open>The flag returned by \<open>on_failure\<close> says whether \<open>notify_waiters\<close> is called.\<close>

definition on_failure :: "instant \<Rightarrow> bool \<Rightarrow> breaker \<Rightarrow> breaker \<times> bool" where
  "on_failure now probe b =
     (let g = inner b;
          (g', opened) =
            (if probe then
               (g\<lparr>probe_running := False, bstate := Open, opened_at := Some now,
                  failures := failure_threshold (cfg b)\<rparr>, True)
             else
               let g1 = g\<lparr>failures := saturating_add (failures g) 1\<rparr> in
               if failures g1 \<ge> failure_threshold (cfg b)
               then (g1\<lparr>bstate := Open, opened_at := Some now\<rparr>, bstate g1 \<noteq> Open)
               else (g1, False))
      in (b\<lparr>inner := g'\<rparr>, opened \<and> open_notify b))"

definition permit_success :: "permit \<Rightarrow> breaker \<Rightarrow> breaker \<times> bool" where
  "permit_success p b = on_success (was_probe p) b"

definition permit_failure :: "instant \<Rightarrow> permit \<Rightarrow> breaker \<Rightarrow> breaker \<times> bool" where
  "permit_failure now p b = on_failure now (was_probe p) b"

definition permit_neutral :: "permit \<Rightarrow> breaker \<Rightarrow> breaker" where
  "permit_neutral p b = (if was_probe p then release_probe b else b)"

text \<open>Dropping an unreported permit; a reported one has already been consumed.\<close>

definition permit_drop :: "instant \<Rightarrow> permit \<Rightarrow> breaker \<Rightarrow> breaker \<times> bool" where
  "permit_drop now p b = on_failure now (was_probe p) b"

section \<open>Concurrent histories\<close>

record breaker_sys =
  brk :: breaker
  clock :: instant
  in_flight :: "permit list"

datatype breaker_action =
    Acquire | Success nat | Failure nat | Neutral nat | DropPermit nat | Reset | Tick duration

definition remove_nth :: "nat \<Rightarrow> 'a list \<Rightarrow> 'a list" where
  "remove_nth i xs = take i xs @ drop (Suc i) xs"

definition take_permit :: "nat \<Rightarrow> breaker_sys \<Rightarrow> (permit \<times> breaker_sys) option" where
  "take_permit i s =
     (if i < length (in_flight s)
      then Some (in_flight s ! i, s\<lparr>in_flight := remove_nth i (in_flight s)\<rparr>) else None)"

fun breaker_step :: "breaker_action \<Rightarrow> breaker_sys \<Rightarrow> breaker_sys option" where
  "breaker_step Acquire s =
     (case acquire (clock s) (brk s) of
        (b, Inl e) \<Rightarrow> Some (s\<lparr>brk := b\<rparr>)
      | (b, Inr p) \<Rightarrow> Some (s\<lparr>brk := b, in_flight := in_flight s @ [p]\<rparr>))"
| "breaker_step (Success i) s =
     map_option (\<lambda>(p, s'). s'\<lparr>brk := fst (permit_success p (brk s'))\<rparr>) (take_permit i s)"
| "breaker_step (Failure i) s =
     map_option (\<lambda>(p, s'). s'\<lparr>brk := fst (permit_failure (clock s') p (brk s'))\<rparr>) (take_permit i s)"
| "breaker_step (Neutral i) s =
     map_option (\<lambda>(p, s'). s'\<lparr>brk := permit_neutral p (brk s')\<rparr>) (take_permit i s)"
| "breaker_step (DropPermit i) s =
     map_option (\<lambda>(p, s'). s'\<lparr>brk := fst (permit_drop (clock s') p (brk s'))\<rparr>) (take_permit i s)"
| "breaker_step Reset s = Some (s\<lparr>brk := reset (brk s)\<rparr>)"
| "breaker_step (Tick d) s = Some (s\<lparr>clock := clock s + d\<rparr>)"

definition breaker_init :: "breaker_sys \<Rightarrow> bool" where
  "breaker_init s \<longleftrightarrow> (\<exists>c n. brk s = new_inner c n) \<and> in_flight s = []"

text \<open>
  The invariant of every history: an open breaker knows since when, a closed one has fewer failures
  than the threshold, and a half-open breaker that waits for a probe really has one in flight.
\<close>

definition breaker_inv :: "breaker_sys \<Rightarrow> bool" where
  "breaker_inv s \<longleftrightarrow>
     (let g = inner (brk s) in
      (bstate g = Open \<longrightarrow> (\<exists>t. opened_at g = Some t \<and> t \<le> clock s)) \<and>
      (bstate g = HalfOpen \<and> probe_running g \<longrightarrow> (\<exists>p\<in>set (in_flight s). was_probe p)) \<and>
      (bstate g = Closed \<longrightarrow> failures g < failure_threshold (cfg (brk s)) \<or> failures g = 0))"

text \<open>The actions that carry no evidence of recovery: everything but a success and a reset.\<close>

fun no_recovery :: "breaker_action \<Rightarrow> bool" where
  "no_recovery (Success i) = False"
| "no_recovery Reset = False"
| "no_recovery a = True"

fun fail_times :: "instant \<Rightarrow> nat \<Rightarrow> breaker \<Rightarrow> breaker" where
  "fail_times now 0 b = b"
| "fail_times now (Suc n) b = fst (on_failure now False (fail_times now n b))"

section \<open>Invariant\<close>

lemmas breaker_op_defs =
  acquire_def reset_def on_success_def release_probe_def on_failure_def permit_success_def
  permit_failure_def permit_neutral_def permit_drop_def

lemma set_remove_nth:
  "i < length xs \<Longrightarrow> insert (xs ! i) (set (remove_nth i xs)) = set xs"
  by (metis Un_insert_right id_take_nth_drop list.simps(15) remove_nth_def set_append)

lemma probe_left:
  assumes "i < length xs" "\<not> was_probe (xs ! i)" "p \<in> set xs" "was_probe p"
  shows "\<exists>q\<in>set (remove_nth i xs). was_probe q"
  using assms set_remove_nth [OF assms(1)] by (metis insertE)

lemma cfg_acquire [simp]: "cfg (fst (acquire now b)) = cfg b"
  by (simp add: acquire_def Let_def split: breaker_state.split)

lemma cfg_on_failure [simp]: "cfg (fst (on_failure now p b)) = cfg b"
  by (simp add: on_failure_def Let_def)

lemma breaker_inv_init: "breaker_init s \<Longrightarrow> breaker_inv s"
  by (auto simp: breaker_init_def breaker_inv_def new_inner_def)

lemma breaker_inv_acquire:
  "breaker_inv s \<Longrightarrow> breaker_step Acquire s = Some s' \<Longrightarrow> breaker_inv s'"
  by (auto simp: breaker_inv_def acquire_def Let_def
      split: breaker_state.splits option.splits if_splits)

lemma breaker_inv_success:
  "breaker_inv s \<Longrightarrow> breaker_step (Success i) s = Some s' \<Longrightarrow> breaker_inv s'"
  by (auto simp: breaker_inv_def take_permit_def permit_success_def on_success_def Let_def
      split: if_splits)

lemma breaker_inv_failure:
  assumes "breaker_inv s" "breaker_step (Failure i) s = Some s'"
  shows "breaker_inv s'"
  using assms probe_left [of i "in_flight s"]
  by (auto simp: breaker_inv_def take_permit_def permit_failure_def on_failure_def Let_def not_le
      split: if_splits)

lemma breaker_inv_neutral:
  assumes "breaker_inv s" "breaker_step (Neutral i) s = Some s'"
  shows "breaker_inv s'"
  using assms probe_left [of i "in_flight s"]
  by (auto simp: breaker_inv_def take_permit_def permit_neutral_def release_probe_def Let_def
      split: if_splits)

lemma drop_is_failure: "breaker_step (DropPermit i) s = breaker_step (Failure i) s"
  by (simp add: permit_drop_def permit_failure_def)

lemma breaker_inv_reset:
  "breaker_inv s \<Longrightarrow> breaker_step Reset s = Some s' \<Longrightarrow> breaker_inv s'"
  by (auto simp: breaker_inv_def reset_def)

lemma breaker_inv_tick:
  "breaker_inv s \<Longrightarrow> breaker_step (Tick d) s = Some s' \<Longrightarrow> breaker_inv s'"
  by (auto simp: breaker_inv_def Let_def)

lemma breaker_inv_step:
  assumes "breaker_inv s" "breaker_step a s = Some s'"
  shows "breaker_inv s'"
proof (cases a)
  case (DropPermit i)
  then show ?thesis using assms by (metis breaker_inv_failure drop_is_failure)
qed (use assms in \<open>blast intro: breaker_inv_acquire breaker_inv_success breaker_inv_failure
      breaker_inv_neutral breaker_inv_reset breaker_inv_tick\<close>)+

interpretation brk_sys: guarded_system breaker_step breaker_init breaker_inv
  by unfold_locales (use breaker_inv_init breaker_inv_step in blast)+

section \<open>Cooldown\<close>

lemma acquire_cooling:
  assumes "bstate (inner b) = Open" "opened_at (inner b) = Some t" "now < t + open_duration (cfg b)"
    "0 < open_duration (cfg b)"
  shows "acquire now b = (b, Inl ErrOpen)"
proof -
  have "\<not> open_duration (cfg b) \<le> now - t" using assms(3,4) by linarith
  then show ?thesis using assms(1,2) by (simp add: acquire_def Let_def)
qed

definition cooling :: "instant \<Rightarrow> breaker_sys \<Rightarrow> bool" where
  "cooling t s \<longleftrightarrow> bstate (inner (brk s)) = Open \<and>
     (\<exists>t'\<ge>t. opened_at (inner (brk s)) = Some t') \<and> t \<le> clock s"

lemma cooling_step:
  assumes "cooling t s" "no_recovery a" "breaker_step a s = Some s'"
    "clock s' < t + open_duration (cfg (brk s))"
  shows "cooling t s' \<and> cfg (brk s') = cfg (brk s) \<and> clock s \<le> clock s' \<and>
         length (in_flight s') \<le> length (in_flight s)"
proof (cases a)
  case Acquire
  then have "clock s' = clock s"
    using assms(3) by (auto split: prod.splits sum.splits)
  then have "acquire (clock s) (brk s) = (brk s, Inl ErrOpen)"
    using assms(1,4) acquire_cooling by (auto simp: cooling_def)
  then show ?thesis using Acquire assms(1,3) by auto
qed (use assms in \<open>auto simp: cooling_def take_permit_def remove_nth_def permit_failure_def
      permit_drop_def permit_neutral_def release_probe_def on_failure_def Let_def split: if_splits\<close>)

lemma clock_step: "breaker_step a s = Some s' \<Longrightarrow> clock s \<le> clock s'"
  by (cases a) (auto simp: take_permit_def split: prod.splits sum.splits if_splits)

lemma clock_runs: "runs breaker_step as s = Some s' \<Longrightarrow> clock s \<le> clock s'"
  by (induction as arbitrary: s) (auto split: option.splits dest!: clock_step intro: le_trans)

lemma cooling_runs:
  assumes "cooling t s" "list_all no_recovery as" "runs breaker_step as s = Some s'"
    "clock s' < t + open_duration (cfg (brk s))"
  shows "cooling t s' \<and> length (in_flight s') \<le> length (in_flight s)"
  using assms
proof (induction as arbitrary: s)
  case (Cons a as)
  then obtain s1 where s1: "breaker_step a s = Some s1" "runs breaker_step as s1 = Some s'"
    by (auto split: option.splits)
  then have "clock s1 < t + open_duration (cfg (brk s))"
    using Cons.prems(4) clock_runs by fastforce
  with s1 Cons.prems(1,2) have
    "cooling t s1 \<and> cfg (brk s1) = cfg (brk s) \<and> length (in_flight s1) \<le> length (in_flight s)"
    using cooling_step [of t s a s1] by auto
  then show ?case using Cons.IH [of s1] Cons.prems s1(2) by fastforce
qed simp

section \<open>Tripping\<close>

lemma fail_times_fresh:
  assumes "0 < failure_threshold c"
  shows "cfg (fail_times now n (new_inner c f)) = c \<and>
    unat (failures (inner (fail_times now n (new_inner c f)))) = min (2 ^ 32 - 1) n \<and>
    bstate (inner (fail_times now n (new_inner c f))) =
      (if n < unat (failure_threshold c) then Closed else Open)"
proof (induction n)
  case 0
  then show ?case using assms by (simp add: new_inner_def word_gt_0 unat_gt_0)
next
  case (Suc n)
  define b where "b = fail_times now n (new_inner c f)"
  have thr: "unat (failure_threshold c) \<le> 2 ^ 32 - 1"
    using unsigned_less [of "failure_threshold c", where 'a = nat] by simp
  have "unat (saturating_add (failures (inner b)) 1) = min (2 ^ 32 - 1) (Suc n)"
    using Suc by (simp add: unat_saturating_add b_def)
  then have reach: "failure_threshold c \<le> saturating_add (failures (inner b)) 1 \<longleftrightarrow>
      unat (failure_threshold c) \<le> Suc n"
    using thr by (simp add: word_le_nat_alt) linarith
  show ?case
    using Suc \<open>unat (saturating_add _ 1) = _\<close> reach
    by (simp add: b_def [symmetric] on_failure_def Let_def)
qed

section \<open>Properties\<close>

text \<open>C28: From a fresh breaker whose threshold is not zero, \<open>n\<close> consecutive failed calls leave the
  breaker open exactly when \<open>n\<close> has reached \<open>failure_threshold\<close>, and closed before that; this holds
  for every \<open>n\<close>, also past the saturation point of the 32-bit failure counter.\<close>

theorem breaker_trips_exactly_at_threshold:
  assumes "0 < failure_threshold c"
  shows "bstate (inner (fail_times now n (new_inner c f))) =
           (if n < unat (failure_threshold c) then Closed else Open)"
  using fail_times_fresh [OF assms] by blast

theorem breaker_trips_exactly_at_threshold_witness:
  "bstate (inner (fail_times 7 4 (new_inner breaker_config_default True))) = Closed \<and>
   bstate (inner (fail_times 7 5 (new_inner breaker_config_default True))) = Open"
  using breaker_trips_exactly_at_threshold [of breaker_config_default 7 4 True]
    breaker_trips_exactly_at_threshold [of breaker_config_default 7 5 True]
  by (simp add: breaker_config_default_def)

text \<open>C29: Once a history has tripped the breaker at time \<open>t\<close>, no interleaving of calls, failures,
  dropped permits and neutral releases admits another call before \<open>t + open_duration\<close>: the breaker
  stays open and the number of permits in flight does not grow.\<close>

theorem breaker_cooldown_admits_nothing:
  assumes "bstate (inner (brk s)) = Open" "opened_at (inner (brk s)) = Some t" "t \<le> clock s"
    and "list_all no_recovery as" "runs breaker_step as s = Some s'"
    and "clock s' < t + open_duration (cfg (brk s))"
  shows "bstate (inner (brk s')) = Open \<and> length (in_flight s') \<le> length (in_flight s)"
  using cooling_runs [of t s as s'] assms by (auto simp: cooling_def)

definition tripped_sys :: breaker_sys where
  "tripped_sys =
     \<lparr>brk = fst (on_failure 7 False (new_inner \<lparr>failure_threshold = 1, open_duration = 10\<rparr> True)),
      clock = 7, in_flight = [\<lparr>was_probe = False\<rparr>]\<rparr>"

theorem breaker_cooldown_admits_nothing_witness:
  "\<exists>s'. runs breaker_step [Acquire, Tick 5, Failure 0, Acquire] tripped_sys = Some s' \<and>
        bstate (inner (brk s')) = Open \<and> length (in_flight s') \<le> 1"
proof -
  have "\<exists>s'. runs breaker_step [Acquire, Tick 5, Failure 0, Acquire] tripped_sys = Some s' \<and>
        clock s' = 12"
    by (simp add: tripped_sys_def new_inner_def breaker_op_defs saturating_add_def take_permit_def
        remove_nth_def)
  then obtain s' where "runs breaker_step [Acquire, Tick 5, Failure 0, Acquire] tripped_sys = Some s'"
    "clock s' = 12" by blast
  then show ?thesis
    using breaker_cooldown_admits_nothing [of tripped_sys 7 "[Acquire, Tick 5, Failure 0, Acquire]" s']
    by (simp add: tripped_sys_def new_inner_def breaker_op_defs saturating_add_def)
qed

text \<open>C30: In every reachable state a call is rejected only for a live reason: the breaker is open and
  its cooldown has not elapsed, or a half-open probe permit is really in flight.  So the breaker can
  never be left rejecting calls forever.\<close>

theorem breaker_rejects_only_when_live:
  assumes "breaker_init s0" "runs breaker_step as s0 = Some s"
    and "acquire (clock s) (brk s) = (b, Inl e)"
  shows "(e = ErrOpen \<and> (\<exists>t. opened_at (inner (brk s)) = Some t \<and>
            clock s < t + open_duration (cfg (brk s)))) \<or>
         (e = ErrProbeInFlight \<and> (\<exists>p\<in>set (in_flight s). was_probe p))"
  using brk_sys.reachable_inv [OF assms(1,2)] assms(3)
  by (auto simp: breaker_inv_def acquire_def Let_def split: breaker_state.splits if_splits)

definition small_config :: breaker_config where
  "small_config = \<lparr>failure_threshold = 1, open_duration = 10\<rparr>"

definition fresh_sys :: breaker_sys where
  "fresh_sys = \<lparr>brk = new_inner small_config True, clock = 0, in_flight = []\<rparr>"

lemmas breaker_eval = fresh_sys_def small_config_def new_inner_def breaker_op_defs saturating_add_def
  take_permit_def remove_nth_def

lemma fresh_sys_init: "breaker_init fresh_sys"
  by (auto simp: breaker_init_def fresh_sys_def)

theorem breaker_rejects_only_when_live_witness:
  "\<exists>s b e. runs breaker_step [Acquire, Failure 0, Tick 3] fresh_sys = Some s \<and>
     acquire (clock s) (brk s) = (b, Inl e) \<and>
     ((e = ErrOpen \<and> (\<exists>t. opened_at (inner (brk s)) = Some t \<and>
            clock s < t + open_duration (cfg (brk s)))) \<or>
      (e = ErrProbeInFlight \<and> (\<exists>p\<in>set (in_flight s). was_probe p)))"
proof -
  obtain s b e where run: "runs breaker_step [Acquire, Failure 0, Tick 3] fresh_sys = Some s"
    and rej: "acquire (clock s) (brk s) = (b, Inl e)"
    by (simp add: breaker_eval)
  show ?thesis
    using breaker_rejects_only_when_live [OF fresh_sys_init run rej] run rej by blast
qed

text \<open>
  The single-flight promise of the half-open state does not survive a late success: a call admitted
  while the breaker was closed closes it again although a probe is in flight, and after the next trip
  a second probe is handed out beside the first.
\<close>

lemma two_probes_in_flight:
  "\<exists>s. runs breaker_step [Acquire, Acquire, Failure 0, Tick 10, Acquire, Success 0, Acquire, Failure 1,
            Tick 10, Acquire] fresh_sys = Some s \<and>
       bstate (inner (brk s)) = HalfOpen \<and> length (filter was_probe (in_flight s)) = 2"
  by (simp add: breaker_eval)

end
