(* ===== verification/Audit_Encoding.thy ===== *)
theory Audit_Encoding
  imports Prelude
begin

text \<open>
  The canonical byte encoding of an audit row and its chain hash,
  \<^verbatim>\<open>crates/waygate-storage/src/hashchain.rs\<close>.  The arguments of the \<open>canonical_audit_bytes*\<close> family are
  records, each of which extends the one before it by the columns of one migration.  Strings are their
  UTF-8 bytes.  SHA-256 is an argument: the development assumes nothing about it here.
\<close>

section \<open>Primitive writers\<close>

fun le_bytes :: "nat \<Rightarrow> nat \<Rightarrow> bytes" where
  "le_bytes 0 v = []"
| "le_bytes (Suc n) v = char_of (v mod 256) # le_bytes n (v div 256)"

definition u32_to_le_bytes :: "u32 \<Rightarrow> bytes" where
  "u32_to_le_bytes w = le_bytes 4 (unat w)"

definition u64_to_le_bytes :: "u64 \<Rightarrow> bytes" where
  "u64_to_le_bytes w = le_bytes 8 (unat w)"

definition i128_to_le_bytes :: "128 word \<Rightarrow> bytes" where
  "i128_to_le_bytes w = le_bytes 16 (unat w)"

definition uuid_as_bytes :: "uuid \<Rightarrow> bytes" where
  "uuid_as_bytes u = rev (le_bytes 16 (unat u))"

definition write_required_str :: "bytes \<Rightarrow> bytes" where
  "write_required_str s = u64_to_le_bytes (of_nat (length s)) @ s"

fun write_opt_str :: "bytes option \<Rightarrow> bytes" where
  "write_opt_str None = ''N''"
| "write_opt_str (Some v) = ''S'' @ u64_to_le_bytes (of_nat (length v)) @ v"

fun write_opt_bool :: "bool option \<Rightarrow> bytes" where
  "write_opt_bool (Some True) = ''t''"
| "write_opt_bool (Some False) = ''f''"
| "write_opt_bool None = ''N''"

fun write_opt_i64 :: "i64 option \<Rightarrow> bytes" where
  "write_opt_i64 None = ''N''"
| "write_opt_i64 (Some v) = ''S'' @ u64_to_le_bytes v"

definition write_str_vec :: "bytes list \<Rightarrow> bytes" where
  "write_str_vec vs =
     u64_to_le_bytes (of_nat (length vs)) @
     concat (map (\<lambda>s. u64_to_le_bytes (of_nat (length s)) @ s) vs)"

section \<open>Rows\<close>

text \<open>\<open>InvocationHierarchy\<close>; the one-based counters are \<open>NonZeroU32\<close>.\<close>

record invocation_hierarchy =
  parent_execution_id :: uuid
  step :: u32
  call_id :: uuid
  attempt :: u32

text \<open>Time stamps are the \<open>i128\<close> nanoseconds of \<open>OffsetDateTime::unix_timestamp_nanos\<close>.\<close>

record audit_columns =
  row_id :: uuid
  ts :: int
  category :: bytes
  tenant :: bytes
  action :: bytes
  outcome :: bytes
  principal_sub :: "bytes option"
  principal_email :: "bytes option"
  principal_groups :: "bytes list"
  issuer :: "bytes option"
  server :: "bytes option"
  tool :: "bytes option"
  risk_level :: "bytes option"
  pii :: "bool option"
  policy_ids :: "bytes list"
  reason :: "bytes option"
  trace_id :: "bytes option"
  latency_ms :: "i64 option"

record audit_scim = audit_columns +
  scim_active :: "bool option"
  scim_groups :: "bytes list"

record audit_ext = audit_scim +
  target :: "bytes option"

record audit_ext2 = audit_ext +
  req_scopes :: "bytes list"
  auth_method :: "bytes option"
  req_roles :: "bytes list"
  side_effects :: "bool option"

record audit_ext3 = audit_ext2 +
  acting_agent :: "bytes option"

record audit_ext4 = audit_ext3 +
  hierarchy :: "invocation_hierarchy option"

record audit_ext5 = audit_ext4 +
  operation :: "bytes option"

section \<open>The canonical bytes\<close>

text \<open>\<open>i128\<close> division truncates towards zero.\<close>

definition ts_micros :: "int \<Rightarrow> int" where
  "ts_micros nanos = sgn nanos * (\<bar>nanos\<bar> div 1000)"

definition canonical_audit_bytes_with_ext2 :: "'a audit_ext2_scheme \<Rightarrow> bytes" where
  "canonical_audit_bytes_with_ext2 r =
     ''audit-v1'' @ uuid_as_bytes (row_id r)
     @ i128_to_le_bytes (word_of_int (ts_micros (ts r)))
     @ write_required_str (category r) @ write_required_str (tenant r)
     @ write_required_str (action r) @ write_required_str (outcome r)
     @ write_opt_str (principal_sub r) @ write_opt_str (principal_email r)
     @ write_str_vec (principal_groups r)
     @ write_opt_str (issuer r) @ write_opt_str (server r) @ write_opt_str (tool r)
     @ write_opt_str (risk_level r) @ write_opt_bool (pii r) @ write_str_vec (policy_ids r)
     @ write_opt_str (reason r) @ write_opt_str (trace_id r) @ write_opt_i64 (latency_ms r)
     @ (if scim_active r \<noteq> None \<or> scim_groups r \<noteq> []
        then ''X'' @ write_opt_bool (scim_active r) @ write_str_vec (scim_groups r) else [])
     @ (case target r of None \<Rightarrow> [] | Some t \<Rightarrow> ''T'' @ write_required_str t)
     @ (if req_scopes r \<noteq> [] \<or> auth_method r \<noteq> None \<or> req_roles r \<noteq> [] \<or> side_effects r \<noteq> None
        then ''D'' @ write_str_vec (req_scopes r) @ write_opt_str (auth_method r)
             @ write_str_vec (req_roles r) @ write_opt_bool (side_effects r) else [])"

definition canonical_audit_bytes_with_ext :: "audit_ext \<Rightarrow> bytes" where
  "canonical_audit_bytes_with_ext r =
     canonical_audit_bytes_with_ext2 (audit_ext.extend r (audit_ext2.fields [] None [] None))"

definition canonical_audit_bytes_with_scim :: "audit_scim \<Rightarrow> bytes" where
  "canonical_audit_bytes_with_scim r =
     canonical_audit_bytes_with_ext (audit_scim.extend r (audit_ext.fields None))"

definition canonical_audit_bytes :: "audit_columns \<Rightarrow> bytes" where
  "canonical_audit_bytes r =
     canonical_audit_bytes_with_scim (audit_columns.extend r (audit_scim.fields None []))"

definition canonical_audit_bytes_with_ext3 :: "'a audit_ext3_scheme \<Rightarrow> bytes" where
  "canonical_audit_bytes_with_ext3 r =
     canonical_audit_bytes_with_ext2 r
     @ (case acting_agent r of None \<Rightarrow> [] | Some a \<Rightarrow> ''A'' @ write_required_str a)"

definition canonical_audit_bytes_with_ext4 :: "'a audit_ext4_scheme \<Rightarrow> bytes" where
  "canonical_audit_bytes_with_ext4 r =
     canonical_audit_bytes_with_ext3 r
     @ (case hierarchy r of None \<Rightarrow> []
        | Some h \<Rightarrow> ''H'' @ uuid_as_bytes (parent_execution_id h) @ u32_to_le_bytes (step h)
                    @ uuid_as_bytes (call_id h) @ u32_to_le_bytes (attempt h))"

definition canonical_audit_bytes_with_ext5 :: "'a audit_ext5_scheme \<Rightarrow> bytes" where
  "canonical_audit_bytes_with_ext5 r =
     canonical_audit_bytes_with_ext4 r
     @ (case operation r of None \<Rightarrow> []
        | Some v \<Rightarrow> ''P'' @ u64_to_le_bytes (of_nat (length v)) @ v)"

section \<open>The row hash\<close>

definition hex_digit :: "nat \<Rightarrow> char" where
  "hex_digit n = (if n < 10 then char_of (48 + n) else char_of (87 + n))"

definition hex_byte :: "char \<Rightarrow> bytes" where
  "hex_byte c = [hex_digit (of_char c div 16), hex_digit (of_char c mod 16)]"

definition row_hash_input :: "bytes option \<Rightarrow> bytes \<Rightarrow> bytes" where
  "row_hash_input prev b = (case prev of None \<Rightarrow> [] | Some p \<Rightarrow> p) @ [char_of (0::nat)] @ b"

definition compute_row_hash :: "(bytes \<Rightarrow> bytes) \<Rightarrow> bytes option \<Rightarrow> bytes \<Rightarrow> bytes" where
  "compute_row_hash sha256 prev b = concat (map hex_byte (sha256 (row_hash_input prev b)))"

text \<open>
  What the types of the code guarantee of a row: a \<open>String\<close> and a \<open>Vec\<close> are shorter than \<open>2\<^sup>6\<^sup>4\<close> and
  the microseconds of an \<open>OffsetDateTime\<close> fit an \<open>i128\<close>.
\<close>

definition str_ok :: "bytes \<Rightarrow> bool" where
  "str_ok s \<longleftrightarrow> length s < 2 ^ 64"

definition opt_str_ok :: "bytes option \<Rightarrow> bool" where
  "opt_str_ok x \<longleftrightarrow> (case x of None \<Rightarrow> True | Some s \<Rightarrow> str_ok s)"

definition vec_ok :: "bytes list \<Rightarrow> bool" where
  "vec_ok vs \<longleftrightarrow> length vs < 2 ^ 64 \<and> list_all str_ok vs"

definition ts_ok :: "int \<Rightarrow> bool" where
  "ts_ok t \<longleftrightarrow> - (2 ^ 127) \<le> ts_micros t \<and> ts_micros t < 2 ^ 127"

definition row_ok :: "'a audit_ext5_scheme \<Rightarrow> bool" where
  "row_ok r \<longleftrightarrow> ts_ok (ts r) \<and>
     list_all str_ok [category r, tenant r, action r, outcome r] \<and>
     list_all opt_str_ok [principal_sub r, principal_email r, issuer r, server r, tool r,
       risk_level r, reason r, trace_id r, target r, auth_method r, acting_agent r, operation r] \<and>
     list_all vec_ok [principal_groups r, policy_ids r, scim_groups r, req_scopes r, req_roles r]"

section \<open>Self-delimiting encodings\<close>

text \<open>
  The contract every primitive writer offers to the row encoding: whatever bytes follow, the encoded
  value and the remaining bytes are determined.
\<close>

locale self_delimiting =
  fixes enc :: "'a \<Rightarrow> bytes"
    and valid :: "'a \<Rightarrow> bool"
  assumes delimited: "valid x \<Longrightarrow> valid y \<Longrightarrow> enc x @ r = enc y @ s \<Longrightarrow> x = y \<and> r = s"
begin

lemma append_iff: "valid x \<Longrightarrow> valid y \<Longrightarrow> enc x @ r = enc y @ s \<longleftrightarrow> x = y \<and> r = s"
  using delimited by blast

lemma enc_iff: "valid x \<Longrightarrow> valid y \<Longrightarrow> enc x = enc y \<longleftrightarrow> x = y"
  using delimited [of x y "[]" "[]"] by auto

lemma concat_iff:
  "list_all valid xs \<Longrightarrow> list_all valid ys \<Longrightarrow> length xs = length ys \<Longrightarrow>
   concat (map enc xs) @ r = concat (map enc ys) @ s \<longleftrightarrow> xs = ys \<and> r = s"
proof (induction xs arbitrary: ys)
  case (Cons x xs)
  then obtain y ys' where ys: "ys = y # ys'" by (cases ys) auto
  then show ?case using Cons by (auto simp: append_iff)
qed simp

end

text \<open>A writer of fixed width only has to be injective.\<close>

locale fixed_width =
  fixes enc :: "'a \<Rightarrow> bytes"
    and width :: nat
  assumes width: "length (enc x) = width"
    and inj: "enc x = enc y \<Longrightarrow> x = y"

sublocale fixed_width \<subseteq> self_delimiting enc "\<lambda>_. True"
  by unfold_locales (use width inj in \<open>metis append_eq_append_conv\<close>)

lemma length_le_bytes [simp]: "length (le_bytes n v) = n"
  by (induction n arbitrary: v) auto

lemma char_of_mod_eq: "char_of (v mod 256) = (char_of (w mod 256) :: char) \<longleftrightarrow> v mod 256 = (w mod 256 :: nat)"
  by (metis mod_mod_trivial of_char_of)

lemma le_bytes_eq_iff: "le_bytes n v = le_bytes n w \<longleftrightarrow> v mod 256 ^ n = w mod 256 ^ n"
proof (induction n arbitrary: v w)
  case (Suc n)
  have "v mod 256 ^ Suc n = 256 * (v div 256 mod 256 ^ n) + v mod 256"
       "w mod 256 ^ Suc n = 256 * (w div 256 mod 256 ^ n) + w mod 256"
    by (simp_all add: mod_mult2_eq)
  moreover have "256 * a + v mod 256 = 256 * b + w mod 256 \<longleftrightarrow> v mod 256 = w mod 256 \<and> a = b"
    for a b :: nat
    by (metis (no_types, opaque_lifting) add_right_cancel div_mult_self2 mod_div_trivial
        mod_mod_trivial mod_mult_self4 mult_cancel1 add.commute add_0 zero_neq_numeral)
  ultimately show ?case using Suc by (simp add: char_of_mod_eq)
qed simp

lemma le_bytes_unat:
  fixes v w :: "'a::len word"
  assumes "LENGTH('a) = 8 * n"
  shows "le_bytes n (unat v) = le_bytes n (unat w) \<longleftrightarrow> v = w"
proof -
  have "unat x < 256 ^ n" for x :: "'a word"
    using unsigned_less [of x, where 'a = nat] assms by (simp add: power_mult)
  then show ?thesis by (simp add: le_bytes_eq_iff word_unat_eq_iff)
qed

interpretation u32_le: fixed_width u32_to_le_bytes 4
  by unfold_locales (simp_all add: u32_to_le_bytes_def le_bytes_unat)

interpretation u64_le: fixed_width u64_to_le_bytes 8
  by unfold_locales (simp_all add: u64_to_le_bytes_def le_bytes_unat)

interpretation i128_le: fixed_width i128_to_le_bytes 16
  by unfold_locales (simp_all add: i128_to_le_bytes_def le_bytes_unat)

interpretation uuid_be: fixed_width uuid_as_bytes 16
  by unfold_locales (simp_all add: uuid_as_bytes_def le_bytes_unat)

lemma of_nat_u64_eq:
  "m < 2 ^ 64 \<Longrightarrow> n < 2 ^ 64 \<Longrightarrow> (of_nat m :: u64) = of_nat n \<longleftrightarrow> m = n"
  by (simp add: word_of_nat_eq_iff take_bit_nat_eq_self)

interpretation req_str: self_delimiting write_required_str str_ok
proof
  fix x y r s assume "str_ok x" "str_ok y" "write_required_str x @ r = write_required_str y @ s"
  then show "x = y \<and> r = s"
    by (auto simp: write_required_str_def str_ok_def u64_le.append_iff of_nat_u64_eq)
qed

interpretation opt_str: self_delimiting write_opt_str opt_str_ok
proof
  fix x y r s assume "opt_str_ok x" "opt_str_ok y" "write_opt_str x @ r = write_opt_str y @ s"
  then show "x = y \<and> r = s"
    by (cases x; cases y)
       (auto simp: opt_str_ok_def str_ok_def u64_le.append_iff of_nat_u64_eq)
qed

interpretation opt_bool: self_delimiting write_opt_bool "\<lambda>_. True"
proof
  fix x y r s assume "write_opt_bool x @ r = write_opt_bool y @ s"
  then show "x = y \<and> r = s"
    by (cases x rule: write_opt_bool.cases; cases y rule: write_opt_bool.cases) auto
qed

interpretation opt_i64: self_delimiting write_opt_i64 "\<lambda>_. True"
proof
  fix x y r s assume "write_opt_i64 x @ r = write_opt_i64 y @ s"
  then show "x = y \<and> r = s"
    by (cases x; cases y) (auto simp: u64_le.append_iff)
qed

lemma write_str_vec_alt:
  "write_str_vec vs = u64_to_le_bytes (of_nat (length vs)) @ concat (map write_required_str vs)"
  by (simp add: write_str_vec_def write_required_str_def [abs_def])

interpretation str_vec: self_delimiting write_str_vec vec_ok
proof
  fix x y r s assume ok: "vec_ok x" "vec_ok y" and eq: "write_str_vec x @ r = write_str_vec y @ s"
  then have "length x = length y"
    and "concat (map write_required_str x) @ r = concat (map write_required_str y) @ s"
    by (auto simp: write_str_vec_alt vec_ok_def u64_le.append_iff of_nat_u64_eq)
  then show "x = y \<and> r = s"
    using ok req_str.concat_iff by (auto simp: vec_ok_def)
qed

lemmas writer_iffs = u32_le.append_iff u64_le.append_iff i128_le.append_iff uuid_be.append_iff
  req_str.append_iff opt_str.append_iff opt_bool.append_iff opt_i64.append_iff str_vec.append_iff

section \<open>Optional tails\<close>

definition opt_tail :: "char \<Rightarrow> bool \<Rightarrow> bytes \<Rightarrow> bytes" where
  "opt_tail c present b = (if present then c # b else [])"

definition starts_not :: "char \<Rightarrow> bytes \<Rightarrow> bool" where
  "starts_not c r \<longleftrightarrow> r = [] \<or> hd r \<noteq> c"

lemma starts_not_simps [simp]:
  "starts_not c []"
  "starts_not c (opt_tail d p b @ r) = (if p then c \<noteq> d else starts_not c r)"
  "starts_not c (opt_tail d p b) = (if p then c \<noteq> d else True)"
  by (auto simp: starts_not_def opt_tail_def)

lemma opt_tail_append_iff:
  "starts_not c r \<Longrightarrow> starts_not c s \<Longrightarrow>
   opt_tail c p b @ r = opt_tail c q b' @ s \<longleftrightarrow> p = q \<and> (if p then b @ r = b' @ s else r = s)"
  by (auto simp: starts_not_def opt_tail_def)

context self_delimiting
begin

lemma option_tail:
  assumes "starts_not c t" "starts_not c t'"
    and "\<And>v. x = Some v \<Longrightarrow> valid v" "\<And>v. y = Some v \<Longrightarrow> valid v"
  shows "opt_tail c (x \<noteq> None) (enc (the x)) @ t = opt_tail c (y \<noteq> None) (enc (the y)) @ t' \<longleftrightarrow>
         x = y \<and> t = t'"
  using assms by (cases x; cases y) (auto simp: opt_tail_append_iff append_iff)

lemma gated_tail:
  assumes "starts_not c t" "starts_not c t'" "valid x" "valid y"
    and "\<not> p x \<Longrightarrow> \<not> p y \<Longrightarrow> x = y"
  shows "opt_tail c (p x) (enc x) @ t = opt_tail c (p y) (enc y) @ t' \<longleftrightarrow> x = y \<and> t = t'"
  using assms by (auto simp: opt_tail_append_iff append_iff)

end

definition row_head :: "'a audit_columns_scheme \<Rightarrow> bytes" where
  "row_head r =
     uuid_as_bytes (row_id r) @ i128_to_le_bytes (word_of_int (ts_micros (ts r)))
     @ write_required_str (category r) @ write_required_str (tenant r)
     @ write_required_str (action r) @ write_required_str (outcome r)
     @ write_opt_str (principal_sub r) @ write_opt_str (principal_email r)
     @ write_str_vec (principal_groups r)
     @ write_opt_str (issuer r) @ write_opt_str (server r) @ write_opt_str (tool r)
     @ write_opt_str (risk_level r) @ write_opt_bool (pii r) @ write_str_vec (policy_ids r)
     @ write_opt_str (reason r) @ write_opt_str (trace_id r) @ write_opt_i64 (latency_ms r)"

definition hierarchy_bytes :: "invocation_hierarchy \<Rightarrow> bytes" where
  "hierarchy_bytes h = uuid_as_bytes (parent_execution_id h) @ u32_to_le_bytes (step h)
     @ uuid_as_bytes (call_id h) @ u32_to_le_bytes (attempt h)"

definition scim_bytes :: "bool option \<times> bytes list \<Rightarrow> bytes" where
  "scim_bytes x = write_opt_bool (fst x) @ write_str_vec (snd x)"

definition decision_bytes ::
  "bytes list \<times> bytes option \<times> bytes list \<times> bool option \<Rightarrow> bytes" where
  "decision_bytes = (\<lambda>(scopes, meth, roles, se).
     write_str_vec scopes @ write_opt_str meth @ write_str_vec roles @ write_opt_bool se)"

definition row_tail :: "'a audit_ext5_scheme \<Rightarrow> bytes" where
  "row_tail r =
     opt_tail CHR ''X'' ((scim_active r, scim_groups r) \<noteq> (None, []))
       (scim_bytes (scim_active r, scim_groups r))
     @ opt_tail CHR ''T'' (target r \<noteq> None) (write_required_str (the (target r)))
     @ opt_tail CHR ''D''
         ((req_scopes r, auth_method r, req_roles r, side_effects r) \<noteq> ([], None, [], None))
         (decision_bytes (req_scopes r, auth_method r, req_roles r, side_effects r))
     @ opt_tail CHR ''A'' (acting_agent r \<noteq> None) (write_required_str (the (acting_agent r)))
     @ opt_tail CHR ''H'' (hierarchy r \<noteq> None) (hierarchy_bytes (the (hierarchy r)))
     @ opt_tail CHR ''P'' (operation r \<noteq> None) (write_required_str (the (operation r))) @ []"

lemma row_shape:
  "canonical_audit_bytes_with_ext5 r = ''audit-v1'' @ row_head r @ row_tail r"
  by (simp add: canonical_audit_bytes_with_ext5_def canonical_audit_bytes_with_ext4_def
      canonical_audit_bytes_with_ext3_def canonical_audit_bytes_with_ext2_def row_head_def row_tail_def
      opt_tail_def write_required_str_def hierarchy_bytes_def scim_bytes_def decision_bytes_def
      split: option.split)

interpretation hierarchy_enc: self_delimiting hierarchy_bytes "\<lambda>_. True"
  by unfold_locales (simp add: hierarchy_bytes_def writer_iffs)

interpretation scim_enc: self_delimiting scim_bytes "\<lambda>x. vec_ok (snd x)"
  by unfold_locales (auto simp: scim_bytes_def writer_iffs prod_eq_iff)

interpretation decision_enc: self_delimiting decision_bytes
  "\<lambda>(scopes, meth, roles, se). vec_ok scopes \<and> opt_str_ok meth \<and> vec_ok roles"
  by unfold_locales (auto simp: decision_bytes_def writer_iffs split: prod.splits)

lemma opt_str_okD: "opt_str_ok x \<Longrightarrow> x = Some v \<Longrightarrow> str_ok v"
  by (simp add: opt_str_ok_def)

lemma word_of_ts_eq:
  assumes "ts_ok a" "ts_ok b"
  shows "(word_of_int (ts_micros a) :: 128 word) = word_of_int (ts_micros b) \<longleftrightarrow>
         ts_micros a = ts_micros b"
proof -
  have "signed_take_bit 127 (ts_micros x) = ts_micros x" if "ts_ok x" for x
    using that by (simp add: ts_ok_def signed_take_bit_int_eq_self)
  moreover have "(word_of_int (ts_micros a) :: 128 word) = word_of_int (ts_micros b) \<longleftrightarrow>
      signed_take_bit 127 (ts_micros a) = signed_take_bit 127 (ts_micros b)"
    using signed_take_bit_eq_iff_take_bit_eq [of 127 "ts_micros a" "ts_micros b"]
    by (simp add: word_of_int_eq_iff)
  ultimately show ?thesis using assms by simp
qed

lemma row_head_iff:
  assumes "row_ok r" "row_ok r'"
  shows "row_head r @ t = row_head r' @ t' \<longleftrightarrow>
    row_id r = row_id r' \<and> ts_micros (ts r) = ts_micros (ts r') \<and> category r = category r' \<and>
    tenant r = tenant r' \<and> action r = action r' \<and> outcome r = outcome r' \<and>
    principal_sub r = principal_sub r' \<and> principal_email r = principal_email r' \<and>
    principal_groups r = principal_groups r' \<and> issuer r = issuer r' \<and> server r = server r' \<and>
    tool r = tool r' \<and> risk_level r = risk_level r' \<and> pii r = pii r' \<and>
    policy_ids r = policy_ids r' \<and> reason r = reason r' \<and> trace_id r = trace_id r' \<and>
    latency_ms r = latency_ms r' \<and> t = t'"
  using assms by (simp add: row_head_def writer_iffs row_ok_def word_of_ts_eq)

lemma row_tail_iff:
  fixes r r' :: "'a audit_ext5_scheme"
  assumes "row_ok r" "row_ok r'"
  shows "row_tail r = row_tail r' \<longleftrightarrow>
    scim_active r = scim_active r' \<and> scim_groups r = scim_groups r' \<and> target r = target r' \<and>
    req_scopes r = req_scopes r' \<and> auth_method r = auth_method r' \<and> req_roles r = req_roles r' \<and>
    side_effects r = side_effects r' \<and> acting_agent r = acting_agent r' \<and>
    hierarchy r = hierarchy r' \<and> operation r = operation r'"
proof -
  note ok = assms [unfolded row_ok_def]
  define t6 where "t6 x = opt_tail CHR ''P'' (operation x \<noteq> None)
    (write_required_str (the (operation x))) @ []" for x :: "'a audit_ext5_scheme"
  define t5 where "t5 x = opt_tail CHR ''H'' (hierarchy x \<noteq> None)
    (hierarchy_bytes (the (hierarchy x))) @ t6 x" for x :: "'a audit_ext5_scheme"
  define t4 where "t4 x = opt_tail CHR ''A'' (acting_agent x \<noteq> None)
    (write_required_str (the (acting_agent x))) @ t5 x" for x :: "'a audit_ext5_scheme"
  define t3 where "t3 x = opt_tail CHR ''D''
    ((req_scopes x, auth_method x, req_roles x, side_effects x) \<noteq> ([], None, [], None))
    (decision_bytes (req_scopes x, auth_method x, req_roles x, side_effects x)) @ t4 x"
    for x :: "'a audit_ext5_scheme"
  define t2 where "t2 x = opt_tail CHR ''T'' (target x \<noteq> None)
    (write_required_str (the (target x))) @ t3 x" for x :: "'a audit_ext5_scheme"
  have "t6 r = t6 r' \<longleftrightarrow> operation r = operation r' \<and> [] = ([] :: bytes)"
    unfolding t6_def by (rule req_str.option_tail) (use ok in \<open>auto dest: opt_str_okD\<close>)
  moreover have "t5 r = t5 r' \<longleftrightarrow> hierarchy r = hierarchy r' \<and> t6 r = t6 r'"
    unfolding t5_def by (rule hierarchy_enc.option_tail) (auto simp: t6_def)
  moreover have "t4 r = t4 r' \<longleftrightarrow> acting_agent r = acting_agent r' \<and> t5 r = t5 r'"
    unfolding t4_def by (rule req_str.option_tail) (use ok in \<open>auto simp: t6_def t5_def dest: opt_str_okD\<close>)
  moreover have "t3 r = t3 r' \<longleftrightarrow>
      (req_scopes r, auth_method r, req_roles r, side_effects r) =
      (req_scopes r', auth_method r', req_roles r', side_effects r') \<and> t4 r = t4 r'"
    unfolding t3_def
    by (rule decision_enc.gated_tail [where p = "\<lambda>x. x \<noteq> ([], None, [], None)"])
       (use ok in \<open>auto simp: t6_def t5_def t4_def\<close>)
  moreover have "t2 r = t2 r' \<longleftrightarrow> target r = target r' \<and> t3 r = t3 r'"
    unfolding t2_def by (rule req_str.option_tail)
      (use ok in \<open>auto simp: t6_def t5_def t4_def t3_def dest: opt_str_okD\<close>)
  moreover have "row_tail r = row_tail r' \<longleftrightarrow>
      (scim_active r, scim_groups r) = (scim_active r', scim_groups r') \<and> t2 r = t2 r'"
    unfolding row_tail_def t2_def [symmetric] t3_def [symmetric] t4_def [symmetric] t5_def [symmetric]
      t6_def [symmetric]
    by (rule scim_enc.gated_tail [where p = "\<lambda>x. x \<noteq> (None, [])"])
       (use ok in \<open>auto simp: t6_def t5_def t4_def t3_def t2_def\<close>)
  ultimately show ?thesis by auto
qed

lemma encoding_iff:
  fixes r r' :: audit_ext5
  assumes "row_ok r" "row_ok r'"
  shows "canonical_audit_bytes_with_ext5 r = canonical_audit_bytes_with_ext5 r' \<longleftrightarrow>
         r\<lparr>ts := 0\<rparr> = r'\<lparr>ts := 0\<rparr> \<and> ts_micros (ts r) = ts_micros (ts r')"
proof -
  have "r\<lparr>ts := 0\<rparr> = r'\<lparr>ts := 0\<rparr> \<longleftrightarrow>
    (row_id r = row_id r' \<and> category r = category r' \<and>
    tenant r = tenant r' \<and> action r = action r' \<and> outcome r = outcome r' \<and>
    principal_sub r = principal_sub r' \<and> principal_email r = principal_email r' \<and>
    principal_groups r = principal_groups r' \<and> issuer r = issuer r' \<and> server r = server r' \<and>
    tool r = tool r' \<and> risk_level r = risk_level r' \<and> pii r = pii r' \<and>
    policy_ids r = policy_ids r' \<and> reason r = reason r' \<and> trace_id r = trace_id r' \<and>
    latency_ms r = latency_ms r') \<and>
    (scim_active r = scim_active r' \<and> scim_groups r = scim_groups r' \<and> target r = target r' \<and>
    req_scopes r = req_scopes r' \<and> auth_method r = auth_method r' \<and> req_roles r = req_roles r' \<and>
    side_effects r = side_effects r' \<and> acting_agent r = acting_agent r' \<and>
    hierarchy r = hierarchy r' \<and> operation r = operation r')"
    by (cases r; cases r') simp
  then show ?thesis
    by (simp add: row_shape row_head_iff [OF assms] row_tail_iff [OF assms]) argo
qed

section \<open>The row hash\<close>

lemma of_char_hex_digit: "n < 16 \<Longrightarrow> of_char (hex_digit n) = (if n < 10 then 48 + n else 87 + n)"
  by (simp add: hex_digit_def)

lemma hex_digit_inj:
  assumes "m < 16" "n < 16" "hex_digit m = hex_digit n"
  shows "m = n"
proof -
  have "(if m < 10 then 48 + m else 87 + m) = (if n < 10 then 48 + n else 87 + n)"
    using assms of_char_hex_digit by metis
  then show ?thesis using assms(1,2) by (simp split: if_splits)
qed

lemma nibbles_eq: "(a::nat) div 16 = b div 16 \<Longrightarrow> a mod 16 = b mod 16 \<Longrightarrow> a = b"
  by (metis div_mult_mod_eq)

interpretation hex: fixed_width hex_byte 2
proof
  fix x y assume "hex_byte x = hex_byte y"
  then have "of_char x div 16 = (of_char y div 16 :: nat)" "of_char x mod 16 = (of_char y mod 16 :: nat)"
    using nat_of_char_less_256 [of x] nat_of_char_less_256 [of y]
    by (simp_all only: hex_byte_def list.inject)
       (intro hex_digit_inj; simp add: less_mult_imp_div_less)+
  then show "x = y" using nibbles_eq of_char_eq_iff by blast
qed (simp add: hex_byte_def)

lemma hex_string_inj: "concat (map hex_byte xs) = concat (map hex_byte ys) \<longleftrightarrow> xs = ys"
proof (induction xs arbitrary: ys)
  case Nil
  then show ?case by (cases ys) (auto simp: hex_byte_def)
next
  case (Cons x xs)
  then show ?case by (cases ys) (auto simp: hex.append_iff, auto simp: hex_byte_def)
qed

text \<open>Hexadecimal text contains no NUL, so the separator splits the hash input.\<close>

definition nul_free :: "bytes \<Rightarrow> bool" where
  "nul_free s \<longleftrightarrow> char_of (0::nat) \<notin> set s"

lemma hex_digit_not_nul:
  assumes "n < 16"
  shows "hex_digit n \<noteq> char_of (0::nat)"
proof
  assume "hex_digit n = char_of (0::nat)"
  then have "of_char (hex_digit n) = (0::nat)" by simp
  then show False using assms by (simp add: of_char_hex_digit split: if_splits)
qed

lemma nul_free_row_hash: "nul_free (compute_row_hash sha256 prev b)"
proof -
  have "char_of (0::nat) \<notin> set (hex_byte c)" for c
    using hex_digit_not_nul [of "of_char c div 16"] hex_digit_not_nul [of "of_char c mod 16"]
      nat_of_char_less_256 [of c] by (simp add: hex_byte_def less_mult_imp_div_less)
  then show ?thesis by (auto simp: nul_free_def compute_row_hash_def)
qed

lemma split_at_nul:
  assumes "nul_free p" "nul_free q" "p @ [char_of (0::nat)] @ a = q @ [char_of (0::nat)] @ b"
  shows "p = q \<and> a = b"
  using assms
proof (induction p arbitrary: q)
  case Nil
  then show ?case by (cases q) (auto simp: nul_free_def)
next
  case (Cons x p)
  then show ?case by (cases q) (auto simp: nul_free_def)
qed

definition prev_text :: "bytes option \<Rightarrow> bytes" where
  "prev_text prev = (case prev of None \<Rightarrow> [] | Some p \<Rightarrow> p)"

lemma row_hash_input_iff:
  assumes "nul_free (prev_text p)" "nul_free (prev_text q)"
  shows "row_hash_input p a = row_hash_input q b \<longleftrightarrow> prev_text p = prev_text q \<and> a = b"
proof -
  have "row_hash_input x c = prev_text x @ [char_of (0::nat)] @ c" for x c
    by (simp only: row_hash_input_def prev_text_def)
  then show ?thesis using split_at_nul [OF assms, of a b] by auto
qed

lemma row_hash_eq_iff:
  "compute_row_hash sha256 p a = compute_row_hash sha256 q b \<longleftrightarrow>
   sha256 (row_hash_input p a) = sha256 (row_hash_input q b)"
  by (simp add: compute_row_hash_def hex_string_inj)

text \<open>Two inputs form a collision of the hash function.\<close>

definition collision :: "(bytes \<Rightarrow> bytes) \<Rightarrow> bytes \<Rightarrow> bytes \<Rightarrow> bool" where
  "collision sha256 x y \<longleftrightarrow> x \<noteq> y \<and> sha256 x = sha256 y"

section \<open>Properties\<close>

text \<open>C15: The canonical bytes of two audit rows are equal exactly when the rows agree on every column,
  time stamps being compared at the microsecond resolution of the durable column.  So no edit of any
  column, no move of text between adjacent columns, and no change between an absent and an empty value
  leaves the bytes unchanged.\<close>

theorem audit_encoding_injective:
  fixes r r' :: audit_ext5
  assumes "row_ok r" "row_ok r'"
  shows "canonical_audit_bytes_with_ext5 r = canonical_audit_bytes_with_ext5 r' \<longleftrightarrow>
         r\<lparr>ts := 0\<rparr> = r'\<lparr>ts := 0\<rparr> \<and> ts_micros (ts r) = ts_micros (ts r')"
  using assms by (rule encoding_iff)

definition sample_row :: audit_ext5 where
  "sample_row =
     \<lparr>row_id = 7, ts = 1700000000000001999, category = ''data'', tenant = ''default'',
      action = ''tools/call'', outcome = ''ok'', principal_sub = Some ''alice'',
      principal_email = None, principal_groups = [''ops'', ''dev''], issuer = None,
      server = Some ''mail'', tool = Some ''send'', risk_level = Some ''high'', pii = Some False,
      policy_ids = [''policy0''], reason = None, trace_id = None, latency_ms = Some 12,
      scim_active = None, scim_groups = [], target = None, req_scopes = [''mcp:call''],
      auth_method = None, req_roles = [], side_effects = Some True, acting_agent = None,
      hierarchy = Some \<lparr>parent_execution_id = 3, step = 1, call_id = 9, attempt = 1\<rparr>,
      operation = Some ''create''\<rparr>"

lemma sample_row_ok:
  "row_ok sample_row" "row_ok (sample_row\<lparr>reason := Some []\<rparr>)"
  "row_ok (sample_row\<lparr>ts := 1700000000000001000\<rparr>)"
  by (simp_all add: row_ok_def sample_row_def ts_ok_def ts_micros_def str_ok_def opt_str_ok_def vec_ok_def)

theorem audit_encoding_injective_witness:
  "canonical_audit_bytes_with_ext5 sample_row
     \<noteq> canonical_audit_bytes_with_ext5 (sample_row\<lparr>reason := Some []\<rparr>) \<and>
   canonical_audit_bytes_with_ext5 sample_row
     = canonical_audit_bytes_with_ext5 (sample_row\<lparr>ts := 1700000000000001000\<rparr>)"
  using audit_encoding_injective [OF sample_row_ok(1,2)] audit_encoding_injective [OF sample_row_ok(1,3)]
  by (simp add: sample_row_def ts_micros_def)

text \<open>Every generation of the encoding is byte-identical to the one before it when the columns it
  added are absent, so rows hashed before a column existed keep their hash.\<close>

lemma legacy_rows_keep_their_bytes:
  fixes r :: audit_ext5
  shows
    "(operation r = None \<longrightarrow>
        canonical_audit_bytes_with_ext5 r = canonical_audit_bytes_with_ext4 r) \<and>
     (hierarchy r = None \<longrightarrow>
        canonical_audit_bytes_with_ext4 r = canonical_audit_bytes_with_ext3 r) \<and>
     (acting_agent r = None \<longrightarrow>
        canonical_audit_bytes_with_ext3 r = canonical_audit_bytes_with_ext2 r) \<and>
     (req_scopes r = [] \<and> auth_method r = None \<and> req_roles r = [] \<and> side_effects r = None \<longrightarrow>
        canonical_audit_bytes_with_ext2 r = canonical_audit_bytes_with_ext (audit_ext.truncate r)) \<and>
     (target r = None \<longrightarrow>
        canonical_audit_bytes_with_ext (audit_ext.truncate r)
          = canonical_audit_bytes_with_scim (audit_scim.truncate r)) \<and>
     (scim_active r = None \<and> scim_groups r = [] \<longrightarrow>
        canonical_audit_bytes_with_scim (audit_scim.truncate r)
          = canonical_audit_bytes (audit_columns.truncate r))"
  by (simp add: canonical_audit_bytes_with_ext5_def canonical_audit_bytes_with_ext4_def
      canonical_audit_bytes_with_ext3_def canonical_audit_bytes_with_ext2_def
      canonical_audit_bytes_with_ext_def canonical_audit_bytes_with_scim_def canonical_audit_bytes_def
      audit_ext.defs audit_scim.defs audit_columns.defs audit_ext2.defs)

lemma legacy_rows_sample:
  "canonical_audit_bytes_with_ext5 (sample_row\<lparr>operation := None, hierarchy := None\<rparr>)
     = canonical_audit_bytes_with_ext2 (sample_row\<lparr>operation := None, hierarchy := None\<rparr>)"
  using legacy_rows_keep_their_bytes [of "sample_row\<lparr>operation := None, hierarchy := None\<rparr>"]
  by (simp add: sample_row_def)

text \<open>C24: The row hash binds both the row and its predecessor.  If two rows have the same \<open>row_hash\<close>
  then they agree on every column and on the predecessor's hash, or the two hash inputs are an
  explicit collision of SHA-256.\<close>

theorem row_hash_binds_row_and_predecessor:
  fixes r r' :: audit_ext5
  assumes "row_ok r" "row_ok r'" "nul_free (prev_text p)" "nul_free (prev_text p')"
    and "compute_row_hash sha256 p (canonical_audit_bytes_with_ext5 r)
         = compute_row_hash sha256 p' (canonical_audit_bytes_with_ext5 r')"
  shows "(r\<lparr>ts := 0\<rparr> = r'\<lparr>ts := 0\<rparr> \<and> ts_micros (ts r) = ts_micros (ts r') \<and> prev_text p = prev_text p')
     \<or> collision sha256 (row_hash_input p (canonical_audit_bytes_with_ext5 r))
         (row_hash_input p' (canonical_audit_bytes_with_ext5 r'))"
proof -
  have "sha256 (row_hash_input p (canonical_audit_bytes_with_ext5 r))
      = sha256 (row_hash_input p' (canonical_audit_bytes_with_ext5 r'))"
    using assms(5) by (simp only: row_hash_eq_iff)
  then show ?thesis
    using row_hash_input_iff [OF assms(3,4)] encoding_iff [OF assms(1,2)]
    unfolding collision_def by blast
qed

theorem row_hash_binds_row_and_predecessor_witness:
  "collision (\<lambda>_. ''d'')
     (row_hash_input (Some ''a1'') (canonical_audit_bytes_with_ext5 sample_row))
     (row_hash_input (Some ''a1'') (canonical_audit_bytes_with_ext5 (sample_row\<lparr>reason := Some []\<rparr>)))"
proof -
  have nf: "nul_free (prev_text (Some ''a1''))"
    by (simp add: nul_free_def prev_text_def char_of_def)
  have same: "compute_row_hash (\<lambda>_. ''d'') p a = compute_row_hash (\<lambda>_. ''d'') p b" for p a b
    by (simp add: compute_row_hash_def)
  have "sample_row\<lparr>ts := 0\<rparr> \<noteq> sample_row\<lparr>reason := Some [], ts := 0\<rparr>"
    by (simp add: sample_row_def)
  then show ?thesis
    using row_hash_binds_row_and_predecessor [OF sample_row_ok(1) sample_row_ok(2) nf nf same] by blast
qed

end
