(* ===== verification/Chain_Verify.thy ===== *)
theory Chain_Verify
  imports Audit_Encoding "HOL-Library.AList" "HOL-Library.Char_ord" "HOL-Library.List_Lexorder"
    "HOL-Library.Option_ord" "HOL-Library.Product_Lexorder"
begin

text \<open>
  The tamper-evidence verifier of \<^verbatim>\<open>crates/waygate-storage/src/chain_verify.rs\<close>: the walk over a window of
  chained rows, the retention markers that attest deleted spans, the admission of marker bridges by a
  dependency queue, and the bounded search for a path of bridges.  A \<open>HashMap\<close> is an association list
  with distinct keys, so that its \<open>len\<close> is the length of the list.
\<close>

section \<open>Rows and reports\<close>

record chain_row = audit_ext5 +
  chain_seq :: int
  prev_hash :: "bytes option"
  row_hash :: bytes

record chain_head =
  head_chain_seq :: int
  head_row_hash :: bytes

datatype chain_verify_status = Ok | Mismatch | Empty | Incomplete

datatype mismatch_kind = BrokenLink | BadRowHash

record chain_mismatch =
  mm_row_id :: uuid
  mm_chain_seq :: int
  mm_kind :: mismatch_kind
  mm_expected :: bytes
  mm_actual :: bytes

record chain_verify_report =
  rep_tenant_id :: bytes
  rep_from :: "int option"
  rep_to :: "int option"
  rows_walked :: nat
  status :: chain_verify_status
  first_mismatch :: "chain_mismatch option"
  truncated :: bool
  next_after_chain_seq :: "int option"
  rep_chain_head :: "chain_head option"

definition recompute_row_hash :: "(bytes \<Rightarrow> bytes) \<Rightarrow> chain_row \<Rightarrow> bytes" where
  "recompute_row_hash sha256 row =
     compute_row_hash sha256 (prev_hash row) (canonical_audit_bytes_with_ext5 row)"

section \<open>Retention markers\<close>

record deleted_row =
  del_prev_hash :: "bytes option"
  del_row_hash :: bytes

record deleted_unchained_row =
  del_id :: uuid
  del_chain_seq :: int

record retention_marker =
  kind :: bytes
  deleted_rows :: "deleted_row list"
  deleted_unchained_rows :: "deleted_unchained_row list"
  deleted_chain_seq_min :: "int option"
  deleted_chain_seq_max :: "int option"
  policy :: "bytes option"

record retention_bridge =
  start :: "bytes option"
  end_hash :: bytes

record retention_bridge_candidate =
  bridge_of :: retention_bridge
  expected_prev :: "bytes option"
  marker_prev :: "bytes option"

definition marker_KIND :: bytes where
  "marker_KIND = ''retention_sweep''"

fun windows_chained :: "deleted_row list \<Rightarrow> bool" where
  "windows_chained (prior # next # rest) =
     (del_prev_hash next = Some (del_row_hash prior) \<and> windows_chained (next # rest))"
| "windows_chained _ = True"

definition marker_validate :: "retention_marker \<Rightarrow> bool" where
  "marker_validate m =
     (if kind m \<noteq> marker_KIND then False
      else if deleted_rows m = [] \<and> deleted_unchained_rows m = [] then False
      else if \<not> windows_chained (deleted_rows m) then False
      else if \<not> distinct (map del_row_hash (deleted_rows m)) then False
      else distinct (map del_id (deleted_unchained_rows m)))"

text \<open>\<open>serde_json::from_str\<close> is the argument \<open>parse\<close>.\<close>

definition marker_from_reason ::
  "(bytes \<Rightarrow> retention_marker option) \<Rightarrow> bytes \<Rightarrow> retention_marker option" where
  "marker_from_reason parse txt =
     (case parse txt of
        None \<Rightarrow> None
      | Some parsed \<Rightarrow>
          if kind parsed \<noteq> marker_KIND then None
          else if \<not> marker_validate parsed then None
          else Some parsed)"

definition marker_bridge :: "retention_marker \<Rightarrow> retention_bridge option" where
  "marker_bridge m =
     (if deleted_rows m = [] then None
      else Some \<lparr>start = del_prev_hash (hd (deleted_rows m)),
                 end_hash = del_row_hash (last (deleted_rows m))\<rparr>)"



section \<open>Bridge search\<close>

type_synonym bridge_index = "(bytes option \<times> retention_bridge) list"

definition next_bridge ::
  "bridge_index \<Rightarrow> retention_bridge option \<Rightarrow> bytes option \<Rightarrow> retention_bridge option" where
  "next_bridge idx fallback cursor =
     (case map_of idx cursor of
        Some b \<Rightarrow> Some b
      | None \<Rightarrow> (case fallback of
                   Some b \<Rightarrow> if start b = cursor then Some b else None
                 | None \<Rightarrow> None))"

fun bridge_hops ::
  "nat \<Rightarrow> bytes option \<Rightarrow> bytes option \<Rightarrow> bridge_index \<Rightarrow> retention_bridge option \<Rightarrow> bool" where
  "bridge_hops 0 cursor goal idx fallback = False"
| "bridge_hops (Suc n) cursor goal idx fallback =
     (case next_bridge idx fallback cursor of
        None \<Rightarrow> False
      | Some b \<Rightarrow> if Some (end_hash b) = goal then True
                  else bridge_hops n (Some (end_hash b)) goal idx fallback)"

definition marker_bridge_reaches ::
  "bytes option \<Rightarrow> bytes option \<Rightarrow> bridge_index \<Rightarrow> retention_bridge option \<Rightarrow> bool" where
  "marker_bridge_reaches from goal idx fallback =
     (let max_hops = length idx + (if fallback \<noteq> None then 1 else 0) in
      if from = goal then True else bridge_hops max_hops from goal idx fallback)"

section \<open>The walk\<close>

definition index_bridges :: "retention_bridge list \<Rightarrow> bridge_index" where
  "index_bridges bridges = fold (\<lambda>b idx. AList.update (start b) b idx) bridges []"

definition opt_default :: "bytes option \<Rightarrow> bytes" where
  "opt_default x = (case x of None \<Rightarrow> [] | Some s \<Rightarrow> s)"

fun walk_rows ::
  "(bytes \<Rightarrow> bytes) \<Rightarrow> bridge_index \<Rightarrow> bytes option \<Rightarrow> chain_row list \<Rightarrow>
   chain_verify_report \<Rightarrow> chain_verify_report" where
  "walk_rows sha256 idx expected [] report = report\<lparr>status := Ok\<rparr>"
| "walk_rows sha256 idx expected (row # rows) report =
     (if prev_hash row \<noteq> expected \<and> \<not> marker_bridge_reaches expected (prev_hash row) idx None
      then report\<lparr>status := Mismatch, first_mismatch := Some
             \<lparr>mm_row_id = row_id row, mm_chain_seq = chain_seq row, mm_kind = BrokenLink,
              mm_expected = opt_default expected, mm_actual = opt_default (prev_hash row)\<rparr>\<rparr>
      else
        let expected_hash =
              compute_row_hash sha256 (prev_hash row) (canonical_audit_bytes_with_ext5 row) in
        if expected_hash \<noteq> row_hash row
        then report\<lparr>status := Mismatch, first_mismatch := Some
               \<lparr>mm_row_id = row_id row, mm_chain_seq = chain_seq row, mm_kind = BadRowHash,
                mm_expected = expected_hash, mm_actual = row_hash row\<rparr>\<rparr>
        else walk_rows sha256 idx (Some (row_hash row)) rows
               (report\<lparr>rows_walked := rows_walked report + 1\<rparr>))"

definition verify_chain_rows_with_bridges ::
  "(bytes \<Rightarrow> bytes) \<Rightarrow> bytes \<Rightarrow> int option \<Rightarrow> int option \<Rightarrow> bytes option \<Rightarrow> chain_row list \<Rightarrow>
   retention_bridge list \<Rightarrow> chain_verify_report" where
  "verify_chain_rows_with_bridges sha256 tid from to prev_head rows bridges =
     (let report = \<lparr>rep_tenant_id = tid, rep_from = from, rep_to = to, rows_walked = 0,
                    status = Empty, first_mismatch = None, truncated = False,
                    next_after_chain_seq = None, rep_chain_head = None\<rparr> in
      if rows = [] then report
      else walk_rows sha256 (index_bridges bridges) prev_head rows report)"

definition verify_chain_rows ::
  "(bytes \<Rightarrow> bytes) \<Rightarrow> bytes \<Rightarrow> int option \<Rightarrow> int option \<Rightarrow> bytes option \<Rightarrow> chain_row list \<Rightarrow>
   retention_marker list \<Rightarrow> chain_verify_report" where
  "verify_chain_rows sha256 tid from to prev_head rows markers =
     verify_chain_rows_with_bridges sha256 tid from to prev_head rows
       (List.map_filter marker_bridge markers)"

section \<open>Admission of marker bridges\<close>

type_synonym start_index = "(bytes option \<times> nat) list"

definition cand_start :: "retention_bridge_candidate \<Rightarrow> bytes option" where
  "cand_start c = start (bridge_of c)"

definition usize_MAX :: nat where
  "usize_MAX = 2 ^ 64 - 1"

text \<open>The first two loops: index the candidates by start and drop every start claimed twice.\<close>

fun insert_start ::
  "nat \<times> retention_bridge_candidate \<Rightarrow> bool list \<times> start_index \<Rightarrow> bool list \<times> start_index" where
  "insert_start (index, c) (duplicate, idx) =
     ((case map_of idx (cand_start c) of
         Some previous \<Rightarrow> duplicate[previous := True, index := True]
       | None \<Rightarrow> duplicate),
      AList.update (cand_start c) index idx)"

fun remove_start ::
  "bool list \<Rightarrow> nat \<times> retention_bridge_candidate \<Rightarrow> start_index \<Rightarrow> start_index" where
  "remove_start duplicate (index, c) idx =
     (if duplicate ! index then AList.delete (cand_start c) idx else idx)"

definition admission_index :: "retention_bridge_candidate list \<Rightarrow> bool list \<times> start_index" where
  "admission_index cs =
     (let (duplicate, idx) =
            fold insert_start (enumerate 0 cs) (replicate (length cs) False, []) in
      (duplicate, fold (remove_start duplicate) (enumerate 0 cs) idx))"

text \<open>The bounded trace of one candidate: \<open>None\<close> when \<open>marker_prev\<close> is not reached.\<close>

fun trace_dependencies ::
  "retention_bridge_candidate list \<Rightarrow> start_index \<Rightarrow> nat \<Rightarrow> nat \<Rightarrow> bytes option \<Rightarrow> nat list \<Rightarrow>
   nat list \<Rightarrow> nat list option" where
  "trace_dependencies cs idx index 0 cursor seen deps = None"
| "trace_dependencies cs idx index (Suc n) cursor seen deps =
     (case map_of idx cursor of
        None \<Rightarrow> None
      | Some next \<Rightarrow>
          if next \<in> set seen then None
          else
            let deps' = (if next \<noteq> index then deps @ [next] else deps);
                cursor' = Some (end_hash (bridge_of (cs ! next))) in
            if cursor' = marker_prev (cs ! index) then Some deps'
            else trace_dependencies cs idx index n cursor' (next # seen) deps')"

definition candidate_dependencies ::
  "retention_bridge_candidate list \<Rightarrow> bool list \<Rightarrow> start_index \<Rightarrow> nat \<Rightarrow> nat list option" where
  "candidate_dependencies cs duplicate idx index =
     (if duplicate ! index then None
      else if expected_prev (cs ! index) = marker_prev (cs ! index) then Some []
      else trace_dependencies cs idx index (length idx) (expected_prev (cs ! index)) [] [])"

definition link_candidate ::
  "(nat \<Rightarrow> nat list option) \<Rightarrow> nat \<Rightarrow> nat list \<times> nat list list \<Rightarrow> nat list \<times> nat list list" where
  "link_candidate deps_of index = (\<lambda>(remaining, dependents).
     case deps_of index of
       None \<Rightarrow> (remaining, dependents)
     | Some deps \<Rightarrow>
         (remaining[index := length deps],
          fold (\<lambda>d ds. ds[d := (ds ! d) @ [index]]) deps dependents))"

definition release_dependent :: "nat \<Rightarrow> nat list \<times> nat list \<Rightarrow> nat list \<times> nat list" where
  "release_dependent dependent = (\<lambda>(remaining, queue).
     let left = remaining ! dependent - 1 in
     (remaining[dependent := left], if left = 0 then queue @ [dependent] else queue))"

lemma count_admitted_update:
  "i < length admitted \<Longrightarrow> \<not> admitted ! i \<Longrightarrow>
   length (filter Not (admitted[i := True])) < length (filter Not admitted)"
  by (induction admitted arbitrary: i) (auto split: nat.splits)

text \<open>The admission queue.  Every queued index is in range, so the first guard only makes the
  recursion visibly well-founded.\<close>

function admit_queue :: "nat list list \<Rightarrow> nat list \<Rightarrow> nat list \<Rightarrow> bool list \<Rightarrow> bool list" where
  "admit_queue dependents remaining [] admitted = admitted"
| "admit_queue dependents remaining (index # queue) admitted =
     (if \<not> index < length admitted \<or> admitted ! index
      then admit_queue dependents remaining queue admitted
      else
        let (remaining', queue') =
              fold release_dependent (dependents ! index) (remaining, queue) in
        admit_queue dependents remaining' queue' (admitted[index := True]))"
  by pat_completeness auto

termination
  by (relation "inv_image (less_than <*lex*> less_than)
        (\<lambda>(_, _, queue, admitted). (length (filter Not admitted), length queue))")
     (auto simp: count_admitted_update)

definition admitted_flags :: "retention_bridge_candidate list \<Rightarrow> bool list" where
  "admitted_flags cs =
     (let (duplicate, idx) = admission_index cs;
          n = length cs;
          (remaining, dependents) =
            fold (link_candidate (candidate_dependencies cs duplicate idx)) [0..<n]
              (replicate n usize_MAX, replicate n []);
          queue = filter (\<lambda>i. remaining ! i = 0) [0..<n]
      in admit_queue dependents remaining queue (replicate n False))"

definition admit_retention_bridges ::
  "retention_bridge_candidate list \<Rightarrow> retention_bridge list" where
  "admit_retention_bridges cs =
     map (\<lambda>(c, _). bridge_of c) (filter snd (zip cs (admitted_flags cs)))"

section \<open>Paths of bridges\<close>

primrec path :: "('a \<Rightarrow> 'a option) \<Rightarrow> nat \<Rightarrow> 'a \<Rightarrow> 'a option" where
  "path nxt 0 c = Some c"
| "path nxt (Suc k) c = Option.bind (nxt c) (path nxt k)"

definition hop :: "bridge_index \<Rightarrow> retention_bridge option \<Rightarrow> bytes option \<Rightarrow> bytes option option" where
  "hop idx fallback c = map_option (\<lambda>b. Some (end_hash b)) (next_bridge idx fallback c)"

lemma path_add: "path nxt (j + k) c = Option.bind (path nxt j c) (path nxt k)"
  by (induction j arbitrary: c) (auto split: bind_splits)

text \<open>A path never needs more hops than there are nodes with a successor.\<close>

lemma path_shorten:
  assumes "finite (dom nxt)" "path nxt k s = Some t"
  shows "\<exists>j \<le> card (dom nxt). path nxt j s = Some t"
proof -
  define m where "m = (LEAST j. path nxt j s = Some t)"
  have m: "path nxt m s = Some t" and least: "\<And>j. path nxt j s = Some t \<Longrightarrow> m \<le> j"
    unfolding m_def using assms(2) by (auto intro: LeastI Least_le)
  have node: "\<exists>c. path nxt i s = Some c \<and> path nxt (m - i) c = Some t" if "i \<le> m" for i
    using m that path_add [of nxt i "m - i" s] by (auto split: bind_splits)
  define f where "f i = the (path nxt i s)" for i
  have f: "path nxt i s = Some (f i) \<and> path nxt (m - i) (f i) = Some t" if "i \<le> m" for i
    using node [OF that] by (auto simp: f_def)
  have "f ` {..<m} \<subseteq> dom nxt"
  proof
    fix c assume "c \<in> f ` {..<m}"
    then obtain i where "i < m" "c = f i" by auto
    with f [of i] have "path nxt (Suc (m - Suc i)) c = Some t"
      by (simp add: Suc_diff_Suc)
    then show "c \<in> dom nxt" by (auto split: bind_splits)
  qed
  moreover have "inj_on f {..<m}"
  proof (rule ccontr)
    assume "\<not> inj_on f {..<m}"
    then obtain i j where "i < m" "j < m" "i \<noteq> j" "f i = f j" by (auto simp: inj_on_def)
    then obtain i j where ij: "i < j" "j < m" "f i = f j" by (metis nat_neq_iff)
    then have "path nxt (i + (m - j)) s = Some t"
      using f [of i] f [of j] by (simp only: path_add) simp
    then show False using least ij by fastforce
  qed
  ultimately have "m \<le> card (dom nxt)"
    using card_inj_on_le [of f "{..<m}" "dom nxt"] assms(1) by simp
  then show ?thesis using m by blast
qed

lemma bridge_hops_iff:
  "bridge_hops n c goal idx fallback \<longleftrightarrow> (\<exists>k. 0 < k \<and> k \<le> n \<and> path (hop idx fallback) k c = Some goal)"
proof (induction n arbitrary: c)
  case (Suc n)
  show ?case
  proof (cases "next_bridge idx fallback c")
    case None
    then have "path (hop idx fallback) k c \<noteq> Some goal" if "0 < k" for k
      using that by (cases k) (simp_all add: hop_def)
    then show ?thesis using None by auto
  next
    case (Some b)
    have "(\<exists>k. 0 < k \<and> k \<le> Suc n \<and> path (hop idx fallback) k c = Some goal) \<longleftrightarrow>
          (\<exists>k\<le>n. path (hop idx fallback) k (Some (end_hash b)) = Some goal)"
      using Some by (auto simp: hop_def gr0_conv_Suc)
    also have "\<dots> \<longleftrightarrow> Some (end_hash b) = goal \<or>
        (\<exists>k. 0 < k \<and> k \<le> n \<and> path (hop idx fallback) k (Some (end_hash b)) = Some goal)"
      by (metis gr0I le0 option.inject path.simps(1))
    finally show ?thesis using Some Suc by simp
  qed
qed simp

lemma dom_hop: "dom (hop idx fallback) \<subseteq> fst ` set idx \<union> start ` set_option fallback"
  by (auto simp: hop_def next_bridge_def split: option.splits if_splits) (force dest: map_of_SomeD)

lemma card_dom_hop:
  "finite (dom (hop idx fallback)) \<and>
   card (dom (hop idx fallback)) \<le> length idx + (if fallback \<noteq> None then 1 else 0)"
proof -
  let ?U = "fst ` set idx \<union> start ` set_option fallback"
  have "card ?U \<le> card (fst ` set idx) + card (start ` set_option fallback)" by (rule card_Un_le)
  also have "\<dots> \<le> length idx + (if fallback \<noteq> None then 1 else 0)"
    using card_image_le [of "set idx" fst] card_length [of idx] by (cases fallback) auto
  finally have "card ?U \<le> length idx + (if fallback \<noteq> None then 1 else 0)" .
  moreover have "finite ?U" by (cases fallback) auto
  ultimately show ?thesis
    using dom_hop [of idx fallback] by (meson card_mono finite_subset le_trans)
qed

lemma marker_bridge_reaches_iff:
  "marker_bridge_reaches from goal idx fallback \<longleftrightarrow> (\<exists>k. path (hop idx fallback) k from = Some goal)"
proof
  assume "marker_bridge_reaches from goal idx fallback"
  then show "\<exists>k. path (hop idx fallback) k from = Some goal"
    by (auto simp: marker_bridge_reaches_def bridge_hops_iff Let_def split: if_splits
        intro: exI [of _ 0])
next
  assume "\<exists>k. path (hop idx fallback) k from = Some goal"
  then obtain j where j: "j \<le> card (dom (hop idx fallback))" "path (hop idx fallback) j from = Some goal"
    using path_shorten card_dom_hop by metis
  show "marker_bridge_reaches from goal idx fallback"
  proof (cases j)
    case (Suc i)
    then have "0 < j \<and> j \<le> length idx + (if fallback \<noteq> None then 1 else 0)"
      using j card_dom_hop [of idx fallback] by linarith
    then show ?thesis
      using j(2) unfolding marker_bridge_reaches_def bridge_hops_iff Let_def by (meson)
  qed (use j in \<open>simp add: marker_bridge_reaches_def\<close>)
qed

section \<open>Which starts are indexed\<close>

definition clashing :: "retention_bridge_candidate list \<Rightarrow> nat \<Rightarrow> nat \<Rightarrow> bool" where
  "clashing cs k i \<longleftrightarrow> i < k \<and> (\<exists>j<k. j \<noteq> i \<and> cand_start (cs ! j) = cand_start (cs ! i))"

definition indexed_upto ::
  "retention_bridge_candidate list \<Rightarrow> nat \<Rightarrow> bool list \<times> start_index \<Rightarrow> bool" where
  "indexed_upto cs k = (\<lambda>(duplicate, idx).
     length duplicate = length cs \<and> (\<forall>i<length cs. duplicate ! i = clashing cs k i) \<and>
     (\<forall>s i. map_of idx s = Some i \<longrightarrow> i < k \<and> cand_start (cs ! i) = s) \<and>
     (\<forall>i<k. map_of idx (cand_start (cs ! i)) \<noteq> None) \<and> distinct (map fst idx))"

lemma indexed_upto_step:
  assumes "indexed_upto cs k (duplicate, idx)" "k < length cs"
  shows "indexed_upto cs (Suc k) (insert_start (k, cs ! k) (duplicate, idx))"
proof (cases "map_of idx (cand_start (cs ! k))")
  case None
  have fresh: "cand_start (cs ! i) \<noteq> cand_start (cs ! k)" if "i < k" for i
    using assms(1) None that by (force simp: indexed_upto_def)
  then have "clashing cs (Suc k) i = clashing cs k i" for i
    by (auto simp: clashing_def less_Suc_eq) metis
  then show ?thesis
    using assms None by (auto simp: indexed_upto_def update_conv' distinct_update less_Suc_eq split: if_splits)
next
  case (Some p)
  with assms have p: "p < k" "cand_start (cs ! p) = cand_start (cs ! k)"
    by (auto simp: indexed_upto_def)
  have "duplicate[p := True, k := True] ! i = clashing cs (Suc k) i" if "i < length cs" for i
  proof (cases "i = p \<or> i = k")
    case True
    moreover have "clashing cs (Suc k) p" "clashing cs (Suc k) k"
      using p by (auto simp: clashing_def intro: exI [of _ k] exI [of _ p])
    ultimately show ?thesis using that assms by (auto simp: indexed_upto_def nth_list_update)
  next
    case False
    then have "clashing cs (Suc k) i = clashing cs k i"
      using p by (auto simp: clashing_def less_Suc_eq)
    then show ?thesis using False that assms by (auto simp: indexed_upto_def)
  qed
  then show ?thesis
    using assms Some by (auto simp: indexed_upto_def update_conv' distinct_update less_Suc_eq split: if_splits)
qed

lemma indexed_upto_fold:
  "k \<le> length cs \<Longrightarrow> indexed_upto cs k
     (fold insert_start (take k (enumerate 0 cs)) (replicate (length cs) False, []))"
proof (induction k)
  case 0
  then show ?case by (simp add: indexed_upto_def clashing_def)
next
  case (Suc k)
  then have "take (Suc k) (enumerate 0 cs) = take k (enumerate 0 cs) @ [(k, cs ! k)]"
    by (simp add: take_Suc_conv_app_nth nth_enumerate_eq)
  then show ?case using Suc indexed_upto_step by (cases "fold insert_start (take k (enumerate 0 cs))
      (replicate (length cs) False, [])") simp
qed

lemma fold_remove_start:
  "map_of (fold (remove_start duplicate) xs idx) s =
     (if \<exists>(i, c)\<in>set xs. duplicate ! i \<and> cand_start c = s then None else map_of idx s) \<and>
   (distinct (map fst idx) \<longrightarrow> distinct (map fst (fold (remove_start duplicate) xs idx)))"
proof (induction xs arbitrary: idx)
  case (Cons x xs)
  then show ?case by (cases x) (auto simp: delete_conv' distinct_delete)
qed simp

definition unambiguous :: "retention_bridge_candidate list \<Rightarrow> nat \<Rightarrow> bool" where
  "unambiguous cs i \<longleftrightarrow> i < length cs \<and> \<not> clashing cs (length cs) i"

lemma admission_index:
  assumes "admission_index cs = (duplicate, idx)"
  shows "map_of idx s = Some i \<longleftrightarrow> unambiguous cs i \<and> cand_start (cs ! i) = s"
    and "i < length cs \<Longrightarrow> duplicate ! i = (\<not> unambiguous cs i)"
    and "distinct (map fst idx)"
proof -
  obtain d0 i0 where f: "fold insert_start (enumerate 0 cs) (replicate (length cs) False, []) = (d0, i0)"
    by fastforce
  then have inv: "indexed_upto cs (length cs) (d0, i0)"
    using indexed_upto_fold [of "length cs" cs] by simp
  have res: "duplicate = d0" "idx = fold (remove_start d0) (enumerate 0 cs) i0"
    using assms f by (auto simp: admission_index_def)
  have dup: "i < length cs \<Longrightarrow> duplicate ! i = (\<not> unambiguous cs i)" for i
    using inv res by (simp add: indexed_upto_def unambiguous_def)
  then show "i < length cs \<Longrightarrow> duplicate ! i = (\<not> unambiguous cs i)" .
  have gone: "(\<exists>(i, c)\<in>set (enumerate 0 cs). d0 ! i \<and> cand_start c = s) \<longleftrightarrow>
      (\<exists>i<length cs. \<not> unambiguous cs i \<and> cand_start (cs ! i) = s)"
    using dup res by (fastforce simp: in_set_enumerate_eq)
  have some: "map_of i0 s = Some i \<Longrightarrow> i < length cs \<and> cand_start (cs ! i) = s"
    and none: "i < length cs \<Longrightarrow> map_of i0 (cand_start (cs ! i)) \<noteq> None" for s i
    using inv by (auto simp: indexed_upto_def)
  have look: "map_of idx s = (if \<exists>i<length cs. \<not> unambiguous cs i \<and> cand_start (cs ! i) = s
      then None else map_of i0 s)"
    unfolding res gone [symmetric] by (simp only: fold_remove_start [THEN conjunct1])
  show "map_of idx s = Some i \<longleftrightarrow> unambiguous cs i \<and> cand_start (cs ! i) = s"
  proof
    assume "map_of idx s = Some i"
    then show "unambiguous cs i \<and> cand_start (cs ! i) = s"
      using look some [of s i] by (auto split: if_splits)
  next
    assume i: "unambiguous cs i \<and> cand_start (cs ! i) = s"
    then have only: "j = i" if "j < length cs" "cand_start (cs ! j) = s" for j
      using that by (auto simp: unambiguous_def clashing_def)
    obtain j where "map_of i0 s = Some j"
      using none [of i] i by (auto simp: unambiguous_def)
    then have "map_of i0 s = Some i" using some only by blast
    moreover have "\<not> (\<exists>i<length cs. \<not> unambiguous cs i \<and> cand_start (cs ! i) = s)"
      using only i by metis
    ultimately show "map_of idx s = Some i" by (simp only: look if_False)
  qed
  show "distinct (map fst idx)"
    using inv fold_remove_start [of d0 "enumerate 0 cs" i0] res by (auto simp: indexed_upto_def)
qed

section \<open>The admission queue computes a least fixed point\<close>

inductive admissible :: "(nat \<Rightarrow> nat list option) \<Rightarrow> nat \<Rightarrow> bool" for D where
  admissibleI: "D i = Some ds \<Longrightarrow> (\<forall>d\<in>set ds. admissible D d) \<Longrightarrow> admissible D i"

definition deps_ok :: "nat \<Rightarrow> (nat \<Rightarrow> nat list option) \<Rightarrow> bool" where
  "deps_ok n D \<longleftrightarrow> (\<forall>i<n. \<forall>ds. D i = Some ds \<longrightarrow> distinct ds \<and> set ds \<subseteq> {..<n})"

definition needs :: "(nat \<Rightarrow> nat list option) \<Rightarrow> nat \<Rightarrow> nat \<Rightarrow> bool" where
  "needs D d i \<longleftrightarrow> (\<exists>ds. D i = Some ds \<and> d \<in> set ds)"

lemma fold_push:
  "distinct deps \<Longrightarrow> e < length dss \<Longrightarrow>
   fold (\<lambda>d ds. ds[d := (ds ! d) @ [x]]) deps dss ! e = dss ! e @ (if e \<in> set deps then [x] else [])"
  by (induction deps arbitrary: dss) (auto simp: nth_list_update, metis nth_list_update_neq)

lemma length_fold_push [simp]: "length (fold (\<lambda>d ds. ds[d := (ds ! d) @ [x]]) deps dss) = length dss"
  by (induction deps arbitrary: dss) auto

lemma link_fold:
  assumes "deps_ok n D" "distinct xs" "set xs \<subseteq> {..<n}" "length rem = n" "length dss = n"
    "fold (link_candidate D) xs (rem, dss) = (rem', dss')"
  shows "length rem' = n \<and> length dss' = n \<and>
    (\<forall>i<n. rem' ! i = (if i \<in> set xs then (case D i of None \<Rightarrow> rem ! i | Some ds \<Rightarrow> length ds)
                        else rem ! i)) \<and>
    (\<forall>d<n. dss' ! d = dss ! d @ filter (needs D d) xs)"
  using assms(2-)
proof (induction xs arbitrary: rem dss)
  case (Cons x xs)
  obtain r1 d1 where one: "link_candidate D x (rem, dss) = (r1, d1)" by fastforce
  have len: "length r1 = n" "length d1 = n"
    using one Cons.prems by (auto simp: link_candidate_def split: option.splits)
  have r1: "r1 ! i = (if i = x then (case D i of None \<Rightarrow> rem ! i | Some ds \<Rightarrow> length ds) else rem ! i)"
    if "i < n" for i
    using one Cons.prems that by (auto simp: link_candidate_def split: option.splits)
  have d1: "d1 ! d = dss ! d @ (if needs D d x then [x] else [])" if "d < n" for d
    using one Cons.prems that assms(1)
    by (auto simp: link_candidate_def needs_def deps_ok_def fold_push split: option.splits)
  have "fold (link_candidate D) xs (r1, d1) = (rem', dss')" using Cons.prems one by simp
  then show ?case
    using Cons.IH [of r1 d1] Cons.prems(1,2) len r1 d1 by (auto split: option.splits)
qed simp

lemma release_fold:
  assumes "distinct xs" "set xs \<subseteq> {..<length rem}"
    "fold release_dependent xs (rem, q) = (rem', q')"
  shows "length rem' = length rem \<and>
    (\<forall>i<length rem. rem' ! i = (if i \<in> set xs then rem ! i - 1 else rem ! i)) \<and>
    q' = q @ filter (\<lambda>i. rem ! i - 1 = 0) xs"
  using assms
proof (induction xs arbitrary: rem q)
  case (Cons x xs)
  obtain r1 q1 where one: "release_dependent x (rem, q) = (r1, q1)" by fastforce
  then have r1: "length r1 = length rem" "r1 = rem[x := rem ! x - 1]"
    and q1: "q1 = q @ (if rem ! x - 1 = 0 then [x] else [])"
    by (auto simp: release_dependent_def Let_def)
  have "filter (\<lambda>i. r1 ! i - 1 = 0) xs = filter (\<lambda>i. rem ! i - 1 = 0) xs"
    using Cons.prems(1) r1 by (intro filter_cong refl) (metis distinct.simps(2) nth_list_update_neq)
  then show ?case
    using Cons.IH [of r1 q1] Cons.prems one r1 q1 by (auto simp: nth_list_update)
qed simp

definition waiting :: "(nat \<Rightarrow> nat list option) \<Rightarrow> bool list \<Rightarrow> nat \<Rightarrow> nat set" where
  "waiting D admitted i = {d. needs D d i \<and> \<not> admitted ! d}"

definition queue_inv ::
  "(nat \<Rightarrow> nat list option) \<Rightarrow> nat \<Rightarrow> nat list list \<Rightarrow> nat list \<Rightarrow> nat list \<Rightarrow> bool list \<Rightarrow> bool" where
  "queue_inv D n dss rem q adm \<longleftrightarrow>
     length rem = n \<and> length adm = n \<and> distinct q \<and>
     (\<forall>d<n. dss ! d = filter (needs D d) [0..<n]) \<and>
     (\<forall>i<n. D i \<noteq> None \<longrightarrow> rem ! i = card (waiting D adm i)) \<and>
     set q = {i. i < n \<and> D i \<noteq> None \<and> waiting D adm i = {} \<and> \<not> adm ! i} \<and>
     (\<forall>i<n. adm ! i \<longrightarrow> admissible D i \<and> waiting D adm i = {})"

lemma finite_waiting [simp]: "finite (waiting D adm i)"
proof -
  have "waiting D adm i \<subseteq> (case D i of None \<Rightarrow> {} | Some ds \<Rightarrow> set ds)"
    by (auto simp: waiting_def needs_def)
  then show ?thesis by (rule finite_subset) (simp split: option.splits)
qed

lemma waiting_admit:
  "x < length adm \<Longrightarrow> waiting D (adm[x := True]) i = waiting D adm i - {x}"
  by (auto simp: waiting_def nth_list_update split: if_splits)

lemma waiting_empty_admissible:
  assumes "deps_ok n D" "i < n" "D i \<noteq> None" "waiting D adm i = {}"
    "\<And>d. d < n \<Longrightarrow> adm ! d \<Longrightarrow> admissible D d"
  shows "admissible D i"
proof -
  obtain ds where ds: "D i = Some ds" using assms(3) by auto
  have "admissible D d" if "d \<in> set ds" for d
  proof (rule assms(5))
    show "d < n" using that ds assms(1,2) by (auto simp: deps_ok_def)
    show "adm ! d" using that ds assms(4) by (auto simp: waiting_def needs_def)
  qed
  then show ?thesis using ds admissibleI by blast
qed

lemma queue_inv_step:
  assumes inv: "queue_inv D n dss rem (x # q) adm" and ok: "deps_ok n D"
    and fold: "fold release_dependent (dss ! x) (rem, q) = (rem', q')"
  shows "queue_inv D n dss rem' q' (adm[x := True])"
proof -
  have x: "x < n" "D x \<noteq> None" "waiting D adm x = {}" "\<not> adm ! x" "x \<notin> set q" "distinct q"
    and len: "length rem = n" "length adm = n"
    and dx: "dss ! x = filter (needs D x) [0..<n]"
    and rem: "\<And>i. i < n \<Longrightarrow> D i \<noteq> None \<Longrightarrow> rem ! i = card (waiting D adm i)"
    and q: "insert x (set q) = {i. i < n \<and> D i \<noteq> None \<and> waiting D adm i = {} \<and> \<not> adm ! i}"
    and adm: "\<And>i. i < n \<Longrightarrow> adm ! i \<Longrightarrow> admissible D i"
    and admw: "\<And>i. i < n \<Longrightarrow> adm ! i \<Longrightarrow> waiting D adm i = {}"
    using inv by (auto simp: queue_inv_def)
  note wadm = waiting_admit [of x adm D]
  have xw: "x \<in> waiting D adm i \<longleftrightarrow> needs D x i" for i using x by (simp add: waiting_def)
  have "distinct (dss ! x)" "set (dss ! x) \<subseteq> {..<length rem}" by (auto simp: dx len)
  note released = release_fold [OF this fold]
  have rel: "length rem' = n"
    "\<And>i. i < n \<Longrightarrow> rem' ! i = (if needs D x i then rem ! i - 1 else rem ! i)"
    "q' = q @ filter (\<lambda>i. rem ! i - 1 = 0) (filter (needs D x) [0..<n])"
    using released by (auto simp: dx len)
  have rem': "rem' ! i = card (waiting D (adm[x := True]) i)" if "i < n" "D i \<noteq> None" for i
    using that rel(2) rem xw [of i] wadm x(1) len by (simp add: card_Diff_singleton_if)
  have some: "needs D x i \<Longrightarrow> D i \<noteq> None" for i by (auto simp: needs_def)
  have new: "rem ! i - 1 = 0 \<longleftrightarrow> waiting D (adm[x := True]) i = {}" if "i < n" "needs D x i" for i
    using rem' [OF that(1) some [OF that(2)]] rel(2) [OF that(1)] that by simp
  have old: "waiting D (adm[x := True]) i = waiting D adm i" if "\<not> needs D x i" for i
    using wadm x(1) len that xw by simp
  have nin: "i \<notin> set q" if "needs D x i" for i
    using q that xw [of i] by auto
  have sym: "\<not> needs D x x" using xw [of x] x(3) by simp
  have "set q' = {i. i < n \<and> D i \<noteq> None \<and> waiting D (adm[x := True]) i = {} \<and> \<not> adm[x := True] ! i}"
  proof (rule set_eqI)
    fix i
    show "i \<in> set q' \<longleftrightarrow>
      i \<in> {i. i < n \<and> D i \<noteq> None \<and> waiting D (adm[x := True]) i = {} \<and> \<not> adm[x := True] ! i}"
    proof (cases "needs D x i")
      case True
      then have "i \<noteq> x" "i < n \<Longrightarrow> \<not> adm ! i"
        using sym admw [of i] xw [of i] by auto
      then show ?thesis using True new [of i] nin [of i] rel(3) some [of i] by auto
    next
      case False
      then show ?thesis using old [of i] rel(3) q x len by (auto simp: nth_list_update)
    qed
  qed
  moreover have "distinct q'" using rel(3) x(6) nin by auto
  moreover have "admissible D i \<and> waiting D (adm[x := True]) i = {}" if "i < n" "adm[x := True] ! i" for i
    using that adm admw waiting_empty_admissible [OF ok x(1,2,3)] len wadm x(1,3)
    by (cases "i = x") auto
  ultimately show ?thesis
    using inv rel(1) rem' len by (simp add: queue_inv_def)
qed

lemma admit_queue_least:
  assumes "queue_inv D n dss rem q adm" "deps_ok n D"
  shows "length (admit_queue dss rem q adm) = n \<and>
         (\<forall>i<n. admit_queue dss rem q adm ! i \<longleftrightarrow> admissible D i)"
  using assms
proof (induction dss rem q adm rule: admit_queue.induct)
  case (1 dss rem adm)
  have "i < n \<longrightarrow> adm ! i" if "admissible D i" for i
    using that
  proof (induction rule: admissible.induct)
    case (admissibleI i ds)
    show ?case
    proof
      assume "i < n"
      then have "waiting D adm i = {}"
        using admissibleI 1(2) by (auto simp: waiting_def needs_def deps_ok_def)
      then show "adm ! i" using 1(1) \<open>i < n\<close> admissibleI(1) by (auto simp: queue_inv_def)
    qed
  qed
  then show ?case using 1(1) by (auto simp: queue_inv_def)
next
  case (2 dss rem x q adm)
  have x: "x < length adm" "\<not> adm ! x" using 2(3) by (auto simp: queue_inv_def)
  obtain rem' q' where f: "fold release_dependent (dss ! x) (rem, q) = (rem', q')" by fastforce
  then show ?case
    using 2(2) [OF _ f [symmetric] refl] queue_inv_step [OF 2(3,4) f] 2(4) x by (simp add: Let_def)
qed

section \<open>What admission means\<close>

text \<open>A chain of bridges from one hash to another, through unambiguous candidates.\<close>

fun bridge_chain ::
  "retention_bridge_candidate list \<Rightarrow> bytes option \<Rightarrow> nat list \<Rightarrow> bytes option \<Rightarrow> bool" where
  "bridge_chain cs c [] goal \<longleftrightarrow> c = goal"
| "bridge_chain cs c (j # js) goal \<longleftrightarrow> unambiguous cs j \<and> cand_start (cs ! j) = c \<and>
     bridge_chain cs (Some (end_hash (bridge_of (cs ! j)))) js goal"

text \<open>
  The specification: a marker is proven when its own predecessor link, from the row before it to its
  \<open>prev_hash\<close>, is bridged by the marker itself and by markers proven before.
\<close>

inductive proven :: "retention_bridge_candidate list \<Rightarrow> nat \<Rightarrow> bool" for cs where
  provenI: "unambiguous cs i \<Longrightarrow> bridge_chain cs (expected_prev (cs ! i)) js (marker_prev (cs ! i)) \<Longrightarrow>
    (\<forall>j\<in>set js. j = i \<or> proven cs j) \<Longrightarrow> proven cs i"

lemma bridge_chain_append:
  "bridge_chain cs c (xs @ ys) goal \<longleftrightarrow>
   (\<exists>m. bridge_chain cs c xs m \<and> bridge_chain cs m ys goal)"
  by (induction xs arbitrary: c) auto

lemma bridge_chain_unambiguous: "bridge_chain cs c js goal \<Longrightarrow> j \<in> set js \<Longrightarrow> unambiguous cs j"
  by (induction js arbitrary: c) auto

lemma bridge_chain_det: "bridge_chain cs c js m \<Longrightarrow> bridge_chain cs c js m' \<Longrightarrow> m = m'"
  by (induction js arbitrary: c) auto

text \<open>The trace stops at the first time it meets the goal.\<close>

definition first_hit :: "retention_bridge_candidate list \<Rightarrow> bytes option \<Rightarrow> nat list \<Rightarrow> bytes option \<Rightarrow> bool" where
  "first_hit cs c js goal \<longleftrightarrow> bridge_chain cs c js goal \<and> js \<noteq> [] \<and> distinct js \<and>
     (\<forall>xs ys. js = xs @ ys \<and> xs \<noteq> [] \<and> ys \<noteq> [] \<longrightarrow> \<not> bridge_chain cs c xs goal)"

lemma ex_list_Cons: "\<not> P [] \<Longrightarrow> (\<exists>xs. P xs) \<longleftrightarrow> (\<exists>x xs. P (x # xs))"
  by (metis list.exhaust)

lemma first_hit_Cons:
  "first_hit cs c (j # js) goal \<longleftrightarrow>
     unambiguous cs j \<and> cand_start (cs ! j) = c \<and> j \<notin> set js \<and>
     (if js = [] then Some (end_hash (bridge_of (cs ! j))) = goal
      else Some (end_hash (bridge_of (cs ! j))) \<noteq> goal \<and>
           first_hit cs (Some (end_hash (bridge_of (cs ! j)))) js goal)"
  (is "?L \<longleftrightarrow> ?R")
proof (cases "js = []")
  case True
  then show ?thesis by (auto simp: first_hit_def Cons_eq_append_conv)
next
  case False
  have "(\<forall>xs ys. j # js = xs @ ys \<and> xs \<noteq> [] \<and> ys \<noteq> [] \<longrightarrow> P xs) \<longleftrightarrow>
        P [j] \<and> (\<forall>xs ys. js = xs @ ys \<and> xs \<noteq> [] \<and> ys \<noteq> [] \<longrightarrow> P (j # xs))" for P
    using False by (auto simp: Cons_eq_append_conv)
  then show ?thesis using False by (auto simp: first_hit_def)
qed

lemma trace_iff:
  assumes "\<And>s i. map_of idx s = Some i \<longleftrightarrow> unambiguous cs i \<and> cand_start (cs ! i) = s"
  shows "trace_dependencies cs idx i n c seen deps = Some ds \<longleftrightarrow>
    (\<exists>js. first_hit cs c js (marker_prev (cs ! i)) \<and> length js \<le> n \<and> set js \<inter> set seen = {} \<and>
          ds = deps @ filter (\<lambda>j. j \<noteq> i) js)"
proof (induction n arbitrary: c seen deps)
  case 0
  then show ?case by (auto simp: first_hit_def)
next
  case (Suc n)
  let ?g = "marker_prev (cs ! i)"
  have split: "(\<exists>js. first_hit cs c js ?g \<and> length js \<le> Suc n \<and> set js \<inter> set seen = {} \<and>
          ds = deps @ filter (\<lambda>j. j \<noteq> i) js) \<longleftrightarrow>
      (\<exists>j js. first_hit cs c (j # js) ?g \<and> length js \<le> n \<and> set (j # js) \<inter> set seen = {} \<and>
          ds = deps @ filter (\<lambda>j. j \<noteq> i) (j # js))"
    (is "(\<exists>js. ?P js) \<longleftrightarrow> (\<exists>j js. ?Q j js)")
  proof -
    have "(\<exists>js. ?P js) \<longleftrightarrow> (\<exists>j js. ?P (j # js))"
      by (subst ex_list_Cons) (auto simp: first_hit_def)
    then show ?thesis by simp
  qed
  show ?case
  proof (cases "map_of idx c")
    case None
    then show ?thesis using assms by (auto simp: split first_hit_Cons) (metis option.distinct(1))+
  next
    case (Some k)
    then have k: "unambiguous cs k" "cand_start (cs ! k) = c" using assms by auto
    have uniq: "unambiguous cs j \<and> cand_start (cs ! j) = c \<longleftrightarrow> j = k" for j
      using Some assms by (metis option.inject)
    let ?e = "Some (end_hash (bridge_of (cs ! k)))"
    let ?deps = "if k \<noteq> i then deps @ [k] else deps"
    have rhs: "(\<exists>j js. first_hit cs c (j # js) ?g \<and> length js \<le> n \<and> set (j # js) \<inter> set seen = {} \<and>
          ds = deps @ filter (\<lambda>j. j \<noteq> i) (j # js)) \<longleftrightarrow>
        (\<exists>js. first_hit cs c (k # js) ?g \<and> length js \<le> n \<and> set (k # js) \<inter> set seen = {} \<and>
          ds = ?deps @ filter (\<lambda>j. j \<noteq> i) js)"
    proof -
      have "j = k" if "first_hit cs c (j # js) ?g" for j js
        using that uniq [of j] first_hit_Cons by blast
      moreover have "deps @ filter (\<lambda>j. j \<noteq> i) (k # js) = ?deps @ filter (\<lambda>j. j \<noteq> i) js" for js
        by simp
      ultimately show ?thesis by metis
    qed
    show ?thesis
    proof (cases "k \<in> set seen \<or> ?e = ?g")
      case True
      have nil: "(\<exists>js. first_hit cs c (k # js) ?g \<and> length js \<le> n \<and> set (k # js) \<inter> set seen = {} \<and>
          ds = ?deps @ filter (\<lambda>j. j \<noteq> i) js) \<longleftrightarrow> k \<notin> set seen \<and> ds = ?deps"
        using True k by (simp add: first_hit_Cons) (metis empty_iff filter.simps(1) append_Nil2
            le0 list.set(1) list.size(3))
      show ?thesis unfolding split rhs nil using Some True by (auto simp: Let_def)
    next
      case False
      have nohit: "\<not> first_hit cs ?e [] ?g" by (simp add: first_hit_def)
      have fh: "first_hit cs c (k # js) ?g \<longleftrightarrow> k \<notin> set js \<and> first_hit cs ?e js ?g" for js
        using False k nohit by (cases "js = []") (simp_all add: first_hit_Cons)
      from False have "trace_dependencies cs idx i (Suc n) c seen deps = Some ds \<longleftrightarrow>
          trace_dependencies cs idx i n ?e (k # seen) ?deps = Some ds"
        using Some by (simp add: Let_def)
      also have "\<dots> \<longleftrightarrow> (\<exists>js. first_hit cs ?e js ?g \<and> length js \<le> n \<and> set js \<inter> set (k # seen) = {} \<and>
          ds = ?deps @ filter (\<lambda>j. j \<noteq> i) js)"
        by (rule Suc.IH)
      also have "\<dots> \<longleftrightarrow> (\<exists>js. first_hit cs c (k # js) ?g \<and> length js \<le> n \<and> set (k # js) \<inter> set seen = {} \<and>
          ds = ?deps @ filter (\<lambda>j. j \<noteq> i) js)"
        unfolding fh using False by (intro ex_cong1) auto
      finally show ?thesis unfolding split rhs .
    qed
  qed
qed

lemma bridge_chain_loop:
  assumes "bridge_chain cs c (xs @ [j] @ ys @ [j] @ zs) goal"
  shows "bridge_chain cs c (xs @ [j] @ zs) goal"
  using assms by (auto simp: bridge_chain_append)

lemma first_hit_exists:
  assumes "bridge_chain cs c js goal" "js \<noteq> []"
  shows "\<exists>ks. first_hit cs c ks goal \<and> set ks \<subseteq> set js"
  using assms
proof (induction js rule: length_induct)
  case (1 js)
  show ?case
  proof (cases "first_hit cs c js goal")
    case False
    then consider (dup) "\<not> distinct js"
      | (hit) xs ys where "js = xs @ ys" "xs \<noteq> []" "ys \<noteq> []" "bridge_chain cs c xs goal"
      using 1(2,3) by (auto simp: first_hit_def)
    then show ?thesis
    proof cases
      case dup
      then obtain xs j ys zs where js: "js = xs @ [j] @ ys @ [j] @ zs"
        using not_distinct_decomp by blast
      then have "bridge_chain cs c (xs @ [j] @ zs) goal" using 1(2) bridge_chain_loop by blast
      then show ?thesis using 1(1) [rule_format, of "xs @ [j] @ zs"] js by auto
    next
      case hit
      then show ?thesis using 1(1) [rule_format, of xs] by auto
    qed
  qed auto
qed

lemma first_hit_bound:
  assumes idx: "\<And>s i. map_of idx s = Some i \<longleftrightarrow> unambiguous cs i \<and> cand_start (cs ! i) = s"
    and "first_hit cs c js goal"
  shows "length js \<le> length idx"
proof -
  have un: "unambiguous cs j" if "j \<in> set js" for j
    using assms(2) that bridge_chain_unambiguous by (auto simp: first_hit_def)
  have "set js \<subseteq> snd ` set idx"
  proof
    fix j assume "j \<in> set js"
    then have "map_of idx (cand_start (cs ! j)) = Some j" using un idx by blast
    then show "j \<in> snd ` set idx" by (force dest: map_of_SomeD)
  qed
  then have "card (set js) \<le> card (snd ` set idx)" by (simp add: card_mono)
  also have "\<dots> \<le> length idx" by (metis card_length length_map list.set_map)
  finally show ?thesis using assms(2) by (simp add: first_hit_def distinct_card)
qed

definition deps_of :: "retention_bridge_candidate list \<Rightarrow> nat \<Rightarrow> nat list option" where
  "deps_of cs = (case admission_index cs of (duplicate, idx) \<Rightarrow> candidate_dependencies cs duplicate idx)"

lemma deps_of_iff:
  assumes "i < length cs"
  shows "deps_of cs i = Some ds \<longleftrightarrow> unambiguous cs i \<and>
    (if expected_prev (cs ! i) = marker_prev (cs ! i) then ds = []
     else \<exists>js. first_hit cs (expected_prev (cs ! i)) js (marker_prev (cs ! i)) \<and>
               ds = filter (\<lambda>j. j \<noteq> i) js)"
proof -
  obtain duplicate idx where a: "admission_index cs = (duplicate, idx)" by fastforce
  note idx = admission_index(1) [OF a]
  show ?thesis
    using admission_index(2) [OF a assms] first_hit_bound [OF idx]
    by (auto simp: deps_of_def a candidate_dependencies_def trace_iff [OF idx])
qed

lemma deps_ok_deps_of: "deps_ok (length cs) (deps_of cs)"
  unfolding deps_ok_def
proof (intro allI impI)
  fix i ds assume "i < length cs" "deps_of cs i = Some ds"
  then have "ds = [] \<or> (\<exists>c js g. first_hit cs c js g \<and> ds = filter (\<lambda>j. j \<noteq> i) js)"
    by (auto simp: deps_of_iff split: if_splits)
  then show "distinct ds \<and> set ds \<subseteq> {..<length cs}"
    using bridge_chain_unambiguous by (fastforce simp: first_hit_def unambiguous_def)
qed

lemma admissible_iff_proven:
  assumes "i < length cs"
  shows "admissible (deps_of cs) i \<longleftrightarrow> proven cs i"
proof
  assume "admissible (deps_of cs) i"
  then show "proven cs i" using assms
  proof (induction rule: admissible.induct)
    case (admissibleI i ds)
    have sub: "set ds \<subseteq> {..<length cs}" using deps_ok_deps_of admissibleI by (auto simp: deps_ok_def)
    consider "expected_prev (cs ! i) = marker_prev (cs ! i)" "unambiguous cs i"
      | js where "first_hit cs (expected_prev (cs ! i)) js (marker_prev (cs ! i))"
          "ds = filter (\<lambda>j. j \<noteq> i) js" "unambiguous cs i"
      using admissibleI(1,3) by (auto simp: deps_of_iff split: if_splits)
    then show ?case
    proof cases
      case 1
      then show ?thesis by (intro provenI [of cs i "[]"]) auto
    next
      case 2
      then show ?thesis using admissibleI(2) sub
        by (intro provenI [of cs i js]) (auto simp: first_hit_def)
    qed
  qed
next
  assume "proven cs i"
  then show "admissible (deps_of cs) i"
  proof (induction rule: proven.induct)
    case (provenI i js)
    then have i: "i < length cs" by (simp add: unambiguous_def)
    show ?case
    proof (cases "expected_prev (cs ! i) = marker_prev (cs ! i)")
      case True
      then have "deps_of cs i = Some []" using provenI i by (simp add: deps_of_iff)
      then show ?thesis by (rule admissibleI) simp
    next
      case False
      then have "js \<noteq> []" using provenI(2) by auto
      then obtain ks where ks: "first_hit cs (expected_prev (cs ! i)) ks (marker_prev (cs ! i))"
        "set ks \<subseteq> set js" using first_hit_exists provenI(2) by blast
      then have "deps_of cs i = Some (filter (\<lambda>j. j \<noteq> i) ks)"
        using provenI(1) i False by (auto simp: deps_of_iff)
      then show ?thesis by (rule admissibleI) (use provenI(3) ks in auto)
    qed
  qed
qed

lemma queue_inv_start:
  assumes ok: "deps_ok n D"
    and link: "fold (link_candidate D) [0..<n] (replicate n usize_MAX, replicate n []) = (rem, dss)"
  shows "queue_inv D n dss rem (filter (\<lambda>i. rem ! i = 0) [0..<n]) (replicate n False)"
proof -
  have rem: "length rem = n" "\<And>i. i < n \<Longrightarrow> rem ! i = (case D i of None \<Rightarrow> usize_MAX | Some ds \<Rightarrow> length ds)"
    and dss: "\<And>d. d < n \<Longrightarrow> dss ! d = filter (needs D d) [0..<n]"
    using link_fold [OF ok _ _ _ _ link] by (simp_all add: subset_eq split: option.splits)
  have wait: "waiting D (replicate n False) i = (case D i of None \<Rightarrow> {} | Some ds \<Rightarrow> set ds)" if "i < n" for i
    using ok that by (auto simp: waiting_def needs_def deps_ok_def split: option.splits)
       (metis lessThan_iff nth_replicate subsetD)
  have "rem ! i = card (waiting D (replicate n False) i)" if "i < n" "D i \<noteq> None" for i
    using that rem(2) wait ok by (auto simp: deps_ok_def distinct_card)
  moreover have "rem ! i = 0 \<longleftrightarrow> D i \<noteq> None \<and> waiting D (replicate n False) i = {}" if "i < n" for i
    using that rem(2) wait by (auto simp: usize_MAX_def split: option.splits)
  ultimately show ?thesis using rem(1) dss by (auto simp: queue_inv_def)
qed

lemma admitted_flags:
  "length (admitted_flags cs) = length cs \<and> (\<forall>i<length cs. admitted_flags cs ! i \<longleftrightarrow> proven cs i)"
proof -
  obtain duplicate idx where a: "admission_index cs = (duplicate, idx)" by fastforce
  obtain rem dss where l: "fold (link_candidate (deps_of cs)) [0..<length cs]
      (replicate (length cs) usize_MAX, replicate (length cs) []) = (rem, dss)" by fastforce
  have "admitted_flags cs =
      admit_queue dss rem (filter (\<lambda>i. rem ! i = 0) [0..<length cs]) (replicate (length cs) False)"
    using l by (simp add: admitted_flags_def a deps_of_def Let_def)
  then show ?thesis
    using admit_queue_least [OF queue_inv_start [OF deps_ok_deps_of l] deps_ok_deps_of]
      admissible_iff_proven by auto
qed

lemma filter_zip_flags:
  "length bs = length xs \<Longrightarrow>
   map (\<lambda>(c, _). f c) (filter snd (zip xs bs)) = map (\<lambda>i. f (xs ! i)) (filter ((!) bs) [0..<length xs])"
proof (induction xs arbitrary: bs rule: rev_induct)
  case (snoc x xs)
  then obtain b cs where bs: "bs = cs @ [b]" "length cs = length xs"
    by (metis length_0_conv length_append_singleton nat.distinct(1) rev_exhaust nat.inject)
  have "filter ((!) (cs @ [b])) [0..<length xs] = filter ((!) cs) [0..<length xs]"
    using bs by (intro filter_cong) (auto simp: nth_append)
  moreover have "map (\<lambda>i. f ((xs @ [x]) ! i)) (filter ((!) cs) [0..<length xs]) =
      map (\<lambda>i. f (xs ! i)) (filter ((!) cs) [0..<length xs])"
    by (intro map_cong) (auto simp: nth_append)
  moreover have "(cs @ [b]) ! length xs = b" by (metis bs(2) nth_append_length)
  ultimately show ?case using snoc.IH [of cs] bs by simp
qed simp

lemma admit_retention_bridges_proven:
  "admit_retention_bridges cs = map (\<lambda>i. bridge_of (cs ! i)) (filter (proven cs) [0..<length cs])"
proof -
  have "filter ((!) (admitted_flags cs)) [0..<length cs] = filter (proven cs) [0..<length cs]"
    using admitted_flags by (intro filter_cong) auto
  then show ?thesis
    using filter_zip_flags [of "admitted_flags cs" cs bridge_of] admitted_flags
    by (simp add: admit_retention_bridges_def)
qed

section \<open>The index built by the walk\<close>

lemma index_bridges_distinct: "distinct (map fst (index_bridges bs))"
proof -
  have "distinct (map fst (fold (\<lambda>b idx. AList.update (start b) b idx) bs idx))"
    if "distinct (map fst idx)" for idx :: bridge_index
    using that by (induction bs arbitrary: idx) (auto simp: distinct_update)
  then show ?thesis by (simp add: index_bridges_def)
qed

lemma map_of_index_bridges:
  assumes "b \<in> set bs" "\<And>b'. b' \<in> set bs \<Longrightarrow> start b' = start b \<Longrightarrow> b' = b"
  shows "map_of (index_bridges bs) (start b) = Some b"
proof -
  have "map_of (fold (\<lambda>b idx. AList.update (start b) b idx) bs idx) (start b) =
      (if b \<in> set bs then Some b else map_of idx (start b))"
    if "\<And>b'. b' \<in> set bs \<Longrightarrow> start b' = start b \<Longrightarrow> b' = b" for idx :: bridge_index
    using that by (induction bs arbitrary: idx) (auto simp: update_conv', metis)
  then show ?thesis using assms by (simp add: index_bridges_def)
qed

lemma proven_unambiguous: "proven cs i \<Longrightarrow> unambiguous cs i"
  by (induction rule: proven.induct)

lemma proven_lookup:
  assumes "proven cs i"
  shows "map_of (index_bridges (admit_retention_bridges cs)) (cand_start (cs ! i)) = Some (bridge_of (cs ! i))"
proof -
  have i: "i < length cs" using assms proven_unambiguous by (auto simp: unambiguous_def)
  have "b = bridge_of (cs ! i)"
    if "b \<in> set (admit_retention_bridges cs)" "start b = start (bridge_of (cs ! i))" for b
    using that assms proven_unambiguous
    by (auto simp: admit_retention_bridges_proven unambiguous_def clashing_def cand_start_def)
  then show ?thesis
    using map_of_index_bridges [of "bridge_of (cs ! i)" "admit_retention_bridges cs"] i assms
    by (simp add: cand_start_def admit_retention_bridges_proven)
qed

lemma bridge_chain_path:
  assumes "bridge_chain cs c js goal" "\<And>j. j \<in> set js \<Longrightarrow> proven cs j"
  shows "path (hop (index_bridges (admit_retention_bridges cs)) None) (length js) c = Some goal"
  using assms
proof (induction js arbitrary: c)
  case (Cons j js)
  then have "hop (index_bridges (admit_retention_bridges cs)) None c = Some (Some (end_hash (bridge_of (cs ! j))))"
    using proven_lookup [of cs j] by (auto simp: hop_def next_bridge_def)
  then show ?case using Cons by simp
qed simp

section \<open>The walk\<close>

definition expected_at :: "bytes option \<Rightarrow> chain_row list \<Rightarrow> nat \<Rightarrow> bytes option" where
  "expected_at prev_head rows i = (if i = 0 then prev_head else Some (row_hash (rows ! (i - 1))))"

definition bridged :: "retention_bridge list \<Rightarrow> bytes option \<Rightarrow> bytes option \<Rightarrow> bool" where
  "bridged bs c goal \<longleftrightarrow> (\<exists>k. path (hop (index_bridges bs) None) k c = Some goal)"

lemma bridged_refl [simp]: "bridged bs c c"
  unfolding bridged_def by (rule exI [of _ 0]) simp

lemma bridged_Nil [simp]: "bridged [] c goal \<longleftrightarrow> c = goal"
proof -
  have "path (hop (index_bridges []) None) k c = Some goal \<longleftrightarrow> k = 0 \<and> c = goal" for k
    by (cases k) (auto simp: hop_def next_bridge_def index_bridges_def)
  then show ?thesis by (simp add: bridged_def)
qed

definition link_ok :: "retention_bridge list \<Rightarrow> bytes option \<Rightarrow> chain_row list \<Rightarrow> nat \<Rightarrow> bool" where
  "link_ok bs prev_head rows i \<longleftrightarrow> bridged bs (expected_at prev_head rows i) (prev_hash (rows ! i))"

definition hash_ok :: "(bytes \<Rightarrow> bytes) \<Rightarrow> chain_row \<Rightarrow> bool" where
  "hash_ok sha256 row \<longleftrightarrow> recompute_row_hash sha256 row = row_hash row"

lemma expected_at_Cons [simp]:
  "expected_at e (r # rows) 0 = e"
  "expected_at e (r # rows) (Suc i) = expected_at (Some (row_hash r)) rows i"
  by (auto simp: expected_at_def nth_Cons')

lemma link_ok_Cons [simp]:
  "link_ok bs e (r # rows) 0 = bridged bs e (prev_hash r)"
  "link_ok bs e (r # rows) (Suc i) = link_ok bs (Some (row_hash r)) rows i"
  by (simp_all add: link_ok_def)

definition walk_result ::
  "(bytes \<Rightarrow> bytes) \<Rightarrow> retention_bridge list \<Rightarrow> bytes option \<Rightarrow> chain_row list \<Rightarrow> nat \<Rightarrow>
   chain_verify_report \<Rightarrow> bool" where
  "walk_result sha256 bs e rows n rep \<longleftrightarrow>
     n \<le> length rows \<and> (\<forall>i<n. link_ok bs e rows i \<and> hash_ok sha256 (rows ! i)) \<and>
     (if n = length rows then status rep = Ok \<and> first_mismatch rep = None
      else \<not> (link_ok bs e rows n \<and> hash_ok sha256 (rows ! n)) \<and> status rep = Mismatch \<and>
           (\<exists>m. first_mismatch rep = Some m \<and> mm_row_id m = row_id (rows ! n) \<and>
                mm_chain_seq m = chain_seq (rows ! n) \<and>
                mm_kind m = (if link_ok bs e rows n then BadRowHash else BrokenLink)))"

lemma walk_result_Cons:
  assumes "bridged bs e (prev_hash r)" "hash_ok sha256 r"
  shows "walk_result sha256 bs e (r # rows) (Suc n) rep = walk_result sha256 bs (Some (row_hash r)) rows n rep"
  using assms by (simp add: walk_result_def All_less_Suc2)

lemma walk_rows_result:
  assumes "first_mismatch rep = None"
  shows "\<exists>n. rows_walked (walk_rows sha256 (index_bridges bs) e rows rep) = rows_walked rep + n \<and>
             walk_result sha256 bs e rows n (walk_rows sha256 (index_bridges bs) e rows rep)"
  using assms
proof (induction rows arbitrary: e rep)
  case Nil
  then show ?case by (auto simp: walk_result_def)
next
  case (Cons r rows)
  have link: "prev_hash r \<noteq> e \<and> \<not> marker_bridge_reaches e (prev_hash r) (index_bridges bs) None \<longleftrightarrow>
      \<not> bridged bs e (prev_hash r)"
    using bridged_refl [of bs e] unfolding marker_bridge_reaches_iff bridged_def by metis
  have hash: "compute_row_hash sha256 (prev_hash r) (canonical_audit_bytes_with_ext5 r) \<noteq> row_hash r \<longleftrightarrow>
      \<not> hash_ok sha256 r"
    by (simp add: hash_ok_def recompute_row_hash_def)
  show ?case
  proof (cases "bridged bs e (prev_hash r) \<and> hash_ok sha256 r")
    case True
    define rep' where "rep' = rep\<lparr>rows_walked := rows_walked rep + 1\<rparr>"
    have "walk_rows sha256 (index_bridges bs) e (r # rows) rep =
        walk_rows sha256 (index_bridges bs) (Some (row_hash r)) rows rep'"
      using True unfolding walk_rows.simps link hash Let_def by (simp add: rep'_def)
    moreover obtain n where
      "rows_walked (walk_rows sha256 (index_bridges bs) (Some (row_hash r)) rows rep') = rows_walked rep' + n"
      "walk_result sha256 bs (Some (row_hash r)) rows n
         (walk_rows sha256 (index_bridges bs) (Some (row_hash r)) rows rep')"
      using Cons.IH [of rep'] Cons.prems by (auto simp: rep'_def)
    ultimately show ?thesis
      using True by (intro exI [of _ "Suc n"]) (simp add: walk_result_Cons rep'_def)
  next
    case False
    then show ?thesis
      unfolding walk_rows.simps link hash Let_def
      by (intro exI [of _ 0]) (auto simp: walk_result_def)
  qed
qed

lemma verify_result:
  assumes "rows \<noteq> []"
  shows "walk_result sha256 bs e rows (rows_walked (verify_chain_rows_with_bridges sha256 tid from to e rows bs))
           (verify_chain_rows_with_bridges sha256 tid from to e rows bs)"
proof -
  define rep where "rep = \<lparr>rep_tenant_id = tid, rep_from = from, rep_to = to, rows_walked = 0,
    status = Empty, first_mismatch = None, truncated = False, next_after_chain_seq = None,
    rep_chain_head = None\<rparr>"
  have "verify_chain_rows_with_bridges sha256 tid from to e rows bs =
      walk_rows sha256 (index_bridges bs) e rows rep"
    using assms by (simp add: verify_chain_rows_with_bridges_def rep_def)
  then show ?thesis
    using walk_rows_result [of rep sha256 bs e rows] by (auto simp: rep_def)
qed

lemma walk_result_Ok_iff:
  assumes "walk_result sha256 bs e rows n rep"
  shows "status rep = Ok \<longleftrightarrow> (\<forall>i<length rows. link_ok bs e rows i \<and> hash_ok sha256 (rows ! i))"
proof (cases "n = length rows")
  case True
  then show ?thesis using assms by (simp add: walk_result_def)
next
  case False
  then have "n < length rows" "\<not> (link_ok bs e rows n \<and> hash_ok sha256 (rows ! n))" "status rep = Mismatch"
    using assms by (simp_all add: walk_result_def)
  then show ?thesis by auto
qed

lemmas verify_Ok_iff = walk_result_Ok_iff [OF verify_result]

section \<open>Tamper evidence\<close>

text \<open>Two rows with the same hashed content, at the resolution of the durable time stamp.\<close>

definition same_row :: "chain_row \<Rightarrow> chain_row \<Rightarrow> bool" where
  "same_row r r' \<longleftrightarrow> (audit_ext5.truncate r)\<lparr>ts := 0\<rparr> = (audit_ext5.truncate r')\<lparr>ts := 0\<rparr> \<and>
     ts_micros (ts r) = ts_micros (ts r') \<and> prev_hash r = prev_hash r' \<and> row_hash r = row_hash r'"

definition hash_input :: "chain_row \<Rightarrow> bytes" where
  "hash_input r = row_hash_input (prev_hash r) (canonical_audit_bytes_with_ext5 r)"

text \<open>A chain from the tenant's genesis as the walk accepts it when no retention marker is involved.\<close>

definition chain_ok :: "(bytes \<Rightarrow> bytes) \<Rightarrow> bytes option \<Rightarrow> chain_row list \<Rightarrow> bool" where
  "chain_ok sha256 e rows \<longleftrightarrow>
     (\<forall>i<length rows. prev_hash (rows ! i) = expected_at e rows i \<and> hash_ok sha256 (rows ! i))"

lemma chain_ok_iff_verify:
  "rows \<noteq> [] \<Longrightarrow>
   status (verify_chain_rows_with_bridges sha256 tid from to e rows []) = Ok \<longleftrightarrow> chain_ok sha256 e rows"
  by (auto simp: verify_Ok_iff chain_ok_def link_ok_def)

lemma chain_ok_snoc:
  "chain_ok sha256 e (rows @ [r]) \<longleftrightarrow> chain_ok sha256 e rows \<and> hash_ok sha256 r \<and>
     prev_hash r = (if rows = [] then e else Some (row_hash (last rows)))"
proof -
  have "expected_at e (rows @ [r]) i = expected_at e rows i" if "i < length rows" for i
    using that by (simp add: expected_at_def nth_append less_imp_diff_less)
  moreover have "expected_at e (rows @ [r]) (length rows) =
      (if rows = [] then e else Some (row_hash (last rows)))"
    by (simp add: expected_at_def nth_append last_conv_nth)
  ultimately show ?thesis
    by (auto simp: chain_ok_def nth_append less_Suc_eq)
qed

lemma truncate_bytes: "canonical_audit_bytes_with_ext5 (audit_ext5.truncate r) = canonical_audit_bytes_with_ext5 r"
  by (simp add: row_shape row_head_def row_tail_def audit_ext5.defs)

lemma truncate_row_ok: "row_ok (audit_ext5.truncate r) = row_ok r"
  by (simp add: row_ok_def audit_ext5.defs)

lemma truncate_ts: "ts (audit_ext5.truncate r) = ts r"
  by (simp add: audit_ext5.defs)

lemma hash_ok_nul_free: "hash_ok sha256 r \<Longrightarrow> nul_free (row_hash r)"
  using nul_free_row_hash unfolding hash_ok_def recompute_row_hash_def by metis

lemma hash_ok_nonempty:
  assumes "hash_ok sha256 r" "\<And>x. sha256 x \<noteq> []"
  shows "row_hash r \<noteq> []"
proof -
  have "concat (map hex_byte xs) \<noteq> []" if "xs \<noteq> []" for xs
    using that by (cases xs) (simp_all add: hex_byte_def)
  then show ?thesis
    using assms by (metis compute_row_hash_def hash_ok_def recompute_row_hash_def)
qed

lemma same_hash_same_row:
  assumes "row_ok r" "row_ok r'" "hash_ok sha256 r" "hash_ok sha256 r'" "row_hash r = row_hash r'"
    "nul_free (prev_text (prev_hash r))" "nul_free (prev_text (prev_hash r'))"
    "\<not> collision sha256 (hash_input r) (hash_input r')"
  shows "prev_text (prev_hash r) = prev_text (prev_hash r') \<and>
    (audit_ext5.truncate r)\<lparr>ts := 0\<rparr> = (audit_ext5.truncate r')\<lparr>ts := 0\<rparr> \<and> ts_micros (ts r) = ts_micros (ts r')"
proof -
  have "compute_row_hash sha256 (prev_hash r) (canonical_audit_bytes_with_ext5 r) =
      compute_row_hash sha256 (prev_hash r') (canonical_audit_bytes_with_ext5 r')"
    using assms(3-5) by (simp add: hash_ok_def recompute_row_hash_def)
  then have "hash_input r = hash_input r'"
    using assms(8) by (simp add: row_hash_eq_iff collision_def hash_input_def)
  then have "prev_text (prev_hash r) = prev_text (prev_hash r') \<and>
      canonical_audit_bytes_with_ext5 r = canonical_audit_bytes_with_ext5 r'"
    using row_hash_input_iff [OF assms(6,7)] by (simp only: hash_input_def)
  then show ?thesis
    using encoding_iff [of "audit_ext5.truncate r" "audit_ext5.truncate r'"] assms(1,2)
    by (simp add: truncate_bytes truncate_row_ok truncate_ts)
qed

lemma chain_tamper_aux:
  assumes "\<And>x. sha256 x \<noteq> []"
    and "chain_ok sha256 None rows" "chain_ok sha256 None rows'"
    and "list_all row_ok rows" "list_all row_ok rows'"
    and "rows \<noteq> []" "rows' \<noteq> []" "row_hash (last rows) = row_hash (last rows')"
    and "\<forall>r\<in>set rows. \<forall>r'\<in>set rows'. \<not> collision sha256 (hash_input r) (hash_input r')"
  shows "list_all2 same_row rows rows'"
  using assms(2-)
proof (induction rows arbitrary: rows' rule: rev_induct)
  case (snoc r rows)
  obtain qs q where rows': "rows' = qs @ [q]" using snoc.prems(6) by (metis rev_exhaust)
  have ok: "chain_ok sha256 None rows" "hash_ok sha256 r"
      "prev_hash r = (if rows = [] then None else Some (row_hash (last rows)))"
      "chain_ok sha256 None qs" "hash_ok sha256 q"
      "prev_hash q = (if qs = [] then None else Some (row_hash (last qs)))"
    using snoc.prems(1,2) by (simp_all add: rows' chain_ok_snoc)
  have last_ok: "hash_ok sha256 (last xs)" if "chain_ok sha256 None xs" "xs \<noteq> []" for xs
    using that by (auto simp: chain_ok_def last_conv_nth)
  have nf: "nul_free (prev_text (prev_hash r))" "nul_free (prev_text (prev_hash q))"
    using ok last_ok hash_ok_nul_free by (auto simp: prev_text_def nul_free_def)
  have ne: "rows \<noteq> [] \<Longrightarrow> row_hash (last rows) \<noteq> []" "qs \<noteq> [] \<Longrightarrow> row_hash (last qs) \<noteq> []"
    using ok last_ok hash_ok_nonempty assms(1) by blast+
  have same: "prev_text (prev_hash r) = prev_text (prev_hash q)"
    "(audit_ext5.truncate r)\<lparr>ts := 0\<rparr> = (audit_ext5.truncate q)\<lparr>ts := 0\<rparr>" "ts_micros (ts r) = ts_micros (ts q)"
    using same_hash_same_row [OF _ _ ok(2,5) _ nf] snoc.prems(3,4,7,8) by (simp_all add: rows')
  have "list_all2 same_row rows qs"
  proof (cases "rows = [] \<or> qs = []")
    case True
    then show ?thesis using same(1) ok(3,6) ne by (auto simp: prev_text_def split: if_splits)
  next
    case False
    then show ?thesis
      using snoc.IH [of qs] ok snoc.prems(3,4,8) same(1) by (simp add: rows' prev_text_def)
  qed
  moreover have "prev_hash r = prev_hash q"
    using same(1) ok(3,6) ne by (auto simp: prev_text_def split: if_splits)
  then have "same_row r q" using same(2,3) snoc.prems(7) by (simp add: rows' same_row_def)
  ultimately show ?case by (simp add: rows' list_all2_appendI)
qed simp

section \<open>Properties\<close>

text \<open>C4: The chain head authenticates the whole history.  Take two non-empty row sequences that the
  verifier accepts from the genesis of a tenant, without retention markers, and that end in the same
  \<open>row_hash\<close>.  Then they have the same length and agree row by row on every hashed column, on
  \<open>prev_hash\<close> and on \<open>row_hash\<close>, or two of the hash inputs are an explicit collision of SHA-256.\<close>

theorem chain_head_authenticates_history:
  assumes "\<And>x. sha256 x \<noteq> []"
    and "list_all row_ok rows" "list_all row_ok rows'"
    and "status (verify_chain_rows_with_bridges sha256 tid f t None rows []) = Ok"
    and "status (verify_chain_rows_with_bridges sha256 tid' f' t' None rows' []) = Ok"
    and "row_hash (last rows) = row_hash (last rows')"
  shows "list_all2 same_row rows rows' \<or>
    (\<exists>r\<in>set rows. \<exists>r'\<in>set rows'. collision sha256 (hash_input r) (hash_input r'))"
proof -
  have "rows \<noteq> []" "rows' \<noteq> []"
    using assms(4,5) by (auto simp: verify_chain_rows_with_bridges_def)
  then show ?thesis
    using chain_tamper_aux [of sha256 rows rows'] assms chain_ok_iff_verify by blast
qed

definition chained_row :: "audit_ext5 \<Rightarrow> int \<Rightarrow> bytes option \<Rightarrow> bytes \<Rightarrow> chain_row" where
  "chained_row a n p h = audit_ext5.extend a (chain_row.fields n p h)"

lemma chained_row_simps [simp]:
  "prev_hash (chained_row a n p h) = p" "row_hash (chained_row a n p h) = h"
  "chain_seq (chained_row a n p h) = n" "audit_ext5.truncate (chained_row a n p h) = a"
  "row_id (chained_row a n p h) = row_id a"
  by (simp_all add: chained_row_def audit_ext5.defs chain_row.defs)

lemma hash_ok_const: "hash_ok (\<lambda>_. ''d'') r \<longleftrightarrow> row_hash r = ''64''"
proof -
  have "hex_byte CHR ''d'' = ''64''" by code_simp
  then show ?thesis by (auto simp: hash_ok_def recompute_row_hash_def compute_row_hash_def)
qed

definition sample_chain :: "audit_ext5 \<Rightarrow> chain_row list" where
  "sample_chain a = [chained_row a 1 None ''64'', chained_row a 2 (Some ''64'') ''64'']"

lemma sample_chain_ok:
  "chain_ok (\<lambda>_. ''d'') None (sample_chain a)"
  "row_ok a \<Longrightarrow> list_all row_ok (sample_chain a)"
  using truncate_row_ok [of "chained_row a 1 None ''64''"]
    truncate_row_ok [of "chained_row a 2 (Some ''64'') ''64''"]
  by (auto simp: chain_ok_def sample_chain_def hash_ok_const expected_at_def less_Suc_eq numeral_2_eq_2)

theorem chain_head_authenticates_history_witness:
  "\<exists>r\<in>set (sample_chain sample_row). \<exists>r'\<in>set (sample_chain (sample_row\<lparr>reason := Some []\<rparr>)).
     collision (\<lambda>_. ''d'') (hash_input r) (hash_input r')"
proof -
  let ?a = "sample_row" and ?b = "sample_row\<lparr>reason := Some []\<rparr>"
  have ne: "sample_chain a \<noteq> []" for a by (simp add: sample_chain_def)
  have ok: "status (verify_chain_rows_with_bridges (\<lambda>_. ''d'') ''t'' None None None (sample_chain a) []) = Ok"
    for a using chain_ok_iff_verify [OF ne] sample_chain_ok(1) by blast
  have "\<not> list_all2 same_row (sample_chain ?a) (sample_chain ?b)"
    by (simp add: sample_chain_def same_row_def sample_row_def)
  moreover have "row_hash (last (sample_chain ?a)) = row_hash (last (sample_chain ?b))"
    by (simp add: sample_chain_def)
  ultimately show ?thesis
    using chain_head_authenticates_history [OF _ sample_chain_ok(2) [OF sample_row_ok(1)]
        sample_chain_ok(2) [OF sample_row_ok(2)] ok ok] by blast
qed



text \<open>C22: The bounded bridge search is complete: limiting the number of hops to the number of bridges
  (plus one for the fallback edge) never rejects a target that some path of bridges reaches, however
  long or cyclic the bridge graph is.\<close>

theorem bridge_search_complete:
  "marker_bridge_reaches a goal idx fallback \<longleftrightarrow> (\<exists>k. path (hop idx fallback) k a = Some goal)"
  by (rule marker_bridge_reaches_iff)

text \<open>C10: The admission queue computes the least fixed point its comment promises: the admitted bridges
  are, in order, those of the candidates that are inductively proven, that is whose start is
  unambiguous and whose predecessor link is bridged by the candidate itself and by candidates proven
  before.\<close>

theorem admission_is_least_fixed_point:
  "admit_retention_bridges cs = map (\<lambda>i. bridge_of (cs ! i)) (filter (proven cs) [0..<length cs])"
  by (rule admit_retention_bridges_proven)

text \<open>C23: The admitted set supports itself: for every admitted candidate the bridge index that the walk
  builds from the admitted bridges reaches the candidate's \<open>prev_hash\<close> from the row before it, without
  any provisional edge.\<close>

theorem admitted_markers_are_linked:
  assumes "i < length cs" "admitted_flags cs ! i"
  shows "marker_bridge_reaches (expected_prev (cs ! i)) (marker_prev (cs ! i))
           (index_bridges (admit_retention_bridges cs)) None"
proof -
  have p: "proven cs i" using assms admitted_flags by blast
  then obtain js where "bridge_chain cs (expected_prev (cs ! i)) js (marker_prev (cs ! i))"
    "\<forall>j\<in>set js. j = i \<or> proven cs j"
    by (cases rule: proven.cases) auto
  then show ?thesis using p bridge_chain_path unfolding marker_bridge_reaches_iff by metis
qed

definition sample_candidates :: "retention_bridge_candidate list" where
  "sample_candidates =
     [\<lparr>bridge_of = \<lparr>start = None, end_hash = ''a''\<rparr>, expected_prev = Some ''c'', marker_prev = Some ''d''\<rparr>,
      \<lparr>bridge_of = \<lparr>start = Some ''c'', end_hash = ''d''\<rparr>, expected_prev = None, marker_prev = Some ''a''\<rparr>,
      \<lparr>bridge_of = \<lparr>start = Some ''d'', end_hash = ''e''\<rparr>, expected_prev = Some ''x'', marker_prev = Some ''x''\<rparr>,
      \<lparr>bridge_of = \<lparr>start = Some ''m'', end_hash = ''n''\<rparr>, expected_prev = Some ''d'', marker_prev = Some ''e''\<rparr>]"

lemma distinct_starts_unambiguous:
  "distinct (map cand_start cs) \<Longrightarrow> i < length cs \<Longrightarrow> unambiguous cs i"
  by (auto simp: unambiguous_def clashing_def distinct_conv_nth)

lemma sample_candidates_proven: "proven sample_candidates 3"
proof -
  have "distinct (map cand_start sample_candidates)" "length sample_candidates = 4"
    by (simp_all add: sample_candidates_def cand_start_def)
  then have un: "unambiguous sample_candidates 2" "unambiguous sample_candidates 3"
    using distinct_starts_unambiguous [of sample_candidates] by simp_all
  have "proven sample_candidates 2"
    by (rule provenI [of _ _ "[]"]) (use un in \<open>simp_all add: sample_candidates_def\<close>)
  then show ?thesis
    by (intro provenI [of _ _ "[2]"])
       (use un in \<open>simp_all, simp_all add: sample_candidates_def cand_start_def\<close>)
qed

theorem admitted_markers_are_linked_witness:
  "marker_bridge_reaches (Some ''d'') (Some ''e'')
     (index_bridges (admit_retention_bridges sample_candidates)) None"
proof -
  have "3 < length sample_candidates" by (simp add: sample_candidates_def)
  then show ?thesis
    using admitted_markers_are_linked [of 3 sample_candidates] sample_candidates_proven admitted_flags
    by (simp add: sample_candidates_def)
qed



end
