(* ===== verification/Audit_Log.thy ===== *)
theory Audit_Log
  imports Chain_Verify
begin

text \<open>
  The write side of the audit log: \<open>PgAuditSink\<close> of \<^verbatim>\<open>crates/waygate-storage/src/audit.rs\<close>, the evidence
  outbox of \<^verbatim>\<open>outbox.rs\<close> and the per-tenant routing of \<^verbatim>\<open>routing.rs\<close>.  The tables are lists in a record.
  A transaction is a function on that record; what the database and the network do to it is the record
  \<open>write_env\<close>: which statements fail or time out, whether the tenant lock is free, and whether a commit
  whose answer was lost took effect.
\<close>

section \<open>Events and tables\<close>

datatype risk_tier = Low | Medium | High

fun risk_str :: "risk_tier \<Rightarrow> bytes" where
  "risk_str Low = ''low''"
| "risk_str Medium = ''medium''"
| "risk_str High = ''high''"

record audit_principal =
  p_sub :: bytes
  p_email :: "bytes option"
  p_groups :: "bytes list"
  p_issuer :: bytes
  p_scim_active :: "bool option"
  p_scim_groups :: "bytes list"

record audit_event =
  ev_id :: uuid
  ev_ts :: int
  ev_category :: bytes
  ev_tenant :: bytes
  ev_principal :: "audit_principal option"
  ev_action :: bytes
  ev_server :: "bytes option"
  ev_tool :: "bytes option"
  ev_operation :: "bytes option"
  ev_outcome :: bytes
  ev_risk_level :: "risk_tier option"
  ev_pii :: "bool option"
  ev_policy_ids :: "bytes list"
  ev_reason :: "bytes option"
  ev_trace_id :: "bytes option"
  ev_latency_ms :: "i64 option"
  ev_target :: "bytes option"
  ev_req_scopes :: "bytes list"
  ev_auth_method :: "bytes option"
  ev_req_roles :: "bytes list"
  ev_side_effects :: "bool option"
  ev_acting_agent :: "bytes option"
  ev_hierarchy :: "invocation_hierarchy option"

record audit_row = audit_ext5 +
  col_chain_seq :: int
  col_prev_hash :: "bytes option"
  col_row_hash :: "bytes option"

datatype outbox_status = Pending | Delivered | Failed | DeadLetter

fun outbox_status_as_str :: "outbox_status \<Rightarrow> bytes" where
  "outbox_status_as_str Pending = ''pending''"
| "outbox_status_as_str Delivered = ''delivered''"
| "outbox_status_as_str Failed = ''failed''"
| "outbox_status_as_str DeadLetter = ''dead_letter''"

definition outbox_status_parse :: "bytes \<Rightarrow> outbox_status option" where
  "outbox_status_parse s =
     (if s = ''pending'' then Some Pending else if s = ''delivered'' then Some Delivered
      else if s = ''failed'' then Some Failed else if s = ''dead_letter'' then Some DeadLetter
      else None)"

record outbox_entry =
  event_id :: uuid
  target_sink :: bytes
  payload :: audit_event
  attempt_count :: int
  last_attempt :: "int option"
  next_attempt :: int
  ob_status :: outbox_status
  created_at :: int

record routing_row =
  rt_tenant_id :: bytes
  exporter_name :: bytes
  enabled :: bool
  rt_config :: bytes
  rt_created_at :: int
  rt_updated_at :: int

record audit_db =
  audit_log :: "audit_row list"
  chain_sequence :: int
  evidence_outbox :: "outbox_entry list"
  tenant_routing :: "routing_row list"

section \<open>Write modes, stages and errors\<close>

datatype chained_write_mode = RequiredExport | BestEffortLocal | BestEffortExport

definition is_best_effort :: "chained_write_mode \<Rightarrow> bool" where
  "is_best_effort mode \<longleftrightarrow> mode = BestEffortLocal \<or> mode = BestEffortExport"

definition enqueues_outbox :: "chained_write_mode \<Rightarrow> bool" where
  "enqueues_outbox mode \<longleftrightarrow> mode = RequiredExport \<or> mode = BestEffortExport"

datatype chained_write_stage =
    TxBegin | ChainLock | ChainLockRollback | ChainLockContended | ChainSelectPrev | AuditInsert
  | RoutingLookup | PayloadSerialize | OutboxEnqueue | TxCommit

datatype failure_outcome = Dropped | Unknown

record chained_write_error =
  err_stage :: chained_write_stage
  terminal_outcome :: failure_outcome

record write_env =
  fails :: "chained_write_stage \<Rightarrow> bool"
  lock_free :: bool
  commit_durable :: bool
  now :: int
  store_ts :: "int \<Rightarrow> int"

section \<open>Routing and outbox\<close>

definition fetch_tenant_routing :: "routing_row list \<Rightarrow> bytes \<Rightarrow> bytes list option" where
  "fetch_tenant_routing table tid =
     (let rows = filter (\<lambda>r. rt_tenant_id r = tid) table in
      if rows = [] then None else Some (map exporter_name (filter enabled rows)))"

fun resolve_outbox_targets :: "bytes list \<Rightarrow> bytes list option \<Rightarrow> bytes list" where
  "resolve_outbox_targets configured None = configured"
| "resolve_outbox_targets configured (Some names) = filter (\<lambda>c. c \<in> set names) configured"

text \<open>The administrative statements; \<open>(tenant_id, exporter_name)\<close> is the primary key.\<close>

definition list_routing_rows :: "bytes option \<Rightarrow> routing_row list \<Rightarrow> routing_row list" where
  "list_routing_rows tid table =
     (case tid of
        Some t \<Rightarrow> sort_key exporter_name (filter (\<lambda>r. rt_tenant_id r = t) table)
      | None \<Rightarrow> sort_key (\<lambda>r. (rt_tenant_id r, exporter_name r)) table)"




text \<open>The primary key of \<open>evidence_outbox\<close> is \<open>(event_id, target_sink)\<close>; a conflict is an error.\<close>

definition enqueue ::
  "int \<Rightarrow> uuid \<Rightarrow> bytes \<Rightarrow> audit_event \<Rightarrow> outbox_entry list \<Rightarrow> outbox_entry list option" where
  "enqueue t eid sink pl ob =
     (if \<exists>e\<in>set ob. event_id e = eid \<and> target_sink e = sink then None
      else Some (ob @
        [\<lparr>event_id = eid, target_sink = sink, payload = pl, attempt_count = 0, last_attempt = None,
          next_attempt = t, ob_status = Pending, created_at = t\<rparr>]))"

definition outbox_active :: "outbox_entry \<Rightarrow> bool" where
  "outbox_active e \<longleftrightarrow> ob_status e = Pending \<or> ob_status e = Failed"

definition dequeue_ready :: "int \<Rightarrow> nat \<Rightarrow> outbox_entry list \<Rightarrow> outbox_entry list" where
  "dequeue_ready t limit ob =
     take limit (sort_key next_attempt (filter (\<lambda>e. outbox_active e \<and> next_attempt e \<le> t) ob))"

definition update_active ::
  "uuid \<Rightarrow> bytes \<Rightarrow> (outbox_entry \<Rightarrow> outbox_entry) \<Rightarrow> outbox_entry list \<Rightarrow> outbox_entry list \<times> nat" where
  "update_active eid sink f ob =
     (let hit = (\<lambda>e. event_id e = eid \<and> target_sink e = sink \<and> outbox_active e) in
      (map (\<lambda>e. if hit e then f e else e) ob, length (filter hit ob)))"

definition mark_delivered ::
  "int \<Rightarrow> uuid \<Rightarrow> bytes \<Rightarrow> outbox_entry list \<Rightarrow> outbox_entry list \<times> nat" where
  "mark_delivered t eid sink =
     update_active eid sink (\<lambda>e. e\<lparr>ob_status := Delivered, last_attempt := Some t\<rparr>)"

definition mark_failed ::
  "int \<Rightarrow> uuid \<Rightarrow> bytes \<Rightarrow> int \<Rightarrow> outbox_status \<Rightarrow> outbox_entry list \<Rightarrow> outbox_entry list \<times> nat" where
  "mark_failed t eid sink next new_status =
     (let st = (if new_status = Failed \<or> new_status = DeadLetter then new_status else Failed) in
      update_active eid sink (\<lambda>e. e\<lparr>ob_status := st, attempt_count := attempt_count e + 1,
                                     last_attempt := Some t, next_attempt := next\<rparr>))"

section \<open>Inserting rows\<close>

text \<open>The column values bound by \<open>insert_event\<close> and hashed by \<open>insert_chained_event\<close>; both destructure
  the principal in the same way.\<close>

definition event_columns :: "audit_event \<Rightarrow> audit_ext5" where
  "event_columns e =
     (let (sub, email, groups, iss, sa, sg) =
        (case ev_principal e of
           Some p \<Rightarrow> (Some (p_sub p), p_email p, p_groups p, Some (p_issuer p), p_scim_active p,
                      p_scim_groups p)
         | None \<Rightarrow> (None, None, [], None, None, [])) in
      \<lparr>row_id = ev_id e, ts = ev_ts e, category = ev_category e, tenant = ev_tenant e,
       action = ev_action e, outcome = ev_outcome e, principal_sub = sub, principal_email = email,
       principal_groups = groups, issuer = iss, server = ev_server e, tool = ev_tool e,
       risk_level = map_option risk_str (ev_risk_level e), pii = ev_pii e,
       policy_ids = ev_policy_ids e, reason = ev_reason e, trace_id = ev_trace_id e,
       latency_ms = ev_latency_ms e, scim_active = sa, scim_groups = sg, target = ev_target e,
       req_scopes = ev_req_scopes e, auth_method = ev_auth_method e, req_roles = ev_req_roles e,
       side_effects = ev_side_effects e, acting_agent = ev_acting_agent e,
       hierarchy = ev_hierarchy e, operation = ev_operation e\<rparr>)"

text \<open>
  The INSERT: the database assigns the next \<open>chain_seq\<close> and stores the time stamp at its own
  resolution (\<open>store_ts\<close>); \<open>id\<close> is the primary key.  An empty list is bound as NULL and read back as
  an empty list.
\<close>

definition insert_event ::
  "(int \<Rightarrow> int) \<Rightarrow> audit_event \<Rightarrow> bytes option \<Rightarrow> bytes option \<Rightarrow> audit_db \<Rightarrow> audit_db option" where
  "insert_event store e prev hash db =
     (if \<exists>r\<in>set (audit_log db). row_id r = ev_id e then None
      else
        let cols = event_columns e;
            row = audit_ext5.extend (cols\<lparr>ts := store (ts cols)\<rparr>)
                    (audit_row.fields (chain_sequence db) prev hash) in
        Some (db\<lparr>audit_log := audit_log db @ [row], chain_sequence := chain_sequence db + 1\<rparr>))"

definition to_chain_row :: "audit_row \<Rightarrow> bytes \<Rightarrow> chain_row" where
  "to_chain_row r h =
     audit_ext5.extend (audit_ext5.truncate r) (chain_row.fields (col_chain_seq r) (col_prev_hash r) h)"

text \<open>\<open>WHERE tenant_id = $1 AND row_hash IS NOT NULL ORDER BY chain_seq\<close>.\<close>

definition chain_select :: "bytes \<Rightarrow> audit_row \<Rightarrow> chain_row option" where
  "chain_select tid r = (if tenant r = tid then map_option (to_chain_row r) (col_row_hash r) else None)"

definition chain_rows :: "audit_db \<Rightarrow> bytes \<Rightarrow> chain_row list" where
  "chain_rows db tid = sort_key chain_seq (List.map_filter (chain_select tid) (audit_log db))"

definition select_prev :: "audit_db \<Rightarrow> bytes \<Rightarrow> bytes option" where
  "select_prev db tid = (case rev (chain_rows db tid) of [] \<Rightarrow> None | r # _ \<Rightarrow> Some (row_hash r))"

definition write_error :: "chained_write_stage \<Rightarrow> failure_outcome \<Rightarrow> chained_write_error" where
  "write_error st out = \<lparr>err_stage = st, terminal_outcome = out\<rparr>"

fun enqueue_all ::
  "write_env \<Rightarrow> audit_event \<Rightarrow> bytes list \<Rightarrow> audit_db \<Rightarrow> chained_write_error + audit_db" where
  "enqueue_all env e [] db = Inr db"
| "enqueue_all env e (sink # sinks) db =
     (if fails env OutboxEnqueue then Inl (write_error OutboxEnqueue Dropped)
      else case enqueue (now env) (ev_id e) sink e (evidence_outbox db) of
        None \<Rightarrow> Inl (write_error OutboxEnqueue Dropped)
      | Some ob \<Rightarrow> enqueue_all env e sinks (db\<lparr>evidence_outbox := ob\<rparr>))"

definition outbox_stage ::
  "write_env \<Rightarrow> bytes list \<Rightarrow> audit_event \<Rightarrow> chained_write_mode \<Rightarrow> audit_db \<Rightarrow>
   chained_write_error + audit_db" where
  "outbox_stage env outbox_targets e mode db =
     (if \<not> enqueues_outbox mode then Inr db
      else if fails env RoutingLookup then Inl (write_error RoutingLookup Dropped)
      else
        let effective = resolve_outbox_targets outbox_targets
              (fetch_tenant_routing (tenant_routing db) (ev_tenant e)) in
        if effective = [] then Inr db
        else if fails env PayloadSerialize then Inl (write_error PayloadSerialize Dropped)
        else enqueue_all env e effective db)"

definition insert_chained_event ::
  "(bytes \<Rightarrow> bytes) \<Rightarrow> write_env \<Rightarrow> bytes list \<Rightarrow> audit_event \<Rightarrow> chained_write_mode \<Rightarrow> audit_db \<Rightarrow>
   audit_db \<times> (chained_write_error + unit)" where
  "insert_chained_event sha256 env outbox_targets e mode db =
     (let canonical = canonical_audit_bytes_with_ext5 (event_columns e) in
      if fails env TxBegin then (db, Inl (write_error TxBegin Dropped))
      else if fails env ChainLock then (db, Inl (write_error ChainLock Dropped))
      else if is_best_effort mode \<and> \<not> lock_free env then
        (if fails env ChainLockRollback then (db, Inl (write_error ChainLockRollback Dropped))
         else (db, Inl (write_error ChainLockContended Dropped)))
      else if fails env ChainSelectPrev then (db, Inl (write_error ChainSelectPrev Dropped))
      else
        let prev = select_prev db (ev_tenant e);
            hash = compute_row_hash sha256 prev canonical in
        if fails env AuditInsert then (db, Inl (write_error AuditInsert Dropped))
        else case insert_event (store_ts env) e prev (Some hash) db of
          None \<Rightarrow> (db, Inl (write_error AuditInsert Dropped))
        | Some db1 \<Rightarrow>
            (case outbox_stage env outbox_targets e mode db1 of
               Inl err \<Rightarrow> (db, Inl err)
             | Inr db2 \<Rightarrow>
                 if fails env TxCommit
                 then (if commit_durable env then db2 else db, Inl (write_error TxCommit Unknown))
                 else (db2, Inr ())))"

definition record_required ::
  "(bytes \<Rightarrow> bytes) \<Rightarrow> write_env \<Rightarrow> bytes list \<Rightarrow> audit_event \<Rightarrow> audit_db \<Rightarrow>
   audit_db \<times> (chained_write_error + uuid)" where
  "record_required sha256 env outbox_targets e db =
     (case insert_chained_event sha256 env outbox_targets e RequiredExport db of
        (db', Inl err) \<Rightarrow> (db', Inl err)
      | (db', Inr _) \<Rightarrow> (db', Inr (ev_id e)))"

definition record_chained_best_effort ::
  "(bytes \<Rightarrow> bytes) \<Rightarrow> write_env \<Rightarrow> bytes list \<Rightarrow> audit_event \<Rightarrow> audit_db \<Rightarrow> audit_db" where
  "record_chained_best_effort sha256 env outbox_targets e db =
     fst (insert_chained_event sha256 env outbox_targets e
            (if ev_hierarchy e \<noteq> None then BestEffortExport else BestEffortLocal) db)"

definition record_best_effort :: "write_env \<Rightarrow> audit_event \<Rightarrow> audit_db \<Rightarrow> audit_db" where
  "record_best_effort env e db =
     (if fails env AuditInsert then db
      else case insert_event (store_ts env) e None None db of None \<Rightarrow> db | Some db' \<Rightarrow> db')"

section \<open>Histories\<close>

datatype log_action =
    Required write_env "bytes list" audit_event
  | ChainedBestEffort write_env "bytes list" audit_event
  | BestEffort write_env audit_event
  | MarkDelivered int uuid bytes
  | MarkFailed int uuid bytes int outbox_status

text \<open>The database keeps time stamps at microsecond resolution.\<close>

definition env_ok :: "write_env \<Rightarrow> bool" where
  "env_ok env \<longleftrightarrow> (\<forall>t. ts_micros (store_ts env t) = ts_micros t)"

fun log_step :: "(bytes \<Rightarrow> bytes) \<Rightarrow> log_action \<Rightarrow> audit_db \<Rightarrow> audit_db option" where
  "log_step sha256 (Required env targets e) db =
     (if env_ok env then Some (fst (record_required sha256 env targets e db)) else None)"
| "log_step sha256 (ChainedBestEffort env targets e) db =
     (if env_ok env then Some (record_chained_best_effort sha256 env targets e db) else None)"
| "log_step sha256 (BestEffort env e) db =
     (if env_ok env then Some (record_best_effort env e db) else None)"
| "log_step sha256 (MarkDelivered t eid sink) db =
     Some (db\<lparr>evidence_outbox := fst (mark_delivered t eid sink (evidence_outbox db))\<rparr>)"
| "log_step sha256 (MarkFailed t eid sink next st) db =
     Some (db\<lparr>evidence_outbox := fst (mark_failed t eid sink next st (evidence_outbox db))\<rparr>)"

definition log_init :: "audit_db \<Rightarrow> bool" where
  "log_init db \<longleftrightarrow> audit_log db = [] \<and> evidence_outbox db = []"

definition outbox_key :: "outbox_entry \<Rightarrow> uuid \<times> bytes" where
  "outbox_key e = (event_id e, target_sink e)"

definition log_inv :: "(bytes \<Rightarrow> bytes) \<Rightarrow> audit_db \<Rightarrow> bool" where
  "log_inv sha256 db \<longleftrightarrow>
     sorted_wrt (<) (map col_chain_seq (audit_log db)) \<and>
     (\<forall>r\<in>set (audit_log db). col_chain_seq r < chain_sequence db) \<and>
     distinct (map row_id (audit_log db)) \<and>
     (\<forall>tid. chain_ok sha256 None (chain_rows db tid)) \<and>
     (\<forall>e\<in>set (evidence_outbox db). \<exists>r\<in>set (audit_log db). row_id r = event_id e) \<and>
     distinct (map outbox_key (evidence_outbox db))"

section \<open>The chain of a tenant\<close>

lemma to_chain_row_simps [simp]:
  "chain_seq (to_chain_row r h) = col_chain_seq r" "prev_hash (to_chain_row r h) = col_prev_hash r"
  "row_hash (to_chain_row r h) = h" "audit_ext5.truncate (to_chain_row r h) = audit_ext5.truncate r"
  by (simp_all add: to_chain_row_def audit_ext5.defs chain_row.defs)

lemma sorted_chain_select:
  assumes "sorted_wrt (<) (map col_chain_seq rows)"
  shows "sorted (map chain_seq (List.map_filter (chain_select tid) rows))"
proof -
  have seq: "chain_seq (the (chain_select tid r)) = col_chain_seq r" if "chain_select tid r \<noteq> None" for r
    using that by (auto simp: chain_select_def split: if_splits)
  have "map chain_seq (List.map_filter (chain_select tid) rows) =
      map col_chain_seq (filter (\<lambda>r. chain_select tid r \<noteq> None) rows)"
    using seq by (auto simp: List.map_filter_def)
  moreover have "sorted_wrt (<) (map col_chain_seq (filter (\<lambda>r. chain_select tid r \<noteq> None) rows))"
    using assms by (simp add: sorted_wrt_map sorted_wrt_filter)
  ultimately show ?thesis by (simp add: strict_sorted_imp_sorted)
qed

lemma chain_rows_unsorted:
  assumes "sorted_wrt (<) (map col_chain_seq (audit_log db))"
  shows "chain_rows db tid = List.map_filter (chain_select tid) (audit_log db)"
  using sorted_chain_select [OF assms] by (simp add: chain_rows_def sort_key_id_if_sorted)

lemma chain_rows_append:
  assumes "sorted_wrt (<) (map col_chain_seq (audit_log db @ [r]))"
  shows "chain_rows (db\<lparr>audit_log := audit_log db @ [r], chain_sequence := n\<rparr>) tid =
    chain_rows db tid @ (case chain_select tid r of None \<Rightarrow> [] | Some c \<Rightarrow> [c])"
proof -
  have "sorted_wrt (<) (map col_chain_seq (audit_log db))"
    using assms by (simp add: sorted_wrt_append)
  then show ?thesis
    using chain_rows_unsorted [of db tid]
      chain_rows_unsorted [of "db\<lparr>audit_log := audit_log db @ [r], chain_sequence := n\<rparr>" tid] assms
    by (simp add: List.map_filter_def split: option.splits)
qed

lemma select_prev_last:
  "select_prev db tid = (if chain_rows db tid = [] then None else Some (row_hash (last (chain_rows db tid))))"
  by (cases "chain_rows db tid" rule: rev_cases) (simp_all add: select_prev_def)

text \<open>Reading a row back at the resolution of the database does not change its bytes.\<close>

lemma bytes_store_ts:
  assumes "ts_micros t = ts_micros (ts r)"
  shows "canonical_audit_bytes_with_ext5 (r\<lparr>ts := t\<rparr>) = canonical_audit_bytes_with_ext5 r"
  using assms by (simp add: row_shape row_head_def row_tail_def)

definition new_row :: "(int \<Rightarrow> int) \<Rightarrow> audit_event \<Rightarrow> bytes option \<Rightarrow> bytes option \<Rightarrow> int \<Rightarrow> audit_row" where
  "new_row store e prev hash n =
     audit_ext5.extend ((event_columns e)\<lparr>ts := store (ts (event_columns e))\<rparr>) (audit_row.fields n prev hash)"

lemma new_row_simps [simp]:
  "row_id (new_row store e p h n) = ev_id e" "tenant (new_row store e p h n) = ev_tenant e"
  "col_chain_seq (new_row store e p h n) = n" "col_prev_hash (new_row store e p h n) = p"
  "col_row_hash (new_row store e p h n) = h"
  "audit_ext5.truncate (new_row store e p h n) = (event_columns e)\<lparr>ts := store (ts (event_columns e))\<rparr>"
  by (simp_all add: new_row_def audit_ext5.defs audit_row.defs event_columns_def split: option.splits)

lemma insert_event_alt:
  "insert_event store e prev hash db =
     (if ev_id e \<in> row_id ` set (audit_log db) then None
      else Some (db\<lparr>audit_log := audit_log db @ [new_row store e prev hash (chain_sequence db)],
                   chain_sequence := chain_sequence db + 1\<rparr>))"
  by (auto simp: insert_event_def new_row_def Let_def intro: rev_image_eqI)

lemma new_row_hash_ok:
  assumes "\<And>t. ts_micros (store t) = ts_micros t"
    "h = compute_row_hash sha256 p (canonical_audit_bytes_with_ext5 (event_columns e))"
  shows "hash_ok sha256 (to_chain_row (new_row store e p (Some h) n) h)"
proof -
  let ?c = "to_chain_row (new_row store e p (Some h) n) h"
  have "canonical_audit_bytes_with_ext5 ?c =
      canonical_audit_bytes_with_ext5 ((event_columns e)\<lparr>ts := store (ts (event_columns e))\<rparr>)"
    using truncate_bytes [of ?c] by simp
  also have "\<dots> = canonical_audit_bytes_with_ext5 (event_columns e)"
    using assms(1) by (intro bytes_store_ts) simp
  finally show ?thesis using assms(2) by (simp add: hash_ok_def recompute_row_hash_def)
qed

section \<open>Invariant\<close>

text \<open>A row that is unchained, or chained to the current head, keeps the log invariant.\<close>

lemma log_inv_insert:
  assumes inv: "log_inv sha256 db" and store: "\<And>t. ts_micros (store t) = ts_micros t"
    and ins: "insert_event store e p h db = Some db'"
    and h: "h = None \<or> p = select_prev db (ev_tenant e) \<and>
       h = Some (compute_row_hash sha256 p (canonical_audit_bytes_with_ext5 (event_columns e)))"
  shows "log_inv sha256 db' \<and> ev_id e \<in> row_id ` set (audit_log db') \<and>
    evidence_outbox db' = evidence_outbox db \<and> tenant_routing db' = tenant_routing db"
proof -
  let ?r = "new_row store e p h (chain_sequence db)"
  have db': "db' = db\<lparr>audit_log := audit_log db @ [?r], chain_sequence := chain_sequence db + 1\<rparr>"
    and fresh: "ev_id e \<notin> row_id ` set (audit_log db)"
    using ins by (auto simp: insert_event_alt split: if_splits)
  have sorted: "sorted_wrt (<) (map col_chain_seq (audit_log db @ [?r]))"
    using inv by (auto simp: log_inv_def sorted_wrt_append)
  have "chain_ok sha256 None (chain_rows db' tid)" for tid
  proof (cases "chain_select tid ?r")
    case None
    then show ?thesis
      using inv chain_rows_append [OF sorted, of "chain_sequence db + 1" tid] by (simp add: db' log_inv_def)
  next
    case (Some c)
    then obtain hv where hv: "h = Some hv" "tid = ev_tenant e" "c = to_chain_row ?r hv"
      by (auto simp: chain_select_def split: if_splits)
    then have "hash_ok sha256 c" using h new_row_hash_ok [OF store] by auto
    moreover have "prev_hash c = select_prev db tid" using hv h by auto
    ultimately show ?thesis
      using inv chain_rows_append [OF sorted, of "chain_sequence db + 1" tid] Some
      by (simp add: db' log_inv_def chain_ok_snoc select_prev_last)
  qed
  then show ?thesis using inv sorted fresh by (auto simp: log_inv_def db' less_Suc_eq)
qed

definition same_log :: "audit_db \<Rightarrow> audit_db \<Rightarrow> bool" where
  "same_log db db' \<longleftrightarrow> audit_log db' = audit_log db \<and> chain_sequence db' = chain_sequence db \<and>
     tenant_routing db' = tenant_routing db"

lemma same_log_inv:
  assumes "same_log db db'" "log_inv sha256 db"
    "\<forall>e\<in>set (evidence_outbox db'). \<exists>r\<in>set (audit_log db). row_id r = event_id e"
    "distinct (map outbox_key (evidence_outbox db'))"
  shows "log_inv sha256 db'"
  using assms by (auto simp: log_inv_def same_log_def chain_rows_def)

lemma enqueue_all_ok:
  assumes "enqueue_all env e sinks db = Inr db'"
  shows "same_log db db' \<and>
    (\<exists>new. evidence_outbox db' = evidence_outbox db @ new \<and> map target_sink new = sinks \<and>
       (\<forall>x\<in>set new. event_id x = ev_id e \<and> payload x = e \<and> ob_status x = Pending)) \<and>
    (distinct (map outbox_key (evidence_outbox db)) \<longrightarrow> distinct (map outbox_key (evidence_outbox db')))"
  using assms
proof (induction sinks arbitrary: db)
  case (Cons sink sinks)
  obtain ob where ob: "enqueue (now env) (ev_id e) sink e (evidence_outbox db) = Some ob"
    and rest: "enqueue_all env e sinks (db\<lparr>evidence_outbox := ob\<rparr>) = Inr db'"
    using Cons.prems by (auto split: if_splits option.splits)
  have dist: "distinct (map outbox_key (evidence_outbox db)) \<Longrightarrow> distinct (map outbox_key ob)"
    using ob by (fastforce simp: enqueue_def outbox_key_def split: if_splits)
  obtain n where n: "ob = evidence_outbox db @ [n]" "target_sink n = sink" "event_id n = ev_id e"
    "payload n = e" "ob_status n = Pending"
    using ob by (auto simp: enqueue_def split: if_splits)
  obtain new where new: "evidence_outbox db' = ob @ new" "map target_sink new = sinks"
    "\<forall>x\<in>set new. event_id x = ev_id e \<and> payload x = e \<and> ob_status x = Pending" "same_log db db'"
    using Cons.IH [OF rest] by (auto simp: same_log_def)
  show ?case
    using Cons.IH [OF rest] dist n new by (auto intro!: exI [of _ "n # new"])
qed (simp add: same_log_def)

lemma outbox_stage_ok:
  assumes "outbox_stage env targets e mode db = Inr db'"
  shows "same_log db db' \<and>
    (\<exists>new. evidence_outbox db' = evidence_outbox db @ new \<and>
       map target_sink new =
         (if enqueues_outbox mode then resolve_outbox_targets targets
            (fetch_tenant_routing (tenant_routing db) (ev_tenant e)) else []) \<and>
       (\<forall>x\<in>set new. event_id x = ev_id e \<and> payload x = e \<and> ob_status x = Pending)) \<and>
    (distinct (map outbox_key (evidence_outbox db)) \<longrightarrow> distinct (map outbox_key (evidence_outbox db')))"
  using assms enqueue_all_ok
  by (fastforce simp: outbox_stage_def Let_def same_log_def split: if_splits)

text \<open>The state a chained write commits.\<close>

definition committed ::
  "(bytes \<Rightarrow> bytes) \<Rightarrow> write_env \<Rightarrow> bytes list \<Rightarrow> audit_event \<Rightarrow> chained_write_mode \<Rightarrow> audit_db \<Rightarrow>
   audit_db \<Rightarrow> bool" where
  "committed sha256 env targets e mode db db2 \<longleftrightarrow>
     (\<exists>db1. insert_event (store_ts env) e (select_prev db (ev_tenant e))
        (Some (compute_row_hash sha256 (select_prev db (ev_tenant e))
                 (canonical_audit_bytes_with_ext5 (event_columns e)))) db = Some db1 \<and>
      outbox_stage env targets e mode db1 = Inr db2)"

lemma outbox_stage_dropped:
  assumes "outbox_stage env targets e mode db = Inl err"
  shows "terminal_outcome err = Dropped"
proof -
  have "terminal_outcome err = Dropped" if "enqueue_all env e sinks db = Inl err" for sinks db
    using that by (induction sinks arbitrary: db) (auto simp: write_error_def split: if_splits option.splits)
  then show ?thesis using assms by (auto simp: outbox_stage_def write_error_def Let_def split: if_splits)
qed

lemma insert_chained_event_cases:
  assumes "insert_chained_event sha256 env targets e mode db = (db', res)"
  shows "res = Inr () \<and> committed sha256 env targets e mode db db' \<or>
    (\<exists>err. res = Inl err \<and> terminal_outcome err = Dropped \<and> db' = db) \<or>
    (\<exists>err. res = Inl err \<and> terminal_outcome err = Unknown \<and> err_stage err = TxCommit \<and>
       (db' = db \<or> committed sha256 env targets e mode db db'))"
  using assms
  by (auto simp: insert_chained_event_def committed_def write_error_def Let_def outbox_stage_dropped
      split: if_splits option.splits sum.splits)

lemma log_inv_committed:
  assumes "log_inv sha256 db" "env_ok env" "committed sha256 env targets e mode db db'"
  shows "log_inv sha256 db'"
proof -
  obtain db1 where db1: "insert_event (store_ts env) e (select_prev db (ev_tenant e))
        (Some (compute_row_hash sha256 (select_prev db (ev_tenant e))
                 (canonical_audit_bytes_with_ext5 (event_columns e)))) db = Some db1"
    and ob: "outbox_stage env targets e mode db1 = Inr db'"
    using assms(3) by (auto simp: committed_def)
  have inv1: "log_inv sha256 db1" and mem: "ev_id e \<in> row_id ` set (audit_log db1)"
    using log_inv_insert [OF assms(1) _ db1] assms(2) by (auto simp: env_ok_def)
  show ?thesis
  proof (rule same_log_inv [OF _ inv1])
    show "same_log db1 db'" using outbox_stage_ok [OF ob] by blast
    show "distinct (map outbox_key (evidence_outbox db'))"
      using outbox_stage_ok [OF ob] inv1 by (auto simp: log_inv_def)
    show "\<forall>x\<in>set (evidence_outbox db'). \<exists>r\<in>set (audit_log db1). row_id r = event_id x"
      using outbox_stage_ok [OF ob] inv1 mem by (fastforce simp: log_inv_def)
  qed
qed

lemma log_inv_chained:
  assumes "log_inv sha256 db" "env_ok env"
  shows "log_inv sha256 (fst (insert_chained_event sha256 env targets e mode db))"
proof -
  obtain db' res where r: "insert_chained_event sha256 env targets e mode db = (db', res)" by fastforce
  then show ?thesis using insert_chained_event_cases [OF r] assms log_inv_committed by fastforce
qed

lemma log_inv_best_effort: "log_inv sha256 db \<Longrightarrow> env_ok env \<Longrightarrow> log_inv sha256 (record_best_effort env e db)"
  using log_inv_insert [of sha256 db "store_ts env" e None None]
  by (auto simp: record_best_effort_def env_ok_def split: option.splits)

lemma log_inv_update_active:
  assumes "log_inv sha256 db" "\<And>x. outbox_key (f x) = outbox_key x"
  shows "log_inv sha256 (db\<lparr>evidence_outbox := fst (update_active eid sink f (evidence_outbox db))\<rparr>)"
proof (rule same_log_inv [OF _ assms(1)])
  let ?ob = "fst (update_active eid sink f (evidence_outbox db))"
  have keys: "map outbox_key ?ob = map outbox_key (evidence_outbox db)"
    using assms(2) by (auto simp: update_active_def Let_def)
  then show "distinct (map outbox_key (evidence_outbox (db\<lparr>evidence_outbox := ?ob\<rparr>)))"
    using assms(1) by (simp add: log_inv_def)
  have "event_id (f x) = event_id x" for x using assms(2) [of x] by (simp add: outbox_key_def)
  then show "\<forall>x\<in>set (evidence_outbox (db\<lparr>evidence_outbox := ?ob\<rparr>)). \<exists>r\<in>set (audit_log db). row_id r = event_id x"
    using assms(1) by (auto simp: log_inv_def update_active_def Let_def)
qed (simp add: same_log_def)

interpretation log_sys: guarded_system "log_step sha256" log_init "log_inv sha256" for sha256
proof
  fix db assume "log_init db"
  then show "log_inv sha256 db"
    by (simp add: log_init_def log_inv_def chain_rows_def chain_ok_def List.map_filter_def)
next
  fix db a db' assume "log_inv sha256 db" "log_step sha256 a db = Some db'"
  then show "log_inv sha256 db'"
    using log_inv_chained log_inv_best_effort
    by (cases a)
       (auto simp: record_required_def record_chained_best_effort_def mark_delivered_def mark_failed_def
          Let_def split: if_splits prod.splits sum.splits
          intro!: log_inv_update_active simp: outbox_key_def, (metis fst_conv)+)
qed

section \<open>Outbox rows\<close>

lemma update_active_keeps_terminal:
  "x \<in> set ob \<Longrightarrow> \<not> outbox_active x \<Longrightarrow> x \<in> set (fst (update_active eid sink f ob))"
  by (auto simp: update_active_def Let_def intro!: rev_image_eqI)

lemma committed_outbox:
  assumes "committed sha256 env targets e mode db db'"
  shows "set (evidence_outbox db) \<subseteq> set (evidence_outbox db')"
proof -
  obtain p h db1 where i: "insert_event (store_ts env) e p h db = Some db1"
    and ob: "outbox_stage env targets e mode db1 = Inr db'"
    using assms by (auto simp: committed_def)
  have "evidence_outbox db1 = evidence_outbox db"
    using i by (auto simp: insert_event_alt split: if_splits)
  then show ?thesis using outbox_stage_ok [OF ob] by auto
qed

lemma chained_outbox:
  "set (evidence_outbox db) \<subseteq> set (evidence_outbox (fst (insert_chained_event sha256 env targets e mode db)))"
proof -
  obtain db' res where r: "insert_chained_event sha256 env targets e mode db = (db', res)" by fastforce
  then show ?thesis using insert_chained_event_cases [OF r] committed_outbox by fastforce
qed

lemma log_step_keeps_terminal:
  assumes "log_step sha256 a db = Some db'" "x \<in> set (evidence_outbox db)" "\<not> outbox_active x"
  shows "x \<in> set (evidence_outbox db')"
proof (cases a)
  case (Required env targets e)
  then have "db' = fst (insert_chained_event sha256 env targets e RequiredExport db)"
    using assms(1) by (auto simp: record_required_def split: if_splits prod.splits sum.splits)
  then show ?thesis using chained_outbox assms(2) by blast
next
  case (ChainedBestEffort env targets e)
  then show ?thesis
    using assms chained_outbox by (fastforce simp: record_chained_best_effort_def split: if_splits)
next
  case (BestEffort env e)
  then show ?thesis
    using assms by (auto simp: record_best_effort_def insert_event_alt split: if_splits)
qed (use assms update_active_keeps_terminal in \<open>auto simp: mark_delivered_def mark_failed_def Let_def\<close>)

section \<open>Properties\<close>

text \<open>C3: Whatever sequence of required, chained best-effort and unchained writes and outbox updates is
  run from an empty log, and whatever statements fail, time out, lose their commit answer or find the
  tenant lock taken, the verifier accepts the chain of every tenant: \<open>Ok\<close> over all its chained rows.\<close>

theorem audit_chain_always_verifies:
  assumes "log_init db0" "runs (log_step sha256) as db0 = Some db" "chain_rows db tid \<noteq> []"
  shows "let rep = verify_chain_rows_with_bridges sha256 tid None None None (chain_rows db tid) [] in
    status rep = Ok \<and> rows_walked rep = length (chain_rows db tid)"
proof -
  let ?rep = "verify_chain_rows_with_bridges sha256 tid None None None (chain_rows db tid) []"
  have "chain_ok sha256 None (chain_rows db tid)"
    using log_sys.reachable_inv [OF assms(1,2)] by (simp add: log_inv_def)
  then have "status ?rep = Ok" using chain_ok_iff_verify [OF assms(3)] by blast
  then show ?thesis
    using verify_result [OF assms(3), of sha256 "[]" None tid None None]
    by (auto simp: walk_result_def Let_def split: if_splits)
qed

definition sample_event :: "uuid \<Rightarrow> audit_event" where
  "sample_event i =
     \<lparr>ev_id = i, ev_ts = 1700000000000001999, ev_category = ''invocation'', ev_tenant = ''default'',
      ev_principal = None, ev_action = ''CallTool'', ev_server = Some ''mail'', ev_tool = Some ''send'',
      ev_operation = None, ev_outcome = ''ok'', ev_risk_level = Some High, ev_pii = None,
      ev_policy_ids = [], ev_reason = None, ev_trace_id = None, ev_latency_ms = None,
      ev_target = None, ev_req_scopes = [], ev_auth_method = None, ev_req_roles = [],
      ev_side_effects = None, ev_acting_agent = None, ev_hierarchy = None\<rparr>"

definition sample_env :: write_env where
  "sample_env = \<lparr>fails = (\<lambda>_. False), lock_free = True, commit_durable = False, now = 5,
                 store_ts = (\<lambda>t. t)\<rparr>"

definition empty_db :: audit_db where
  "empty_db = \<lparr>audit_log = [], chain_sequence = 1, evidence_outbox = [], tenant_routing = []\<rparr>"

lemma sample_env_ok: "env_ok sample_env"
  by (simp add: env_ok_def sample_env_def)

lemma sample_required:
  "record_required sha256 sample_env [''ocsf''] (sample_event 7) empty_db =
   (empty_db\<lparr>audit_log := [new_row (\<lambda>t. t) (sample_event 7) None
        (Some (compute_row_hash sha256 None (canonical_audit_bytes_with_ext5 (event_columns (sample_event 7))))) 1],
      chain_sequence := 2,
      evidence_outbox := [\<lparr>event_id = 7, target_sink = ''ocsf'', payload = sample_event 7,
        attempt_count = 0, last_attempt = None, next_attempt = 5, ob_status = Pending, created_at = 5\<rparr>]\<rparr>,
    Inr 7)"
  by (simp add: record_required_def insert_chained_event_def sample_env_def empty_db_def insert_event_alt
      outbox_stage_def enqueues_outbox_def is_best_effort_def fetch_tenant_routing_def select_prev_def
      chain_rows_def List.map_filter_def enqueue_def Let_def sample_event_def)

theorem audit_chain_always_verifies_witness:
  "\<exists>db. runs (log_step (\<lambda>_. ''d'')) [Required sample_env [''ocsf''] (sample_event 7)] empty_db = Some db \<and>
     status (verify_chain_rows_with_bridges (\<lambda>_. ''d'') ''default'' None None None
       (chain_rows db ''default'') []) = Ok"
proof -
  obtain db where db: "runs (log_step (\<lambda>_. ''d'')) [Required sample_env [''ocsf''] (sample_event 7)] empty_db
      = Some db"
    by (simp add: sample_env_ok)
  have "db = fst (record_required (\<lambda>_. ''d'') sample_env [''ocsf''] (sample_event 7) empty_db)"
    using db by (simp add: sample_env_ok)
  then have "chain_rows db ''default'' \<noteq> []"
    by (simp add: sample_required chain_rows_def List.map_filter_def chain_select_def,
        simp add: sample_event_def)
  moreover have "log_init empty_db" by (simp add: log_init_def empty_db_def)
  ultimately show ?thesis using audit_chain_always_verifies [OF _ db] db by (auto simp: Let_def)
qed

text \<open>C20: A required write is atomic.  If it succeeds, exactly one row, the event's, is appended to the
  log, and exactly one pending outbox row per effective target, in the configured order and carrying the
  event, is appended to the outbox.  If it fails with outcome \<open>Dropped\<close> nothing changed.  Only a failed
  commit has outcome \<open>Unknown\<close>; then the state is the old one or the complete new one.\<close>

theorem required_write_atomic:
  assumes "record_required sha256 env targets e db = (db', res)"
  defines "success \<equiv>
    (\<exists>r. audit_log db' = audit_log db @ [r] \<and> row_id r = ev_id e \<and> tenant r = ev_tenant e \<and>
       col_prev_hash r = select_prev db (ev_tenant e)) \<and>
    (\<exists>new. evidence_outbox db' = evidence_outbox db @ new \<and>
       map target_sink new =
         resolve_outbox_targets targets (fetch_tenant_routing (tenant_routing db) (ev_tenant e)) \<and>
       (\<forall>x\<in>set new. event_id x = ev_id e \<and> payload x = e \<and> ob_status x = Pending))"
  shows "case res of
      Inr i \<Rightarrow> i = ev_id e \<and> success
    | Inl err \<Rightarrow> (terminal_outcome err = Dropped \<and> db' = db) \<or>
        (terminal_outcome err = Unknown \<and> err_stage err = TxCommit \<and> (db' = db \<or> success))"
proof -
  have commit: success if c: "committed sha256 env targets e RequiredExport db db'"
  proof -
    obtain h db1 where i: "insert_event (store_ts env) e (select_prev db (ev_tenant e)) h db = Some db1"
      and ob: "outbox_stage env targets e RequiredExport db1 = Inr db'"
      using c by (auto simp: committed_def)
    have "audit_log db1 = audit_log db @
        [new_row (store_ts env) e (select_prev db (ev_tenant e)) h (chain_sequence db)]"
      "evidence_outbox db1 = evidence_outbox db" "tenant_routing db1 = tenant_routing db"
      using i by (auto simp: insert_event_alt split: if_splits)
    then show ?thesis
      using outbox_stage_ok [OF ob] by (auto simp: success_def same_log_def enqueues_outbox_def)
  qed
  obtain d r where ins: "insert_chained_event sha256 env targets e RequiredExport db = (d, r)" by fastforce
  show ?thesis
    using insert_chained_event_cases [OF ins] assms(1) commit
    by (auto simp: record_required_def ins)
qed

theorem required_write_atomic_witness:
  "\<exists>db'. record_required (\<lambda>_. ''d'') sample_env [''ocsf''] (sample_event 7) empty_db = (db', Inr 7) \<and>
     map target_sink (evidence_outbox db') = [''ocsf'']"
  using required_write_atomic [OF sample_required [of "\<lambda>_. ''d''"]] sample_required [of "\<lambda>_. ''d''"]
  by (auto simp: empty_db_def fetch_tenant_routing_def)

text \<open>C25: In every history each outbox row belongs to a row of the audit log, no event is queued twice for
  the same sink, and a row that has reached \<open>delivered\<close> or \<open>dead_letter\<close> is never changed again, whatever
  late \<open>mark_delivered\<close> and \<open>mark_failed\<close> calls of concurrent drain workers arrive.\<close>

theorem outbox_rows_are_safe:
  assumes "log_init db0" "runs (log_step sha256) as db0 = Some db"
    and "runs (log_step sha256) bs db = Some db'"
  shows "list_all (\<lambda>x. list_ex (\<lambda>r. row_id r = event_id x) (audit_log db)) (evidence_outbox db) \<and>
    distinct (map (\<lambda>x. (event_id x, target_sink x)) (evidence_outbox db)) \<and>
    set (filter (\<lambda>x. ob_status x = Delivered \<or> ob_status x = DeadLetter) (evidence_outbox db))
      \<subseteq> set (evidence_outbox db')"
proof -
  have inv: "log_inv sha256 db" by (rule log_sys.reachable_inv [OF assms(1,2)])
  have "x \<in> set (evidence_outbox db')" if "x \<in> set (evidence_outbox db)" "\<not> outbox_active x" for x
    using assms(3) that
  proof (induction bs arbitrary: db)
    case (Cons b bs)
    then show ?case by (auto split: option.splits dest: log_step_keeps_terminal)
  qed simp
  then have "set (filter (\<lambda>x. ob_status x = Delivered \<or> ob_status x = DeadLetter) (evidence_outbox db))
      \<subseteq> set (evidence_outbox db')"
    by (auto simp: outbox_active_def)
  moreover have "distinct (map (\<lambda>x. (event_id x, target_sink x)) (evidence_outbox db))"
    using inv by (simp add: log_inv_def outbox_key_def [abs_def])
  ultimately show ?thesis using inv by (auto simp: log_inv_def list_all_iff list_ex_iff)
qed

theorem outbox_rows_are_safe_witness:
  "\<exists>db db'. runs (log_step (\<lambda>_. ''d''))
       [Required sample_env [''ocsf''] (sample_event 7), MarkDelivered 6 7 ''ocsf''] empty_db = Some db \<and>
     runs (log_step (\<lambda>_. ''d'')) [MarkFailed 9 7 ''ocsf'' 20 Failed] db = Some db' \<and>
     map ob_status (evidence_outbox db) = [Delivered] \<and>
     set (evidence_outbox db) \<subseteq> set (evidence_outbox db')"
proof -
  let ?as = "[Required sample_env [''ocsf''] (sample_event 7), MarkDelivered 6 7 ''ocsf'']"
  let ?bs = "[MarkFailed 9 7 ''ocsf'' 20 Failed]"
  obtain db db' where r: "runs (log_step (\<lambda>_. ''d'')) ?as empty_db = Some db"
    "runs (log_step (\<lambda>_. ''d'')) ?bs db = Some db'"
    by (simp add: sample_env_ok)
  have st: "map ob_status (evidence_outbox db) = [Delivered]"
    using r(1) by (auto simp: sample_env_ok sample_required mark_delivered_def update_active_def
        outbox_active_def)
  then have eq: "filter (\<lambda>x. ob_status x = Delivered \<or> ob_status x = DeadLetter) (evidence_outbox db) =
      evidence_outbox db"
    by (cases "evidence_outbox db") auto
  have init: "log_init empty_db" by (simp add: log_init_def empty_db_def)
  have "set (evidence_outbox db) \<subseteq> set (evidence_outbox db')"
    using outbox_rows_are_safe [OF init r] unfolding eq by blast
  then show ?thesis using r st by (intro exI [of _ db] exI [of _ db'] conjI)
qed









end
