(* ===== verification/Change_Requests.thy ===== *)
theory Change_Requests
  imports Prelude "HOL-Library.Product_Lexorder"
begin

text \<open>
  The propose-then-approve store of \<open>crates/waygate-changeset/src/lib.rs\<close>: the data types, the
  validation of a proposal, and the two implementations of the trait \<open>ChangeRequestStore\<close>.

  \<^item> \<open>mem_store\<close> is \<open>InMemoryChangeRequestStore\<close>: three vectors, one per mutex. A method that holds its
    locks for its whole body is one step.
  \<^item> \<open>pg_store\<close> is the database behind \<open>PgChangeRequestStore\<close>: the tables of migrations 0039, 0044 and
    0045 with their primary keys, foreign keys and \<open>CHECK\<close> constraints. Each method is one statement or
    one transaction that locks the parent row first, hence one step.

  A JSON \<open>Value\<close> is represented by its compact serialisation, so \<open>value.to_string()\<close> is the value
  itself. Time stamps are integers; \<open>OffsetDateTime::now_utc\<close>, the database's \<open>now()\<close> and
  \<open>Uuid::now_v7\<close> are arguments. An \<open>i32\<close> that is only compared is an \<open>int\<close>, a \<open>u32\<close> or \<open>usize\<close> that is
  only compared is a \<open>nat\<close>.
\<close>

section \<open>Data\<close>

type_synonym json = bytes
type_synonym timestamp = int

datatype change_request_status =
  Pending | Approved | Executing | Executed | Failed | Denied | Expired

fun as_db_str :: "change_request_status \<Rightarrow> bytes" where
  "as_db_str Pending = ''pending''"
| "as_db_str Approved = ''approved''"
| "as_db_str Executing = ''executing''"
| "as_db_str Executed = ''executed''"
| "as_db_str Failed = ''failed''"
| "as_db_str Denied = ''denied''"
| "as_db_str Expired = ''expired''"

definition from_db_str :: "bytes \<Rightarrow> change_request_status option" where
  "from_db_str s =
     (if s = ''pending'' then Some Pending
      else if s = ''approved'' then Some Approved
      else if s = ''executing'' then Some Executing
      else if s = ''executed'' then Some Executed
      else if s = ''failed'' then Some Failed
      else if s = ''denied'' then Some Denied
      else if s = ''expired'' then Some Expired
      else None)"

fun is_terminal :: "change_request_status \<Rightarrow> bool" where
  "is_terminal Executed = True"
| "is_terminal Failed = True"
| "is_terminal Denied = True"
| "is_terminal Expired = True"
| "is_terminal _ = False"

datatype change_request_lifecycle = LcPending | LcExpired | LcDecided

fun as_sql_str :: "change_request_lifecycle \<Rightarrow> bytes" where
  "as_sql_str LcPending = ''pending''"
| "as_sql_str LcExpired = ''expired''"
| "as_sql_str LcDecided = ''decided''"

datatype approval_factor = Mfa | Passkey | BreakGlass

fun factor_as_db_str :: "approval_factor \<Rightarrow> bytes" where
  "factor_as_db_str Mfa = ''mfa''"
| "factor_as_db_str Passkey = ''passkey''"
| "factor_as_db_str BreakGlass = ''break_glass''"

definition factor_from_db_str :: "bytes \<Rightarrow> approval_factor option" where
  "factor_from_db_str s =
     (if s = ''mfa'' then Some Mfa
      else if s = ''passkey'' then Some Passkey
      else if s = ''break_glass'' then Some BreakGlass
      else None)"

record approval_requirement =
  required_approvals :: int
  eligible_role :: bytes
  factors :: "bytes list"
  cooldown_seconds :: "int option"

definition single_requirement :: "bytes \<Rightarrow> approval_requirement" where
  "single_requirement role =
     \<lparr>required_approvals = 1, eligible_role = role, factors = [], cooldown_seconds = None\<rparr>"

record new_change_request =
  new_tenant_id :: bytes
  new_requested_by :: bytes
  new_client_id :: "bytes option"
  new_action_type :: bytes
  new_params :: json
  new_preview :: "json option"
  new_target_etag :: "bytes option"
  new_justification :: bytes
  new_requirement :: approval_requirement
  new_expires_at :: timestamp

record change_request =
  cr_id :: uuid
  cr_tenant_id :: bytes
  cr_requested_by :: bytes
  cr_client_id :: "bytes option"
  cr_action_type :: bytes
  cr_params :: json
  cr_preview :: "json option"
  cr_target_etag :: "bytes option"
  cr_justification :: bytes
  cr_binding_code :: bytes
  cr_required_approvals :: int
  cr_eligible_role :: bytes
  cr_required_factors :: "bytes list"
  cr_cooldown_seconds :: "int option"
  cr_status :: change_request_status
  cr_approver_sub :: "bytes option"
  cr_denied_reason :: "bytes option"
  cr_execution_result :: "json option"
  cr_error_message :: "bytes option"
  cr_created_at :: timestamp
  cr_expires_at :: timestamp
  cr_decided_at :: "timestamp option"
  cr_executed_at :: "timestamp option"

definition requirement :: "change_request \<Rightarrow> approval_requirement" where
  "requirement r =
     \<lparr>required_approvals = cr_required_approvals r, eligible_role = cr_eligible_role r,
      factors = cr_required_factors r, cooldown_seconds = cr_cooldown_seconds r\<rparr>"

definition effective_status :: "timestamp \<Rightarrow> change_request \<Rightarrow> change_request_status" where
  "effective_status now r =
     (if cr_status r = Pending \<and> cr_expires_at r \<le> now then Expired else cr_status r)"

datatype change_request_error =
  Database
| EmptyJustification
| EmptyActionType
| InvalidApprovalCount int
| EmptyEligibleRole
| InvalidCooldown int
| UnknownFactor bytes

record stored_secret =
  ciphertext :: bytes
  key_id :: bytes

record approval_progress =
  collected :: int
  required :: int
  recorded :: bool
  counted :: bool
  approved :: "change_request option"

section \<open>Binding codes\<close>

definition binding_adjectives :: "bytes list" where
  "binding_adjectives =
     [''AMBER'', ''AZURE'', ''BRAVE'', ''CRISP'', ''DUSKY'', ''EAGER'', ''FROST'', ''GOLD'', ''HAZEL'', ''IVORY'',
      ''JADE'', ''LUNAR'', ''MOSSY'', ''NOBLE'', ''OPAL'', ''PRISM'']"

definition binding_nouns :: "bytes list" where
  "binding_nouns =
     [''OTTER'', ''FALCON'', ''HERON'', ''LYNX'', ''MARTEN'', ''NEWT'', ''ORCA'', ''PUMA'', ''QUAIL'', ''RAVEN'',
      ''SABLE'', ''TERN'', ''URCHIN'', ''VOLE'', ''WREN'', ''YAK'']"

definition binding_code_from_uuid :: "uuid \<Rightarrow> bytes" where
  "binding_code_from_uuid u =
     (let adj = binding_adjectives ! (uuid_byte u 10 mod length binding_adjectives);
          noun = binding_nouns ! (uuid_byte u 12 mod length binding_nouns);
          num = uuid_byte u 14 mod 100
      in adj @ ''-'' @ noun @ ''-'' @ [char_of (48 + num div 10), char_of (48 + num mod 10)])"

section \<open>Validation\<close>

definition validate :: "new_change_request \<Rightarrow> change_request_error + unit" where
  "validate new =
     (let req = new_requirement new in
      if blank (new_justification new) then Inl EmptyJustification
      else if blank (new_action_type new) then Inl EmptyActionType
      else if required_approvals req < 1 then Inl (InvalidApprovalCount (required_approvals req))
      else if blank (eligible_role req) then Inl EmptyEligibleRole
      else case cooldown_seconds req of
        Some c \<Rightarrow>
          if c < 0 then Inl (InvalidCooldown c)
          else (case find (\<lambda>f. factor_from_db_str f = None) (factors req) of
                  Some bad \<Rightarrow> Inl (UnknownFactor bad) | None \<Rightarrow> Inr ())
      | None \<Rightarrow>
          (case find (\<lambda>f. factor_from_db_str f = None) (factors req) of
             Some bad \<Rightarrow> Inl (UnknownFactor bad) | None \<Rightarrow> Inr ()))"

text \<open>The row a proposal becomes, with the column defaults of the table.\<close>

definition proposed_row :: "uuid \<Rightarrow> timestamp \<Rightarrow> new_change_request \<Rightarrow> change_request" where
  "proposed_row u now new =
     \<lparr>cr_id = u, cr_tenant_id = new_tenant_id new, cr_requested_by = new_requested_by new,
      cr_client_id = new_client_id new, cr_action_type = new_action_type new,
      cr_params = new_params new, cr_preview = new_preview new,
      cr_target_etag = new_target_etag new, cr_justification = new_justification new,
      cr_binding_code = binding_code_from_uuid u,
      cr_required_approvals = required_approvals (new_requirement new),
      cr_eligible_role = eligible_role (new_requirement new),
      cr_required_factors = factors (new_requirement new),
      cr_cooldown_seconds = cooldown_seconds (new_requirement new),
      cr_status = Pending, cr_approver_sub = None, cr_denied_reason = None,
      cr_execution_result = None, cr_error_message = None, cr_created_at = now,
      cr_expires_at = new_expires_at new, cr_decided_at = None, cr_executed_at = None\<rparr>"

section \<open>Bounded projections\<close>

definition HISTORY_OUTCOME_PREVIEW_CHARS :: nat where "HISTORY_OUTCOME_PREVIEW_CHARS = 200"
definition HISTORY_OUTCOME_MAX_BYTES :: nat where "HISTORY_OUTCOME_MAX_BYTES = 16 * 1024"
definition STATUS_LIST_OUTCOME_MAX_BYTES :: nat where "STATUS_LIST_OUTCOME_MAX_BYTES = 16 * 1024"
definition MAX_LIST_LIMIT :: nat where "MAX_LIST_LIMIT = 500"

record change_request_summary =
  sum_id :: uuid
  sum_requested_by :: bytes
  sum_action_type :: bytes
  sum_justification :: bytes
  sum_binding_code :: bytes
  sum_required_approvals :: int
  sum_eligible_role :: bytes
  sum_required_factors :: "bytes list"
  sum_cooldown_seconds :: "int option"
  sum_status :: change_request_status
  sum_approver_sub :: "bytes option"
  sum_denied_reason :: "bytes option"
  sum_execution_result :: "json option"
  sum_execution_result_preview :: "bytes option"
  sum_error_message :: "bytes option"
  sum_created_at :: timestamp
  sum_expires_at :: timestamp

record change_request_status_summary =
  st_id :: uuid
  st_requested_by :: bytes
  st_action_type :: bytes
  st_binding_code :: bytes
  st_status :: change_request_status
  st_approver_sub :: "bytes option"
  st_denied_reason :: "bytes option"
  st_execution_result :: "json option"
  st_error_message :: "bytes option"
  st_expires_at :: timestamp

text \<open>The mark appended to a shortened preview is U+2026.\<close>

definition ellipsis :: bytes where
  "ellipsis = map char_of [226, 128, 166 :: nat]"

definition history_outcome_preview :: "json \<Rightarrow> bytes" where
  "history_outcome_preview serialized =
     (if chars_count serialized \<le> HISTORY_OUTCOME_PREVIEW_CHARS then serialized
      else chars_take HISTORY_OUTCOME_PREVIEW_CHARS serialized @ ellipsis)"

definition bounded_status_result :: "json \<Rightarrow> json option" where
  "bounded_status_result v = (if length v \<le> STATUS_LIST_OUTCOME_MAX_BYTES then Some v else None)"

definition bounded_history_result :: "json \<Rightarrow> json option" where
  "bounded_history_result v = (if length v \<le> HISTORY_OUTCOME_MAX_BYTES then Some v else None)"

definition status_summary_of :: "change_request \<Rightarrow> change_request_status_summary" where
  "status_summary_of r =
     \<lparr>st_id = cr_id r, st_requested_by = cr_requested_by r, st_action_type = cr_action_type r,
      st_binding_code = cr_binding_code r, st_status = cr_status r,
      st_approver_sub = cr_approver_sub r, st_denied_reason = cr_denied_reason r,
      st_execution_result = Option.bind (cr_execution_result r) bounded_status_result,
      st_error_message = cr_error_message r, st_expires_at = cr_expires_at r\<rparr>"

definition status_summary_effective_status ::
  "timestamp \<Rightarrow> change_request_status_summary \<Rightarrow> change_request_status" where
  "status_summary_effective_status now r =
     (if st_status r = Pending \<and> st_expires_at r \<le> now then Expired else st_status r)"

definition summary_of :: "change_request \<Rightarrow> change_request_summary" where
  "summary_of r =
     \<lparr>sum_id = cr_id r, sum_requested_by = cr_requested_by r, sum_action_type = cr_action_type r,
      sum_justification = cr_justification r, sum_binding_code = cr_binding_code r,
      sum_required_approvals = cr_required_approvals r, sum_eligible_role = cr_eligible_role r,
      sum_required_factors = cr_required_factors r, sum_cooldown_seconds = cr_cooldown_seconds r,
      sum_status = cr_status r, sum_approver_sub = cr_approver_sub r,
      sum_denied_reason = cr_denied_reason r,
      sum_execution_result = Option.bind (cr_execution_result r) bounded_history_result,
      sum_execution_result_preview = map_option history_outcome_preview (cr_execution_result r),
      sum_error_message = cr_error_message r, sum_created_at = cr_created_at r,
      sum_expires_at = cr_expires_at r\<rparr>"

section \<open>The in-memory store\<close>

record approval =
  a_change_request_id :: uuid
  a_tenant_id :: bytes
  a_approver_sub :: bytes

record mem_secret =
  ms_tenant_id :: bytes
  ms_change_request_id :: uuid
  ms_ciphertext :: bytes
  ms_key_id :: bytes
  ms_retrieved :: bool

record mem_store =
  rows :: "change_request list"
  secrets :: "mem_secret list"
  approvals :: "approval list"

definition mem_new :: mem_store where
  "mem_new = \<lparr>rows = [], secrets = [], approvals = []\<rparr>"

text \<open>The bucket filter and the order that every listing shares.\<close>

fun in_lifecycle :: "timestamp \<Rightarrow> change_request_lifecycle option \<Rightarrow> change_request \<Rightarrow> bool" where
  "in_lifecycle now None r = True"
| "in_lifecycle now (Some LcPending) r = (cr_status r = Pending \<and> cr_expires_at r > now)"
| "in_lifecycle now (Some LcExpired) r = (cr_status r = Pending \<and> cr_expires_at r \<le> now)"
| "in_lifecycle now (Some LcDecided) r = (cr_status r \<noteq> Pending)"

definition newest_first :: "change_request list \<Rightarrow> change_request list" where
  "newest_first = sort_key (\<lambda>r. (- cr_created_at r, cr_id r))"

definition is_live_pending :: "change_request \<Rightarrow> bytes \<Rightarrow> timestamp \<Rightarrow> bool" where
  "is_live_pending r tid now \<longleftrightarrow>
     cr_tenant_id r = tid \<and> cr_status r = Pending \<and> cr_expires_at r > now"

definition mem_propose ::
  "uuid \<Rightarrow> timestamp \<Rightarrow> new_change_request \<Rightarrow> mem_store
   \<Rightarrow> mem_store \<times> (change_request_error + change_request)" where
  "mem_propose u now new s =
     (case validate new of
        Inl e \<Rightarrow> (s, Inl e)
      | Inr _ \<Rightarrow> let r = proposed_row u now new in (s\<lparr>rows := rows s @ [r]\<rparr>, Inr r))"

definition mem_get :: "bytes \<Rightarrow> uuid \<Rightarrow> mem_store \<Rightarrow> change_request option" where
  "mem_get tid u s = find (\<lambda>r. cr_tenant_id r = tid \<and> cr_id r = u) (rows s)"

definition mem_list ::
  "timestamp \<Rightarrow> bytes \<Rightarrow> change_request_lifecycle option \<Rightarrow> nat \<Rightarrow> nat \<Rightarrow> mem_store
   \<Rightarrow> change_request list" where
  "mem_list now tid lc limit offset s =
     take (min limit MAX_LIST_LIMIT)
       (drop offset
         (newest_first (filter (in_lifecycle now lc) (filter (\<lambda>r. cr_tenant_id r = tid) (rows s)))))"

definition mem_count_pending_up_to :: "timestamp \<Rightarrow> bytes \<Rightarrow> nat \<Rightarrow> mem_store \<Rightarrow> nat" where
  "mem_count_pending_up_to now tid limit s =
     length (take (min limit MAX_LIST_LIMIT) (filter (\<lambda>r. is_live_pending r tid now) (rows s)))"

definition mem_list_summaries ::
  "timestamp \<Rightarrow> bytes \<Rightarrow> change_request_lifecycle option \<Rightarrow> nat \<Rightarrow> nat \<Rightarrow> mem_store
   \<Rightarrow> change_request_summary list" where
  "mem_list_summaries now tid lc limit offset s =
     map summary_of
       (take (min limit MAX_LIST_LIMIT)
         (drop offset
           (newest_first
             (filter (in_lifecycle now lc) (filter (\<lambda>r. cr_tenant_id r = tid) (rows s))))))"

definition mem_list_for_requester ::
  "timestamp \<Rightarrow> bytes \<Rightarrow> bytes \<Rightarrow> change_request_lifecycle option \<Rightarrow> nat \<Rightarrow> nat \<Rightarrow> mem_store
   \<Rightarrow> change_request_status_summary list" where
  "mem_list_for_requester now tid sub lc limit offset s =
     map status_summary_of
       (take limit
         (drop offset
           (newest_first
             (filter (in_lifecycle now lc)
               (filter (\<lambda>r. cr_tenant_id r = tid \<and> cr_requested_by r = sub) (rows s))))))"

definition mem_try_approve ::
  "timestamp \<Rightarrow> bytes \<Rightarrow> uuid \<Rightarrow> bytes \<Rightarrow> mem_store \<Rightarrow> mem_store \<times> change_request option" where
  "mem_try_approve now tid u sub s =
     (case update_first
             (\<lambda>r. cr_tenant_id r = tid \<and> cr_id r = u \<and> cr_status r = Pending
                  \<and> cr_expires_at r > now \<and> cr_required_approvals r = 1)
             (\<lambda>r. r\<lparr>cr_status := Approved, cr_approver_sub := Some sub, cr_decided_at := Some now\<rparr>)
             (rows s) of
        (rs, res) \<Rightarrow> (s\<lparr>rows := rs\<rparr>, res))"

definition no_progress :: approval_progress where
  "no_progress =
     \<lparr>collected = 0, required = 0, recorded = False, counted = False, approved = None\<rparr>"

definition mem_record_approval ::
  "timestamp \<Rightarrow> bytes \<Rightarrow> uuid \<Rightarrow> bytes \<Rightarrow> mem_store \<Rightarrow> mem_store \<times> approval_progress" where
  "mem_record_approval now tid u sub s =
     (case find (\<lambda>r. cr_tenant_id r = tid \<and> cr_id r = u) (rows s) of
        None \<Rightarrow> (s, no_progress)
      | Some gate \<Rightarrow>
          let cnt = (cr_status gate = Pending \<and> cr_expires_at gate > now);
              rec = (cnt \<and> \<not> list_ex (\<lambda>a. a_change_request_id a = u \<and> a_tenant_id a = tid
                                            \<and> a_approver_sub a = sub) (approvals s));
              apps = (if rec
                      then approvals s @ [\<lparr>a_change_request_id = u, a_tenant_id = tid,
                                           a_approver_sub = sub\<rparr>]
                      else approvals s);
              n = int (length (filter (\<lambda>a. a_change_request_id a = u \<and> a_tenant_id a = tid) apps))
          in case update_first
                    (\<lambda>r. cr_tenant_id r = tid \<and> cr_id r = u \<and> cr_status r = Pending
                         \<and> cr_expires_at r > now \<and> cr_required_approvals r \<le> n)
                    (\<lambda>r. r\<lparr>cr_status := Approved, cr_approver_sub := Some sub,
                           cr_decided_at := Some now\<rparr>)
                    (rows s) of
               (rs, res) \<Rightarrow>
                 (s\<lparr>rows := rs, approvals := apps\<rparr>,
                  \<lparr>collected = n, required = cr_required_approvals gate, recorded = rec,
                   counted = cnt, approved = res\<rparr>))"

definition mem_list_approvers :: "bytes \<Rightarrow> uuid \<Rightarrow> mem_store \<Rightarrow> bytes list" where
  "mem_list_approvers tid u s =
     map a_approver_sub
       (filter (\<lambda>a. a_change_request_id a = u \<and> a_tenant_id a = tid) (approvals s))"

definition mem_try_deny ::
  "timestamp \<Rightarrow> bytes \<Rightarrow> uuid \<Rightarrow> bytes \<Rightarrow> bytes \<Rightarrow> mem_store
   \<Rightarrow> mem_store \<times> change_request option" where
  "mem_try_deny now tid u sub why s =
     (case update_first
             (\<lambda>r. cr_tenant_id r = tid \<and> cr_id r = u \<and> cr_status r = Pending
                  \<and> cr_expires_at r > now)
             (\<lambda>r. r\<lparr>cr_status := Denied, cr_approver_sub := Some sub, cr_denied_reason := Some why,
                    cr_decided_at := Some now\<rparr>)
             (rows s) of
        (rs, res) \<Rightarrow> (s\<lparr>rows := rs\<rparr>, res))"

definition mem_try_begin_execution ::
  "bytes \<Rightarrow> uuid \<Rightarrow> mem_store \<Rightarrow> mem_store \<times> change_request option" where
  "mem_try_begin_execution tid u s =
     (case update_first
             (\<lambda>r. cr_tenant_id r = tid \<and> cr_id r = u \<and> cr_status r = Approved)
             (\<lambda>r. r\<lparr>cr_status := Executing\<rparr>)
             (rows s) of
        (rs, res) \<Rightarrow> (s\<lparr>rows := rs\<rparr>, res))"

definition mem_mark_executed ::
  "timestamp \<Rightarrow> bytes \<Rightarrow> uuid \<Rightarrow> json \<Rightarrow> mem_store \<Rightarrow> mem_store \<times> change_request option" where
  "mem_mark_executed now tid u result s =
     (case update_first
             (\<lambda>r. cr_tenant_id r = tid \<and> cr_id r = u \<and> cr_status r = Executing)
             (\<lambda>r. r\<lparr>cr_status := Executed, cr_execution_result := Some result,
                    cr_executed_at := Some now\<rparr>)
             (rows s) of
        (rs, res) \<Rightarrow> (s\<lparr>rows := rs\<rparr>, res))"

definition mem_mark_failed ::
  "timestamp \<Rightarrow> bytes \<Rightarrow> uuid \<Rightarrow> bytes \<Rightarrow> mem_store \<Rightarrow> mem_store \<times> change_request option" where
  "mem_mark_failed now tid u err s =
     (case update_first
             (\<lambda>r. cr_tenant_id r = tid \<and> cr_id r = u \<and> cr_status r = Executing)
             (\<lambda>r. r\<lparr>cr_status := Failed, cr_error_message := Some err, cr_executed_at := Some now\<rparr>)
             (rows s) of
        (rs, res) \<Rightarrow> (s\<lparr>rows := rs\<rparr>, res))"

definition mem_store_secret :: "bytes \<Rightarrow> uuid \<Rightarrow> bytes \<Rightarrow> bytes \<Rightarrow> mem_store \<Rightarrow> mem_store" where
  "mem_store_secret tid u ct kid s =
     s\<lparr>secrets := secrets s @ [\<lparr>ms_tenant_id = tid, ms_change_request_id = u, ms_ciphertext = ct,
                                ms_key_id = kid, ms_retrieved = False\<rparr>]\<rparr>"

definition mem_secret_out :: "mem_secret \<Rightarrow> stored_secret" where
  "mem_secret_out x = \<lparr>ciphertext = ms_ciphertext x, key_id = ms_key_id x\<rparr>"

definition mem_try_burn_secret ::
  "bytes \<Rightarrow> uuid \<Rightarrow> mem_store \<Rightarrow> mem_store \<times> stored_secret option" where
  "mem_try_burn_secret tid u s =
     (case update_first
             (\<lambda>x. ms_tenant_id x = tid \<and> ms_change_request_id x = u \<and> \<not> ms_retrieved x)
             (\<lambda>x. x\<lparr>ms_retrieved := True\<rparr>)
             (secrets s) of
        (xs, res) \<Rightarrow> (s\<lparr>secrets := xs\<rparr>, map_option mem_secret_out res))"

definition mem_get_secret :: "bytes \<Rightarrow> uuid \<Rightarrow> mem_store \<Rightarrow> stored_secret option" where
  "mem_get_secret tid u s =
     map_option mem_secret_out
       (find (\<lambda>x. ms_tenant_id x = tid \<and> ms_change_request_id x = u) (secrets s))"

section \<open>The Postgres store\<close>

record pg_approval = approval +
  pa_id :: uuid
  pa_created_at :: timestamp

record pg_secret =
  ps_change_request_id :: uuid
  ps_tenant_id :: bytes
  ps_ciphertext :: bytes
  ps_key_id :: bytes
  ps_created_at :: timestamp
  ps_retrieved_at :: "timestamp option"

record pg_store =
  tenants :: "bytes list"
  change_requests :: "change_request list"
  change_request_approvals :: "pg_approval list"
  change_request_secrets :: "pg_secret list"

text \<open>The \<open>CHECK\<close> constraints of \<open>change_requests\<close>.\<close>

definition change_requests_checks :: "change_request \<Rightarrow> bool" where
  "change_requests_checks r \<longleftrightarrow>
     cr_action_type r \<noteq> [] \<and> cr_justification r \<noteq> [] \<and> cr_required_approvals r \<ge> 1
     \<and> cr_eligible_role r \<noteq> []
     \<and> (case cr_cooldown_seconds r of None \<Rightarrow> True | Some c \<Rightarrow> c \<ge> 0)
     \<and> as_db_str (cr_status r) \<in> {''pending'', ''approved'', ''executing'', ''executed'', ''failed'',
                                  ''denied'', ''expired''}"

definition pg_propose ::
  "uuid \<Rightarrow> timestamp \<Rightarrow> new_change_request \<Rightarrow> pg_store
   \<Rightarrow> pg_store \<times> (change_request_error + change_request)" where
  "pg_propose u db_now new s =
     (case validate new of
        Inl e \<Rightarrow> (s, Inl e)
      | Inr _ \<Rightarrow>
          let r = proposed_row u db_now new in
          if u \<in> cr_id ` set (change_requests s) \<or> cr_tenant_id r \<notin> set (tenants s)
             \<or> \<not> change_requests_checks r
          then (s, Inl Database)
          else (s\<lparr>change_requests := change_requests s @ [r]\<rparr>, Inr r))"

definition pg_get :: "bytes \<Rightarrow> uuid \<Rightarrow> pg_store \<Rightarrow> change_request option" where
  "pg_get tid u s = find (\<lambda>r. cr_tenant_id r = tid \<and> cr_id r = u) (change_requests s)"

text \<open>The \<open>CASE\<close> over the bound lifecycle string.\<close>

definition lifecycle_case :: "timestamp \<Rightarrow> bytes option \<Rightarrow> change_request \<Rightarrow> bool" where
  "lifecycle_case db_now lc r =
     (if lc = Some ''pending'' then cr_status r = Pending \<and> cr_expires_at r > db_now
      else if lc = Some ''expired'' then cr_status r = Pending \<and> cr_expires_at r \<le> db_now
      else if lc = Some ''decided'' then cr_status r \<noteq> Pending
      else True)"

definition pg_list ::
  "timestamp \<Rightarrow> bytes \<Rightarrow> change_request_lifecycle option \<Rightarrow> nat \<Rightarrow> nat \<Rightarrow> pg_store
   \<Rightarrow> change_request list" where
  "pg_list db_now tid lc limit offset s =
     take (min limit MAX_LIST_LIMIT)
       (drop offset
         (newest_first
           (filter (\<lambda>r. cr_tenant_id r = tid \<and> lifecycle_case db_now (map_option as_sql_str lc) r)
             (change_requests s))))"

definition pg_count_pending_up_to :: "timestamp \<Rightarrow> bytes \<Rightarrow> nat \<Rightarrow> pg_store \<Rightarrow> nat" where
  "pg_count_pending_up_to db_now tid limit s =
     length (take (min limit MAX_LIST_LIMIT)
       (filter (\<lambda>r. cr_tenant_id r = tid \<and> cr_status r = Pending \<and> cr_expires_at r > db_now)
         (change_requests s)))"

text \<open>\<open>jsonb_text\<close> is the database's rendering \<open>execution_result::text\<close>.\<close>

definition pg_summary :: "(json \<Rightarrow> bytes) \<Rightarrow> change_request \<Rightarrow> change_request_summary" where
  "pg_summary jsonb_text r =
     \<lparr>sum_id = cr_id r, sum_requested_by = cr_requested_by r, sum_action_type = cr_action_type r,
      sum_justification = cr_justification r, sum_binding_code = cr_binding_code r,
      sum_required_approvals = cr_required_approvals r, sum_eligible_role = cr_eligible_role r,
      sum_required_factors = cr_required_factors r, sum_cooldown_seconds = cr_cooldown_seconds r,
      sum_status = cr_status r, sum_approver_sub = cr_approver_sub r,
      sum_denied_reason = cr_denied_reason r,
      sum_execution_result =
        (case cr_execution_result r of
           None \<Rightarrow> None
         | Some v \<Rightarrow> if length (jsonb_text v) \<le> HISTORY_OUTCOME_MAX_BYTES then Some v else None),
      sum_execution_result_preview =
        (case cr_execution_result r of
           None \<Rightarrow> None
         | Some v \<Rightarrow>
             if chars_count (jsonb_text v) \<le> HISTORY_OUTCOME_PREVIEW_CHARS then Some (jsonb_text v)
             else Some (chars_take HISTORY_OUTCOME_PREVIEW_CHARS (jsonb_text v) @ ellipsis)),
      sum_error_message = cr_error_message r, sum_created_at = cr_created_at r,
      sum_expires_at = cr_expires_at r\<rparr>"

definition pg_list_summaries ::
  "(json \<Rightarrow> bytes) \<Rightarrow> timestamp \<Rightarrow> bytes \<Rightarrow> change_request_lifecycle option \<Rightarrow> nat \<Rightarrow> nat \<Rightarrow> pg_store
   \<Rightarrow> change_request_summary list" where
  "pg_list_summaries jsonb_text db_now tid lc limit offset s =
     map (pg_summary jsonb_text)
       (take (min limit MAX_LIST_LIMIT)
         (drop offset
           (newest_first
             (filter (\<lambda>r. cr_tenant_id r = tid \<and> lifecycle_case db_now (map_option as_sql_str lc) r)
               (change_requests s)))))"

definition pg_status_summary ::
  "(json \<Rightarrow> bytes) \<Rightarrow> change_request \<Rightarrow> change_request_status_summary" where
  "pg_status_summary jsonb_text r =
     \<lparr>st_id = cr_id r, st_requested_by = cr_requested_by r, st_action_type = cr_action_type r,
      st_binding_code = cr_binding_code r, st_status = cr_status r,
      st_approver_sub = cr_approver_sub r, st_denied_reason = cr_denied_reason r,
      st_execution_result =
        (case cr_execution_result r of
           None \<Rightarrow> None
         | Some v \<Rightarrow>
             if length (jsonb_text v) \<le> STATUS_LIST_OUTCOME_MAX_BYTES then Some v else None),
      st_error_message = cr_error_message r, st_expires_at = cr_expires_at r\<rparr>"

definition pg_list_for_requester ::
  "(json \<Rightarrow> bytes) \<Rightarrow> timestamp \<Rightarrow> bytes \<Rightarrow> bytes \<Rightarrow> change_request_lifecycle option \<Rightarrow> nat \<Rightarrow> nat
   \<Rightarrow> pg_store \<Rightarrow> change_request_status_summary list" where
  "pg_list_for_requester jsonb_text db_now tid sub lc limit offset s =
     map (pg_status_summary jsonb_text)
       (take limit
         (drop offset
           (newest_first
             (filter (\<lambda>r. cr_tenant_id r = tid \<and> cr_requested_by r = sub
                          \<and> lifecycle_case db_now (map_option as_sql_str lc) r)
               (change_requests s)))))"

definition pg_try_approve ::
  "timestamp \<Rightarrow> bytes \<Rightarrow> uuid \<Rightarrow> bytes \<Rightarrow> pg_store \<Rightarrow> pg_store \<times> change_request option" where
  "pg_try_approve db_now tid u sub s =
     (case update_where
             (\<lambda>r. cr_id r = u \<and> cr_tenant_id r = tid \<and> cr_status r = Pending
                  \<and> cr_expires_at r > db_now \<and> cr_required_approvals r = 1)
             (\<lambda>r. r\<lparr>cr_status := Approved, cr_approver_sub := Some sub,
                    cr_decided_at := Some db_now\<rparr>)
             (change_requests s) of
        (rs, res) \<Rightarrow> (s\<lparr>change_requests := rs\<rparr>, res))"

text \<open>
  \<open>INSERT \<dots> ON CONFLICT (change_request_id, approver_sub) DO NOTHING\<close>: the number of rows inserted, or
  an error when the primary key \<open>id\<close> is taken.
\<close>

definition insert_approval ::
  "uuid \<Rightarrow> timestamp \<Rightarrow> bytes \<Rightarrow> uuid \<Rightarrow> bytes \<Rightarrow> pg_approval list
   \<Rightarrow> change_request_error + (pg_approval list \<times> nat)" where
  "insert_approval aid db_now tid u sub apps =
     (if list_ex (\<lambda>a. a_change_request_id a = u \<and> a_approver_sub a = sub) apps then Inr (apps, 0)
      else if list_ex (\<lambda>a. pa_id a = aid) apps then Inl Database
      else Inr (apps @ [\<lparr>a_change_request_id = u, a_tenant_id = tid, a_approver_sub = sub,
                         pa_id = aid, pa_created_at = db_now\<rparr>], 1))"

definition pg_record_approval ::
  "timestamp \<Rightarrow> timestamp \<Rightarrow> uuid \<Rightarrow> bytes \<Rightarrow> uuid \<Rightarrow> bytes \<Rightarrow> pg_store
   \<Rightarrow> pg_store \<times> (change_request_error + approval_progress)" where
  "pg_record_approval now db_now aid tid u sub s =
     (case find (\<lambda>r. cr_id r = u \<and> cr_tenant_id r = tid) (change_requests s) of
        None \<Rightarrow> (s, Inr no_progress)
      | Some gate \<Rightarrow>
          let cnt = (cr_status gate = Pending \<and> cr_expires_at gate > now) in
          case (if cnt then insert_approval aid db_now tid u sub (change_request_approvals s)
                else Inr (change_request_approvals s, 0)) of
            Inl e \<Rightarrow> (s, Inl e)
          | Inr (apps, rows_affected) \<Rightarrow>
              let n = int (length (filter (\<lambda>a. a_change_request_id a = u) apps)) in
              case update_where
                     (\<lambda>r. cr_id r = u \<and> cr_tenant_id r = tid \<and> cr_status r = Pending
                          \<and> cr_expires_at r > db_now \<and> cr_required_approvals r \<le> n)
                     (\<lambda>r. r\<lparr>cr_status := Approved, cr_approver_sub := Some sub,
                            cr_decided_at := Some db_now\<rparr>)
                     (change_requests s) of
                (rs, res) \<Rightarrow>
                  (s\<lparr>change_requests := rs, change_request_approvals := apps\<rparr>,
                   Inr \<lparr>collected = n, required = cr_required_approvals gate,
                        recorded = (cnt \<and> rows_affected = 1), counted = cnt, approved = res\<rparr>))"

definition pg_list_approvers :: "bytes \<Rightarrow> uuid \<Rightarrow> pg_store \<Rightarrow> bytes list" where
  "pg_list_approvers tid u s =
     map a_approver_sub
       (sort_key pa_created_at
         (filter (\<lambda>a. a_change_request_id a = u \<and> a_tenant_id a = tid)
           (change_request_approvals s)))"

definition pg_try_deny ::
  "timestamp \<Rightarrow> bytes \<Rightarrow> uuid \<Rightarrow> bytes \<Rightarrow> bytes \<Rightarrow> pg_store
   \<Rightarrow> pg_store \<times> change_request option" where
  "pg_try_deny db_now tid u sub why s =
     (case update_where
             (\<lambda>r. cr_id r = u \<and> cr_tenant_id r = tid \<and> cr_status r = Pending
                  \<and> cr_expires_at r > db_now)
             (\<lambda>r. r\<lparr>cr_status := Denied, cr_approver_sub := Some sub, cr_denied_reason := Some why,
                    cr_decided_at := Some db_now\<rparr>)
             (change_requests s) of
        (rs, res) \<Rightarrow> (s\<lparr>change_requests := rs\<rparr>, res))"

definition pg_try_begin_execution ::
  "bytes \<Rightarrow> uuid \<Rightarrow> pg_store \<Rightarrow> pg_store \<times> change_request option" where
  "pg_try_begin_execution tid u s =
     (case update_where
             (\<lambda>r. cr_id r = u \<and> cr_tenant_id r = tid \<and> cr_status r = Approved)
             (\<lambda>r. r\<lparr>cr_status := Executing\<rparr>)
             (change_requests s) of
        (rs, res) \<Rightarrow> (s\<lparr>change_requests := rs\<rparr>, res))"

definition pg_mark_executed ::
  "timestamp \<Rightarrow> bytes \<Rightarrow> uuid \<Rightarrow> json \<Rightarrow> pg_store \<Rightarrow> pg_store \<times> change_request option" where
  "pg_mark_executed db_now tid u result s =
     (case update_where
             (\<lambda>r. cr_id r = u \<and> cr_tenant_id r = tid \<and> cr_status r = Executing)
             (\<lambda>r. r\<lparr>cr_status := Executed, cr_execution_result := Some result,
                    cr_executed_at := Some db_now\<rparr>)
             (change_requests s) of
        (rs, res) \<Rightarrow> (s\<lparr>change_requests := rs\<rparr>, res))"

definition pg_mark_failed ::
  "timestamp \<Rightarrow> bytes \<Rightarrow> uuid \<Rightarrow> bytes \<Rightarrow> pg_store \<Rightarrow> pg_store \<times> change_request option" where
  "pg_mark_failed db_now tid u err s =
     (case update_where
             (\<lambda>r. cr_id r = u \<and> cr_tenant_id r = tid \<and> cr_status r = Executing)
             (\<lambda>r. r\<lparr>cr_status := Failed, cr_error_message := Some err,
                    cr_executed_at := Some db_now\<rparr>)
             (change_requests s) of
        (rs, res) \<Rightarrow> (s\<lparr>change_requests := rs\<rparr>, res))"

text \<open>The primary key and the foreign key of \<open>change_request_secrets\<close> reject the insert.\<close>

definition pg_store_secret ::
  "timestamp \<Rightarrow> bytes \<Rightarrow> uuid \<Rightarrow> bytes \<Rightarrow> bytes \<Rightarrow> pg_store
   \<Rightarrow> pg_store \<times> (change_request_error + unit)" where
  "pg_store_secret db_now tid u ct kid s =
     (if u \<in> ps_change_request_id ` set (change_request_secrets s)
         \<or> u \<notin> cr_id ` set (change_requests s)
      then (s, Inl Database)
      else (s\<lparr>change_request_secrets := change_request_secrets s
                @ [\<lparr>ps_change_request_id = u, ps_tenant_id = tid, ps_ciphertext = ct,
                    ps_key_id = kid, ps_created_at = db_now, ps_retrieved_at = None\<rparr>]\<rparr>,
            Inr ()))"

definition pg_secret_out :: "pg_secret \<Rightarrow> stored_secret" where
  "pg_secret_out x = \<lparr>ciphertext = ps_ciphertext x, key_id = ps_key_id x\<rparr>"

definition pg_try_burn_secret ::
  "timestamp \<Rightarrow> bytes \<Rightarrow> uuid \<Rightarrow> pg_store \<Rightarrow> pg_store \<times> stored_secret option" where
  "pg_try_burn_secret db_now tid u s =
     (case update_where
             (\<lambda>x. ps_change_request_id x = u \<and> ps_tenant_id x = tid \<and> ps_retrieved_at x = None)
             (\<lambda>x. x\<lparr>ps_retrieved_at := Some db_now\<rparr>)
             (change_request_secrets s) of
        (xs, res) \<Rightarrow> (s\<lparr>change_request_secrets := xs\<rparr>, map_option pg_secret_out res))"

definition pg_get_secret :: "bytes \<Rightarrow> uuid \<Rightarrow> pg_store \<Rightarrow> stored_secret option" where
  "pg_get_secret tid u s =
     map_option pg_secret_out
       (find (\<lambda>x. ps_change_request_id x = u \<and> ps_tenant_id x = tid) (change_request_secrets s))"

section \<open>One call\<close>

text \<open>
  The state-changing calls of the trait, with the identifiers the store draws from \<open>Uuid::now_v7\<close>.
  \<open>clock\<close> holds the host's clock and the database's clock at the moment of the call.
\<close>

datatype call =
  Propose uuid new_change_request
| TryApprove bytes uuid bytes
| RecordApproval uuid bytes uuid bytes
| TryDeny bytes uuid bytes bytes
| TryBeginExecution bytes uuid
| MarkExecuted bytes uuid json
| MarkFailed bytes uuid bytes
| StoreSecret bytes uuid bytes bytes
| TryBurnSecret bytes uuid

datatype answer =
  Row "change_request option"
| Progress approval_progress
| Stored
| Secret "stored_secret option"
| Refused change_request_error

type_synonym clock = "timestamp \<times> timestamp"

fun mem_call :: "clock \<times> call \<Rightarrow> mem_store \<Rightarrow> mem_store \<times> answer" where
  "mem_call ((now, _), Propose u new) s =
     map_prod id (case_sum Refused (Row \<circ> Some)) (mem_propose u now new s)"
| "mem_call ((now, _), TryApprove tid u sub) s = map_prod id Row (mem_try_approve now tid u sub s)"
| "mem_call ((now, _), RecordApproval _ tid u sub) s =
     map_prod id Progress (mem_record_approval now tid u sub s)"
| "mem_call ((now, _), TryDeny tid u sub why) s =
     map_prod id Row (mem_try_deny now tid u sub why s)"
| "mem_call (_, TryBeginExecution tid u) s = map_prod id Row (mem_try_begin_execution tid u s)"
| "mem_call ((now, _), MarkExecuted tid u v) s = map_prod id Row (mem_mark_executed now tid u v s)"
| "mem_call ((now, _), MarkFailed tid u err) s = map_prod id Row (mem_mark_failed now tid u err s)"
| "mem_call (_, StoreSecret tid u ct kid) s = (mem_store_secret tid u ct kid s, Stored)"
| "mem_call (_, TryBurnSecret tid u) s = map_prod id Secret (mem_try_burn_secret tid u s)"

fun pg_call :: "clock \<times> call \<Rightarrow> pg_store \<Rightarrow> pg_store \<times> answer" where
  "pg_call ((_, db), Propose u new) s =
     map_prod id (case_sum Refused (Row \<circ> Some)) (pg_propose u db new s)"
| "pg_call ((_, db), TryApprove tid u sub) s = map_prod id Row (pg_try_approve db tid u sub s)"
| "pg_call ((now, db), RecordApproval aid tid u sub) s =
     map_prod id (case_sum Refused Progress) (pg_record_approval now db aid tid u sub s)"
| "pg_call ((_, db), TryDeny tid u sub why) s = map_prod id Row (pg_try_deny db tid u sub why s)"
| "pg_call (_, TryBeginExecution tid u) s = map_prod id Row (pg_try_begin_execution tid u s)"
| "pg_call ((_, db), MarkExecuted tid u v) s = map_prod id Row (pg_mark_executed db tid u v s)"
| "pg_call ((_, db), MarkFailed tid u err) s = map_prod id Row (pg_mark_failed db tid u err s)"
| "pg_call ((_, db), StoreSecret tid u ct kid) s =
     map_prod id (case_sum Refused (\<lambda>_. Stored)) (pg_store_secret db tid u ct kid s)"
| "pg_call ((_, db), TryBurnSecret tid u) s = map_prod id Secret (pg_try_burn_secret db tid u s)"

end
