(* ===== verification/Change_Lifecycle.thy ===== *)
theory Change_Lifecycle
  imports Change_Requests
begin

text \<open>
  The contract of the trait \<open>ChangeRequestStore\<close> and what both implementations owe to it. The locale
  \<open>request_store\<close> states what one call may do to the rows and to the ledger of approvals; its lemmas
  lift that to arbitrary sequences of calls. It is interpreted for the Postgres tables and for the
  in-memory vectors, and the two are related by a simulation: on calls that respect the table
  constraints they give the same answers.
\<close>

section \<open>The lifecycle of one request\<close>

inductive lifecycle :: "change_request_status \<Rightarrow> change_request_status \<Rightarrow> bool" where
  approve: "lifecycle Pending Approved"
| deny: "lifecycle Pending Denied"
| claim: "lifecycle Approved Executing"
| finish: "lifecycle Executing Executed"
| fail: "lifecycle Executing Failed"

inductive_simps lifecycle_simps [simp]:
  "lifecycle Pending b" "lifecycle Approved b" "lifecycle Executing b"
  "lifecycle Executed b" "lifecycle Failed b" "lifecycle Denied b" "lifecycle Expired b"

fun rank :: "change_request_status \<Rightarrow> nat" where
  "rank Pending = 0"
| "rank Approved = 1"
| "rank Executing = 2"
| "rank _ = 3"

text \<open>The captured intent and the requirement: everything a decision or an execution must not touch.\<close>

definition frozen :: "change_request \<Rightarrow> change_request" where
  "frozen r = r\<lparr>cr_status := Pending, cr_approver_sub := None, cr_denied_reason := None,
                cr_execution_result := None, cr_error_message := None, cr_decided_at := None,
                cr_executed_at := None\<rparr>"

definition row_evolves :: "change_request \<Rightarrow> change_request \<Rightarrow> bool" where
  "row_evolves r r' \<longleftrightarrow> frozen r' = frozen r \<and> (r' = r \<or> lifecycle (cr_status r) (cr_status r'))"

text \<open>The rows of a table after a call: the old ones in order, each evolved, then new pending ones.\<close>

definition rows_evolve :: "change_request list \<Rightarrow> change_request list \<Rightarrow> bool" where
  "rows_evolve rs rs' \<longleftrightarrow>
     (\<exists>g new. rs' = map g rs @ new \<and> (\<forall>r\<in>set rs. row_evolves r (g r))
              \<and> (\<forall>r\<in>set new. cr_status r = Pending))"

definition quorum :: "(uuid \<times> bytes) list \<Rightarrow> change_request \<Rightarrow> bool" where
  "quorum vs r \<longleftrightarrow>
     cr_required_approvals r = 1
     \<or> cr_required_approvals r \<le> int (card {sub. (cr_id r, sub) \<in> set vs})"

fun allowed :: "('c \<Rightarrow> 's \<Rightarrow> 's \<times> 'a) \<Rightarrow> ('c \<Rightarrow> 's \<Rightarrow> bool) \<Rightarrow> 'c list \<Rightarrow> 's \<Rightarrow> bool" where
  "allowed f en [] s = True"
| "allowed f en (c # cs) s = (en c s \<and> allowed f en cs (fst (f c s)))"

text \<open>The answers to successful execution claims on one request.\<close>

fun claimed :: "uuid \<Rightarrow> (clock \<times> call) \<times> answer \<Rightarrow> bool" where
  "claimed u ((_, TryBeginExecution _ v), Row (Some _)) = (v = u)"
| "claimed u _ = False"

lemma frozen_sel [simp]:
  "cr_id (frozen r) = cr_id r" "cr_tenant_id (frozen r) = cr_tenant_id r"
  "requirement (frozen r) = requirement r" "cr_required_approvals (frozen r) = cr_required_approvals r"
  "cr_params (frozen r) = cr_params r" "cr_expires_at (frozen r) = cr_expires_at r"
  by (simp_all add: frozen_def requirement_def)

lemma frozen_fields:
  assumes "frozen r' = frozen r"
  shows "cr_id r' = cr_id r" "cr_tenant_id r' = cr_tenant_id r" "requirement r' = requirement r"
    "cr_required_approvals r' = cr_required_approvals r" "cr_params r' = cr_params r"
    "cr_expires_at r' = cr_expires_at r"
  by (metis assms frozen_sel)+

lemma row_evolves_refl [simp, intro]: "row_evolves r r"
  by (simp add: row_evolves_def)

lemma row_evolves_id: "row_evolves r r' \<Longrightarrow> cr_id r' = cr_id r"
  unfolding row_evolves_def by (blast dest: frozen_fields(1))

lemma lifecycle_rank: "lifecycle a b \<Longrightarrow> rank a < rank b"
  by (induction rule: lifecycle.induct) simp_all

lemma row_evolves_star:
  assumes "row_evolves\<^sup>*\<^sup>* r r'"
  shows "frozen r' = frozen r \<and> (is_terminal (cr_status r) \<longrightarrow> r' = r)
    \<and> rank (cr_status r) \<le> rank (cr_status r')"
  using assms
proof (induction rule: rtranclp_induct)
  case (step y z)
  have "rank (cr_status y) \<le> rank (cr_status z)"
    using step.hyps(2) by (auto simp: row_evolves_def dest: lifecycle_rank)
  moreover have "z = y" if "is_terminal (cr_status y)"
    using step.hyps(2) that by (cases "cr_status y") (auto simp: row_evolves_def)
  ultimately show ?case
    using step.IH step.hyps(2) by (auto simp: row_evolves_def)
qed simp

section \<open>The contract\<close>

locale request_store =
  fixes call :: "clock \<times> call \<Rightarrow> 's \<Rightarrow> 's \<times> answer"
    and enabled :: "clock \<times> call \<Rightarrow> 's \<Rightarrow> bool"
    and requests :: "'s \<Rightarrow> change_request list"
    and votes :: "'s \<Rightarrow> (uuid \<times> bytes) list"
    and inv :: "'s \<Rightarrow> bool"
  assumes inv_ids: "inv s \<Longrightarrow> distinct (map cr_id (requests s))"
    and inv_call: "inv s \<Longrightarrow> enabled c s \<Longrightarrow> inv (fst (call c s))"
    and rows_call: "inv s \<Longrightarrow> enabled c s \<Longrightarrow>
      rows_evolve (requests s) (requests (fst (call c s)))"
    and votes_call: "inv s \<Longrightarrow> enabled c s \<Longrightarrow> set (votes s) \<subseteq> set (votes (fst (call c s)))"
    and quorum_call: "inv s \<Longrightarrow> enabled c s \<Longrightarrow> r \<in> set (requests s) \<Longrightarrow>
      r' \<in> set (requests (fst (call c s))) \<Longrightarrow> cr_id r' = cr_id r \<Longrightarrow> cr_status r = Pending \<Longrightarrow>
      cr_status r' = Approved \<Longrightarrow> quorum (votes (fst (call c s))) r'"
    and claim_call: "inv s \<Longrightarrow> enabled c s \<Longrightarrow> claimed u (c, snd (call c s)) \<Longrightarrow>
      \<exists>r r'. r \<in> set (requests s) \<and> cr_id r = u \<and> cr_status r = Approved
        \<and> r' \<in> set (requests (fst (call c s))) \<and> cr_id r' = u \<and> cr_status r' = Executing"
begin

lemma session_inv: "inv s \<Longrightarrow> allowed call enabled cs s \<Longrightarrow> inv (fst (session call cs s))"
  by (induction cs arbitrary: s) (auto dest: inv_call)

lemma call_row:
  assumes "inv s" "enabled c s" "r \<in> set (requests s)"
  obtains r' where "r' \<in> set (requests (fst (call c s)))" "row_evolves r r'"
  using rows_call [OF assms(1,2)] assms(3) that by (fastforce simp: rows_evolve_def)

lemma call_row_origin:
  assumes "inv s" "enabled c s" "r' \<in> set (requests (fst (call c s)))"
  shows "cr_status r' = Pending \<or> (\<exists>r\<in>set (requests s). row_evolves r r')"
  using rows_call [OF assms(1,2)] assms(3) by (fastforce simp: rows_evolve_def)

lemma session_row:
  "inv s \<Longrightarrow> allowed call enabled cs s \<Longrightarrow> r \<in> set (requests s)
   \<Longrightarrow> \<exists>r'\<in>set (requests (fst (session call cs s))). row_evolves\<^sup>*\<^sup>* r r'"
proof (induction cs arbitrary: s r)
  case (Cons c cs)
  obtain r1 where "r1 \<in> set (requests (fst (call c s)))" "row_evolves r r1"
    using call_row Cons.prems by (metis allowed.simps(2))
  moreover have "inv (fst (call c s))" "allowed call enabled cs (fst (call c s))"
    using Cons.prems inv_call by auto
  ultimately obtain r2 where "r2 \<in> set (requests (fst (session call cs (fst (call c s)))))"
    "row_evolves\<^sup>*\<^sup>* r1 r2"
    using Cons.IH by blast
  then show ?case
    using \<open>row_evolves r r1\<close>
    by (auto intro: converse_rtranclp_into_rtranclp)
qed auto

lemma session_final:
  assumes "inv s" "allowed call enabled cs s" "r \<in> set (requests s)"
  shows "\<exists>r'\<in>set (requests (fst (session call cs s))).
           frozen r' = frozen r \<and> rank (cr_status r) \<le> rank (cr_status r')
           \<and> (is_terminal (cr_status r) \<longrightarrow> r' = r)"
  using session_row [OF assms] row_evolves_star by blast

text \<open>Every request that left \<open>pending\<close> towards execution has its quorum in the ledger.\<close>

definition quorate :: "'s \<Rightarrow> bool" where
  "quorate s \<longleftrightarrow>
     (\<forall>r\<in>set (requests s). cr_status r \<in> {Approved, Executing, Executed, Failed} \<longrightarrow> quorum (votes s) r)"

lemma quorum_mono:
  assumes "quorum vs r" "set vs \<subseteq> set vs'" "frozen r' = frozen r"
  shows "quorum vs' r'"
proof -
  have "finite {sub. (cr_id r, sub) \<in> set vs'}"
    by (rule finite_subset [of _ "snd ` set vs'"]) force+
  then have "card {sub. (cr_id r, sub) \<in> set vs} \<le> card {sub. (cr_id r, sub) \<in> set vs'}"
    using assms(2) by (intro card_mono) auto
  then show ?thesis
    using assms(1) frozen_fields(1,4) [OF assms(3)] by (auto simp: quorum_def)
qed

lemma quorate_call:
  assumes "inv s" "enabled c s" "quorate s"
  shows "quorate (fst (call c s))"
  unfolding quorate_def
proof (intro ballI impI)
  fix r' assume r': "r' \<in> set (requests (fst (call c s)))"
    "cr_status r' \<in> {Approved, Executing, Executed, Failed}"
  then obtain r where r: "r \<in> set (requests s)" "row_evolves r r'"
    using call_row_origin [OF assms(1,2)] by fastforce
  show "quorum (votes (fst (call c s))) r'"
  proof (cases "cr_status r = Pending")
    case True
    then have "cr_status r' = Approved"
      using r r' by (auto simp: row_evolves_def)
    then show ?thesis
      using quorum_call [OF assms(1,2) r(1) r'(1)] True r row_evolves_id by blast
  next
    case False
    then have "cr_status r \<in> {Approved, Executing, Executed, Failed}"
      using r(2) r'(2) by (cases "cr_status r") (auto simp: row_evolves_def)
    then have "quorum (votes s) r"
      using assms(3) r by (auto simp: quorate_def)
    then show ?thesis
      using quorum_mono votes_call [OF assms(1,2)] r(2) by (auto simp: row_evolves_def)
  qed
qed

lemma session_quorate:
  "inv s \<Longrightarrow> allowed call enabled cs s \<Longrightarrow> quorate s \<Longrightarrow> quorate (fst (session call cs s))"
  by (induction cs arbitrary: s) (auto dest: inv_call quorate_call)

text \<open>A request is claimed for execution at most once.\<close>

lemma row_unique:
  "inv s \<Longrightarrow> r \<in> set (requests s) \<Longrightarrow> r' \<in> set (requests s) \<Longrightarrow> cr_id r = cr_id r' \<Longrightarrow> r = r'"
  using inv_ids [of s] by (auto simp: distinct_map inj_on_def)

lemma no_claim_after:
  assumes "inv s" "allowed call enabled cs s" "r \<in> set (requests s)" "cr_id r = u"
    "rank (cr_status r) \<ge> 2"
  shows "filter (claimed u) (zip cs (snd (session call cs s))) = []"
  using assms
proof (induction cs arbitrary: s r)
  case (Cons c cs)
  then have en: "enabled c s" by simp
  obtain r1 where r1: "r1 \<in> set (requests (fst (call c s)))" "row_evolves r r1"
    using call_row Cons.prems en by blast
  have "\<not> claimed u (c, snd (call c s))"
  proof
    assume "claimed u (c, snd (call c s))"
    then obtain q where "q \<in> set (requests s)" "cr_id q = u" "cr_status q = Approved"
      using claim_call Cons.prems(1) en by blast
    then show False
      using row_unique [OF Cons.prems(1), of q r] Cons.prems by auto
  qed
  moreover have "filter (claimed u) (zip cs (snd (session call cs (fst (call c s))))) = []"
    using r1 Cons.prems inv_call en row_evolves_star [of r r1] frozen_fields(1) [of r1 r]
    by (intro Cons.IH [of _ r1]) (auto simp: r_into_rtranclp)
  ultimately show ?case by simp
qed simp

lemma session_claims:
  assumes "inv s" "allowed call enabled cs s"
  shows "length (filter (claimed u) (zip cs (snd (session call cs s)))) \<le> 1"
  using assms
proof (induction cs arbitrary: s)
  case (Cons c cs)
  let ?s = "fst (call c s)"
  have s: "inv ?s" "allowed call enabled cs ?s"
    using Cons.prems inv_call by auto
  show ?case
  proof (cases "claimed u (c, snd (call c s))")
    case True
    then obtain r' where "r' \<in> set (requests ?s)" "cr_id r' = u" "cr_status r' = Executing"
      using claim_call Cons.prems by (metis allowed.simps(2))
    then have "filter (claimed u) (zip cs (snd (session call cs ?s))) = []"
      using no_claim_after [OF s, of r' u] by simp
    then show ?thesis by simp
  next
    case False
    then show ?thesis using Cons.IH [OF s] by simp
  qed
qed simp

end

section \<open>Table updates\<close>

lemma rows_evolve_same [simp]: "rows_evolve rs rs"
  unfolding rows_evolve_def by (intro exI [of _ "\<lambda>r. r"] exI [of _ "[]"]) simp

lemma rows_evolve_append [simp]: "cr_status r = Pending \<Longrightarrow> rows_evolve rs (rs @ [r])"
  unfolding rows_evolve_def by (intro exI [of _ "\<lambda>r. r"] exI [of _ "[r]"]) simp

lemma rows_evolve_update:
  "(\<And>r. p r \<Longrightarrow> row_evolves r (f r)) \<Longrightarrow> rows_evolve rs (map (\<lambda>r. if p r then f r else r) rs)"
  unfolding rows_evolve_def
  by (intro exI [of _ "\<lambda>r. if p r then f r else r"] exI [of _ "[]"]) simp

lemma map_update_ids:
  "(\<And>r. k (f r) = k r) \<Longrightarrow> map k (map (\<lambda>r. if p r then f r else r) rs) = map k rs"
  by (induction rs) auto

lemma updated_row:
  assumes "distinct (map k rs)" "r \<in> set rs" "r' \<in> set (map (\<lambda>r. if p r then f r else r) rs)"
    "k r' = k r" "\<And>r. k (f r) = k r"
  shows "r' = (if p r then f r else r)"
proof -
  obtain q where "q \<in> set rs" "r' = (if p q then f q else q)" using assms(3) by auto
  moreover from this have "k q = k r" using assms(4,5) by (auto split: if_splits)
  ultimately show ?thesis using assms(1,2) by (auto simp: distinct_map inj_on_def)
qed

lemma found_row:
  assumes "find p rs = Some r"
  shows "r \<in> set rs" "p r" "f r \<in> set (map (\<lambda>r. if p r then f r else r) rs)"
  using assms by (auto simp: find_Some_iff image_iff intro!: bexI [of _ r])

lemma frozen_updates [simp]:
  "frozen (r\<lparr>cr_status := st, cr_approver_sub := a, cr_decided_at := d\<rparr>) = frozen r"
  "frozen (r\<lparr>cr_status := st, cr_approver_sub := a, cr_denied_reason := w, cr_decided_at := d\<rparr>) = frozen r"
  "frozen (r\<lparr>cr_status := st\<rparr>) = frozen r"
  "frozen (r\<lparr>cr_status := st, cr_execution_result := v, cr_executed_at := d\<rparr>) = frozen r"
  "frozen (r\<lparr>cr_status := st, cr_error_message := m, cr_executed_at := d\<rparr>) = frozen r"
  by (simp_all add: frozen_def)

lemma card_votes:
  assumes "distinct vs"
  shows "card {sub. (u, sub) \<in> set vs} = length (filter (\<lambda>v. fst v = u) vs)"
proof -
  have "{sub. (u, sub) \<in> set vs} = snd ` set (filter (\<lambda>v. fst v = u) vs)"
    by force
  moreover have "inj_on snd (set (filter (\<lambda>v. fst v = u) vs))"
    by (auto simp: inj_on_def)
  ultimately show ?thesis
    using assms distinct_card [OF distinct_filter [OF assms]] by (simp add: card_image)
qed

section \<open>The Postgres tables meet the contract\<close>

definition vote_of :: "'a approval_scheme \<Rightarrow> uuid \<times> bytes" where
  "vote_of a = (a_change_request_id a, a_approver_sub a)"

definition pg_votes :: "pg_store \<Rightarrow> (uuid \<times> bytes) list" where
  "pg_votes s = map vote_of (change_request_approvals s)"

text \<open>The keys of the three tables, and the tenant column the approvals and secrets repeat.\<close>

definition pg_inv :: "pg_store \<Rightarrow> bool" where
  "pg_inv s \<longleftrightarrow>
     distinct (map cr_id (change_requests s)) \<and> distinct (pg_votes s)
     \<and> distinct (map ps_change_request_id (change_request_secrets s))
     \<and> (\<forall>a\<in>set (change_request_approvals s). \<exists>r\<in>set (change_requests s).
          cr_id r = a_change_request_id a \<and> cr_tenant_id r = a_tenant_id a)"

definition pg_enabled :: "clock \<times> call \<Rightarrow> pg_store \<Rightarrow> bool" where
  "pg_enabled c s = True"

lemmas pg_ops = pg_propose_def pg_try_approve_def pg_record_approval_def pg_try_deny_def
  pg_try_begin_execution_def pg_mark_executed_def pg_mark_failed_def pg_store_secret_def
  pg_try_burn_secret_def update_where_def insert_approval_def

lemma pg_requests_call: "rows_evolve (change_requests s) (change_requests (fst (pg_call c s)))"
proof (cases "(c, s)" rule: pg_call.cases)
  case (3 now db aid tid u sub s)
  then show ?thesis
    by (auto simp: pg_ops Let_def row_evolves_def split: option.splits sum.splits if_splits
        intro!: rows_evolve_update)
qed (auto simp: pg_ops Let_def row_evolves_def proposed_row_def split: sum.splits
      intro!: rows_evolve_update rows_evolve_append)

lemma pg_ids_call:
  "distinct (map cr_id (change_requests s))
   \<Longrightarrow> distinct (map cr_id (change_requests (fst (pg_call c s))))"
proof (cases "(c, s)" rule: pg_call.cases)
  case (3 now db aid tid u sub s')
  assume "distinct (map cr_id (change_requests s))"
  then show ?thesis
    using 3 by (auto simp: pg_ops Let_def map_update_ids simp del: map_map
        split: option.splits sum.splits if_splits)
qed (auto simp: pg_ops Let_def map_update_ids proposed_row_def simp del: map_map
      split: sum.splits)

text \<open>What a call adds to the ledger.\<close>

lemma pg_approvals_call:
  "change_request_approvals (fst (pg_call c s)) = change_request_approvals s
   \<or> (\<exists>k aid tid u sub t. c = (k, RecordApproval aid tid u sub)
        \<and> (u, sub) \<notin> set (pg_votes s) 
        \<and> (\<exists>r\<in>set (change_requests s). cr_id r = u \<and> cr_tenant_id r = tid)
        \<and> change_request_approvals (fst (pg_call c s)) = change_request_approvals s
             @ [\<lparr>a_change_request_id = u, a_tenant_id = tid, a_approver_sub = sub, pa_id = aid,
                 pa_created_at = t\<rparr>])"
proof (cases "(c, s)" rule: pg_call.cases)
  case (3 now db aid tid u sub s')
  then show ?thesis
    by (auto simp: pg_ops pg_votes_def vote_of_def list_ex_iff Let_def image_iff
        split: option.splits sum.splits if_splits dest: found_row(1,2))
qed (auto simp: pg_ops Let_def split: sum.splits)

lemma pg_votes_call:
  assumes "distinct (pg_votes s)"
  shows "distinct (pg_votes (fst (pg_call c s)))" "set (pg_votes s) \<subseteq> set (pg_votes (fst (pg_call c s)))"
  using pg_approvals_call [of c s] assms by (auto simp: pg_votes_def vote_of_def)

lemma pg_secret_ids_call:
  "distinct (map ps_change_request_id (change_request_secrets s))
   \<Longrightarrow> distinct (map ps_change_request_id (change_request_secrets (fst (pg_call c s))))"
proof (cases "(c, s)" rule: pg_call.cases)
  case (3 now db aid tid u sub s')
  assume "distinct (map ps_change_request_id (change_request_secrets s))"
  then show ?thesis
    using 3 by (auto simp: pg_ops Let_def split: option.splits sum.splits if_splits)
qed (auto simp: pg_ops Let_def map_update_ids simp del: map_map split: sum.splits)

lemma rows_evolve_row:
  "rows_evolve rs rs' \<Longrightarrow> r \<in> set rs \<Longrightarrow> \<exists>r'\<in>set rs'. row_evolves r r'"
  by (fastforce simp: rows_evolve_def)

lemma pg_inv_call:
  assumes "pg_inv s"
  shows "pg_inv (fst (pg_call c s))"
  unfolding pg_inv_def
proof (intro conjI ballI)
  let ?s = "fst (pg_call c s)"
  show "distinct (map cr_id (change_requests ?s))" "distinct (pg_votes ?s)"
    "distinct (map ps_change_request_id (change_request_secrets ?s))"
    using assms pg_ids_call pg_votes_call pg_secret_ids_call by (auto simp: pg_inv_def)
  fix a assume a: "a \<in> set (change_request_approvals ?s)"
  have "\<exists>r\<in>set (change_requests s). cr_id r = a_change_request_id a \<and> cr_tenant_id r = a_tenant_id a"
    using a pg_approvals_call [of c s] assms
    by (auto simp: pg_inv_def) auto
  then show "\<exists>r\<in>set (change_requests ?s). cr_id r = a_change_request_id a \<and> cr_tenant_id r = a_tenant_id a"
    using rows_evolve_row [OF pg_requests_call [of s c]] frozen_fields
    by (metis row_evolves_def)
qed

lemma pg_record_approval_quorum:
  assumes "pg_inv s" "r \<in> set (change_requests s)" "cr_status r = Pending"
    "r' \<in> set (change_requests (fst (pg_record_approval now db aid tid u sub s)))"
    "cr_id r' = cr_id r" "cr_status r' = Approved"
  shows "quorum (pg_votes (fst (pg_record_approval now db aid tid u sub s))) r'"
proof -
  let ?s = "fst (pg_record_approval now db aid tid u sub s)"
  let ?n = "int (length (filter (\<lambda>a. a_change_request_id a = u) (change_request_approvals ?s)))"
  let ?p = "\<lambda>r. cr_id r = u \<and> cr_tenant_id r = tid \<and> cr_status r = Pending
                \<and> cr_expires_at r > db \<and> cr_required_approvals r \<le> ?n"
  let ?f = "\<lambda>r. r\<lparr>cr_status := Approved, cr_approver_sub := Some sub, cr_decided_at := Some db\<rparr>"
  have ids: "distinct (map cr_id (change_requests s))"
    using assms(1) by (simp add: pg_inv_def)
  have "change_requests ?s = change_requests s
      \<or> change_requests ?s = map (\<lambda>r. if ?p r then ?f r else r) (change_requests s)"
    by (auto simp: pg_ops Let_def split: option.splits sum.splits if_splits)
  moreover have "change_requests ?s \<noteq> change_requests s"
  proof
    assume "change_requests ?s = change_requests s"
    then have "r' \<in> set (change_requests s)" using assms(4) by simp
    then show False using ids assms by (auto simp: distinct_map inj_on_def)
  qed
  ultimately have "r' \<in> set (map (\<lambda>r. if ?p r then ?f r else r) (change_requests s))"
    using assms(4) by simp
  then have "r' = (if ?p r then ?f r else r)"
    by (rule updated_row [OF ids assms(2)]) (simp_all add: assms(5))
  then have "cr_id r' = u" "cr_required_approvals r' \<le> ?n"
    using assms(3,6) by (simp_all split: if_splits)
  moreover have "distinct (pg_votes ?s)"
    using pg_votes_call(1) [of s "((now, db), RecordApproval aid tid u sub)"] assms(1)
    by (simp add: pg_inv_def)
  then have "int (card {sub. (u, sub) \<in> set (pg_votes ?s)}) = ?n"
    by (simp add: card_votes) (simp add: pg_votes_def vote_of_def filter_map comp_def)
  ultimately show ?thesis by (simp add: quorum_def)
qed

lemma pg_quorum_call:
  assumes "pg_inv s" "r \<in> set (change_requests s)" "r' \<in> set (change_requests (fst (pg_call c s)))"
    "cr_id r' = cr_id r" "cr_status r = Pending" "cr_status r' = Approved"
  shows "quorum (pg_votes (fst (pg_call c s))) r'"
proof -
  have ids: "distinct (map cr_id (change_requests s))"
    using assms(1) by (simp add: pg_inv_def)
  note upd = updated_row [where k = cr_id, OF ids assms(2) _ assms(4)]
  have same: False if "r' \<in> set (change_requests s)"
    using that ids assms by (auto simp: distinct_map inj_on_def)
  show ?thesis
  proof (cases "(c, s)" rule: pg_call.cases)
    case (2 now db tid u sub s')
    then have "r' \<in> set (fst (update_where
             (\<lambda>r. cr_id r = u \<and> cr_tenant_id r = tid \<and> cr_status r = Pending
                  \<and> cr_expires_at r > db \<and> cr_required_approvals r = 1)
             (\<lambda>r. r\<lparr>cr_status := Approved, cr_approver_sub := Some sub,
                    cr_decided_at := Some db\<rparr>) (change_requests s)))"
      using assms(3) by (simp add: pg_try_approve_def split: prod.splits)
    then have "cr_required_approvals r' = 1"
      unfolding update_where_def fst_conv by (drule_tac upd) (use assms in \<open>auto split: if_splits\<close>)
    then show ?thesis by (simp add: quorum_def)
  next
    case (3 now db aid tid u sub s')
    then show ?thesis using pg_record_approval_quorum assms by simp
  qed (use assms same in \<open>auto simp: pg_ops Let_def proposed_row_def split: sum.splits if_splits\<close>)
qed

lemma claimed_cases:
  assumes "claimed u (c, a)"
  obtains k tid x where "c = (k, TryBeginExecution tid u)" "a = Row (Some x)"
  using assms by (cases "(u, (c, a))" rule: claimed.cases) auto

lemma pg_claim_call:
  assumes "claimed u (c, snd (pg_call c s))"
  shows "\<exists>r r'. r \<in> set (change_requests s) \<and> cr_id r = u \<and> cr_status r = Approved
    \<and> r' \<in> set (change_requests (fst (pg_call c s))) \<and> cr_id r' = u \<and> cr_status r' = Executing"
  using assms
proof (rule claimed_cases)
  fix k tid x assume c: "c = (k, TryBeginExecution tid u)" "snd (pg_call c s) = Row (Some x)"
  let ?p = "\<lambda>r. cr_id r = u \<and> cr_tenant_id r = tid \<and> cr_status r = Approved"
  let ?f = "\<lambda>r. r\<lparr>cr_status := Executing\<rparr>"
  obtain r where r: "find ?p (change_requests s) = Some r"
    using c by (auto simp: pg_ops split: prod.splits)
  have "change_requests (fst (pg_call c s)) = map (\<lambda>r. if ?p r then ?f r else r) (change_requests s)"
    using c by (cases k) (simp add: pg_ops)
  then show ?thesis
    using found_row(1,2) [OF r] found_row(3) [OF r, of ?f] by (intro exI [of _ r] exI [of _ "?f r"]) auto
qed

interpretation pg: request_store pg_call pg_enabled change_requests pg_votes pg_inv
proof
  fix s :: pg_store and c u assume inv: "pg_inv s"
  show "distinct (map cr_id (change_requests s))" using inv by (simp add: pg_inv_def)
  show "pg_inv (fst (pg_call c s))" using inv by (rule pg_inv_call)
  show "rows_evolve (change_requests s) (change_requests (fst (pg_call c s)))"
    by (rule pg_requests_call)
  show "set (pg_votes s) \<subseteq> set (pg_votes (fst (pg_call c s)))"
    using inv by (intro pg_votes_call) (simp add: pg_inv_def)
  show "\<exists>r r'. r \<in> set (change_requests s) \<and> cr_id r = u \<and> cr_status r = Approved
    \<and> r' \<in> set (change_requests (fst (pg_call c s))) \<and> cr_id r' = u \<and> cr_status r' = Executing"
    if "claimed u (c, snd (pg_call c s))"
    using that by (rule pg_claim_call)
qed (rule pg_quorum_call)

section \<open>The in-memory store simulates the tables\<close>

definition secret_sim :: "mem_secret \<Rightarrow> pg_secret \<Rightarrow> bool" where
  "secret_sim x y \<longleftrightarrow>
     ms_tenant_id x = ps_tenant_id y \<and> ms_change_request_id x = ps_change_request_id y
     \<and> mem_secret_out x = pg_secret_out y \<and> ms_retrieved x = (ps_retrieved_at y \<noteq> None)"

definition rows_sim :: "mem_store \<Rightarrow> pg_store \<Rightarrow> bool" where
  "rows_sim s p \<longleftrightarrow>
     rows s = change_requests p \<and> approvals s = map approval.truncate (change_request_approvals p)"

definition store_sim :: "mem_store \<Rightarrow> pg_store \<Rightarrow> bool" where
  "store_sim s p \<longleftrightarrow> rows_sim s p \<and> list_all2 secret_sim (secrets s) (change_request_secrets p)"

text \<open>
  The calls that stay within the table constraints: fresh identifiers, a known tenant, one secret per
  existing request; and one clock for the host and the database.
\<close>

fun in_constraints :: "clock \<times> call \<Rightarrow> pg_store \<Rightarrow> bool" where
  "in_constraints ((now, db), Propose u new) p \<longleftrightarrow>
     now = db \<and> u \<notin> cr_id ` set (change_requests p) \<and> new_tenant_id new \<in> set (tenants p)"
| "in_constraints ((now, db), RecordApproval aid tid u sub) p \<longleftrightarrow>
     now = db \<and> aid \<notin> pa_id ` set (change_request_approvals p)"
| "in_constraints ((now, db), StoreSecret tid u ct kid) p \<longleftrightarrow>
     now = db \<and> u \<in> cr_id ` set (change_requests p)
     \<and> u \<notin> ps_change_request_id ` set (change_request_secrets p)"
| "in_constraints ((now, db), _) p \<longleftrightarrow> now = db"

lemma key_order:
  "(cr_tenant_id r = tid \<and> cr_id r = u) = (cr_id r = u \<and> cr_tenant_id r = tid)"
  "(cr_tenant_id r = tid \<and> cr_id r = u \<and> X) = (cr_id r = u \<and> cr_tenant_id r = tid \<and> X)"
  by auto

lemma rows_update_first:
  assumes "distinct (map cr_id rs)" "\<And>r. q r \<longleftrightarrow> p r" "\<And>r. p r \<Longrightarrow> cr_id r = u"
  shows "update_first q f rs = update_where p f rs"
proof -
  have "q = p" using assms(2) by auto
  then show ?thesis
    using assms(1,3) by (simp add: update_first_eq_where [of rs p cr_id])
qed

text \<open>A validated proposal satisfies the \<open>CHECK\<close> constraints.\<close>

lemma blank_Nil [simp]: "blank []"
  by (simp add: blank.simps)

lemma validated_checks:
  "validate new = Inr x \<Longrightarrow> change_requests_checks (proposed_row u now new)"
  by (auto simp: validate_def change_requests_checks_def proposed_row_def Let_def
      split: if_splits option.splits)

lemma ledger_tenant:
  assumes "pg_inv p" "find (\<lambda>r. cr_id r = u \<and> cr_tenant_id r = tid) (change_requests p) = Some gate"
    "a \<in> set (change_request_approvals p)" "a_change_request_id a = u"
  shows "a_tenant_id a = tid"
proof -
  obtain r where "r \<in> set (change_requests p)" "cr_id r = u" "cr_tenant_id r = a_tenant_id a"
    using assms by (auto simp: pg_inv_def)
  moreover have "gate \<in> set (change_requests p)" "cr_id gate = u" "cr_tenant_id gate = tid"
    using found_row(1,2) [OF assms(2)] by auto
  ultimately show ?thesis
    using assms(1) by (auto simp: pg_inv_def distinct_map inj_on_def)
qed

lemma truncate_sel [simp]:
  "a_change_request_id (approval.truncate a) = a_change_request_id a"
  "a_tenant_id (approval.truncate a) = a_tenant_id a"
  "a_approver_sub (approval.truncate a) = a_approver_sub a" "vote_of (approval.truncate a) = vote_of a"
  by (simp_all add: approval.truncate_def vote_of_def)

lemma sim_record_approval:
  assumes "rows_sim s p" "pg_inv p" "aid \<notin> pa_id ` set (change_request_approvals p)"
  shows "\<exists>ans. snd (pg_record_approval t t aid tid u sub p) = Inr ans
    \<and> snd (mem_record_approval t tid u sub s) = ans
    \<and> rows_sim (fst (mem_record_approval t tid u sub s)) (fst (pg_record_approval t t aid tid u sub p))
    \<and> secrets (fst (mem_record_approval t tid u sub s)) = secrets s
    \<and> change_request_secrets (fst (pg_record_approval t t aid tid u sub p)) = change_request_secrets p"
proof (cases "find (\<lambda>r. cr_id r = u \<and> cr_tenant_id r = tid) (change_requests p)")
  case None
  then show ?thesis
    using assms(1) by (simp add: mem_record_approval_def pg_record_approval_def rows_sim_def key_order)
next
  case (Some gate)
  let ?A = "change_request_approvals p"
  let ?new = "\<lparr>a_change_request_id = u, a_tenant_id = tid, a_approver_sub = sub, pa_id = aid,
               pa_created_at = t\<rparr>"
  define cnt where "cnt = (cr_status gate = Pending \<and> cr_expires_at gate > t)"
  define dup where "dup = list_ex (\<lambda>a. a_change_request_id a = u \<and> a_approver_sub a = sub) ?A"
  define apps where "apps = (if cnt \<and> \<not> dup then ?A @ [?new] else ?A)"
  define n where "n = int (length (filter (\<lambda>a. a_change_request_id a = u) apps))"
  have ten: "a_tenant_id a = tid" if "a \<in> set ?A" "a_change_request_id a = u" for a
    using ledger_tenant [OF assms(2) Some that] .
  have dup_mem: "list_ex (\<lambda>a. a_change_request_id a = u \<and> a_tenant_id a = tid
                              \<and> a_approver_sub a = sub) (approvals s) = dup"
    using assms(1) ten by (auto simp: rows_sim_def dup_def list_ex_iff)
  have trunc: "approval.truncate ?new
      = \<lparr>a_change_request_id = u, a_tenant_id = tid, a_approver_sub = sub\<rparr>"
    by (simp add: approval.truncate_def)
  have "filter (\<lambda>a. a_change_request_id a = u \<and> a_tenant_id a = tid) apps
      = filter (\<lambda>a. a_change_request_id a = u) apps"
    using ten by (cases "cnt \<and> \<not> dup") (auto simp: apps_def intro!: filter_cong)
  then have n_mem: "int (length (filter (\<lambda>a. a_change_request_id a = u \<and> a_tenant_id a = tid)
                        (map approval.truncate apps))) = n"
    by (simp add: n_def filter_map comp_def)
  let ?p = "\<lambda>r. cr_id r = u \<and> cr_tenant_id r = tid \<and> cr_status r = Pending
                \<and> cr_expires_at r > t \<and> cr_required_approvals r \<le> n"
  let ?f = "\<lambda>r. r\<lparr>cr_status := Approved, cr_approver_sub := Some sub, cr_decided_at := Some t\<rparr>"
  obtain rs res where upd: "update_where ?p ?f (change_requests p) = (rs, res)" by fastforce
  have ins: "(if cnt then insert_approval aid t tid u sub ?A else Inr (?A, 0))
      = Inr (apps, if cnt \<and> \<not> dup then 1 else 0)"
  proof -
    have "\<not> list_ex (\<lambda>a. pa_id a = aid) ?A" using assms(3) by (auto simp: list_ex_iff)
    then show ?thesis unfolding insert_approval_def apps_def dup_def [symmetric] by simp
  qed
  have pg: "pg_record_approval t t aid tid u sub p
      = (p\<lparr>change_requests := rs, change_request_approvals := apps\<rparr>,
         Inr \<lparr>collected = n, required = cr_required_approvals gate, recorded = (cnt \<and> \<not> dup),
              counted = cnt, approved = res\<rparr>)"
    unfolding pg_record_approval_def Some option.case Let_def cnt_def [symmetric] ins sum.case prod.case
      n_def [symmetric] upd
    by simp
  have "update_first (\<lambda>r. cr_tenant_id r = tid \<and> cr_id r = u \<and> cr_status r = Pending
                \<and> cr_expires_at r > t \<and> cr_required_approvals r \<le> n) ?f (change_requests p) = (rs, res)"
    using assms(2) upd by (subst rows_update_first [where p = ?p and u = u]) (auto simp: pg_inv_def)
  moreover have "map approval.truncate apps
      = (if cnt \<and> \<not> dup then approvals s @ [\<lparr>a_change_request_id = u, a_tenant_id = tid, a_approver_sub = sub\<rparr>]
         else approvals s)"
    using assms(1) trunc by (simp add: rows_sim_def apps_def)
  ultimately have "mem_record_approval t tid u sub s
      = (s\<lparr>rows := rs, approvals := map approval.truncate apps\<rparr>,
         \<lparr>collected = n, required = cr_required_approvals gate, recorded = (cnt \<and> \<not> dup),
          counted = cnt, approved = res\<rparr>)"
    using assms(1) Some n_mem dup_mem
    by (simp add: mem_record_approval_def rows_sim_def Let_def key_order(1) cnt_def [symmetric]
        del: filter_map map_append)
  then show ?thesis by (simp add: pg rows_sim_def)
qed

lemma update_first_sim:
  assumes "list_all2 R xs ys" "distinct (map k ys)" "\<And>y. q y \<Longrightarrow> k y = u"
    "\<And>x y. R x y \<Longrightarrow> p x \<longleftrightarrow> q y" "\<And>x y. R x y \<Longrightarrow> p x \<Longrightarrow> R (f x) (g y)"
  shows "list_all2 R (fst (update_first p f xs)) (fst (update_where q g ys))
    \<and> rel_option R (snd (update_first p f xs)) (snd (update_where q g ys))"
  using assms(1,2)
proof (induction rule: list_all2_induct)
  case (Cons x xs y ys)
  show ?case
  proof (cases "p x")
    case True
    then have q: "q y" using assms(4) Cons by blast
    then have "\<not> q z" if "z \<in> set ys" for z
      using that Cons.prems assms(3) by (metis distinct.simps(2) image_eqI list.set_map list.simps(9))
    then have "map (\<lambda>z. if q z then g z else z) ys = ys" by (auto intro: map_idI)
    then show ?thesis using True q Cons assms(5) by (simp add: update_where_def)
  next
    case False
    then have "\<not> q y" using assms(4) Cons by blast
    moreover have "distinct (map k ys)" using Cons.prems by simp
    ultimately show ?thesis
      using False Cons.IH Cons.hyps by (auto simp: update_where_def split: prod.splits)
  qed
qed (simp add: update_where_def)

lemma sim_burn:
  assumes "list_all2 secret_sim (secrets s) (change_request_secrets p)" "pg_inv p"
  shows "list_all2 secret_sim (secrets (fst (mem_try_burn_secret tid u s)))
           (change_request_secrets (fst (pg_try_burn_secret t tid u p)))
    \<and> snd (mem_try_burn_secret tid u s) = snd (pg_try_burn_secret t tid u p)"
proof -
  let ?q = "\<lambda>x. ms_tenant_id x = tid \<and> ms_change_request_id x = u \<and> \<not> ms_retrieved x"
  let ?p = "\<lambda>x. ps_change_request_id x = u \<and> ps_tenant_id x = tid \<and> ps_retrieved_at x = None"
  have "list_all2 secret_sim (fst (update_first ?q (\<lambda>x. x\<lparr>ms_retrieved := True\<rparr>) (secrets s)))
      (fst (update_where ?p (\<lambda>x. x\<lparr>ps_retrieved_at := Some t\<rparr>) (change_request_secrets p)))
    \<and> rel_option secret_sim (snd (update_first ?q (\<lambda>x. x\<lparr>ms_retrieved := True\<rparr>) (secrets s)))
      (snd (update_where ?p (\<lambda>x. x\<lparr>ps_retrieved_at := Some t\<rparr>) (change_request_secrets p)))"
    using assms
    by (intro update_first_sim [where k = ps_change_request_id and u = u])
       (auto simp: pg_inv_def secret_sim_def mem_secret_out_def pg_secret_out_def)
  then show ?thesis
    by (auto simp: mem_try_burn_secret_def pg_try_burn_secret_def secret_sim_def option_rel_Some1
        split: prod.splits elim!: option.rel_cases)
qed

lemma key_update:
  assumes "pg_inv p"
  shows "update_first (\<lambda>r. cr_tenant_id r = tid \<and> cr_id r = u \<and> Q r) f (change_requests p)
    = update_where (\<lambda>r. cr_id r = u \<and> cr_tenant_id r = tid \<and> Q r) f (change_requests p)"
  using assms by (subst rows_update_first [where u = u]) (auto simp: pg_inv_def)

text \<open>One call: the same answer, and related states again.\<close>

fun secret_call :: "clock \<times> call \<Rightarrow> bool" where
  "secret_call (_, StoreSecret _ _ _ _) = True"
| "secret_call (_, TryBurnSecret _ _) = True"
| "secret_call _ = False"

lemma sim_rows_call:
  assumes "rows_sim s p" "pg_inv p" "in_constraints c p" "\<not> secret_call c"
  shows "snd (mem_call c s) = snd (pg_call c p) \<and> rows_sim (fst (mem_call c s)) (fst (pg_call c p))
    \<and> secrets (fst (mem_call c s)) = secrets s
    \<and> change_request_secrets (fst (pg_call c p)) = change_request_secrets p"
proof (cases "(c, p)" rule: pg_call.cases)
  case (1 now db u new p')
  then show ?thesis
    using assms validated_checks [of new _ u now]
    by (auto simp: mem_propose_def pg_propose_def rows_sim_def Let_def proposed_row_def
        split: sum.splits)
next
  case (3 now db aid tid u sub p')
  then show ?thesis
    using sim_record_approval [OF assms(1,2), of aid now tid u sub] assms(3) by auto
qed (use assms key_update [OF assms(2)] in \<open>auto simp: mem_try_approve_def pg_try_approve_def mem_try_deny_def
      pg_try_deny_def mem_try_begin_execution_def pg_try_begin_execution_def mem_mark_executed_def
      pg_mark_executed_def mem_mark_failed_def pg_mark_failed_def rows_sim_def split: prod.splits\<close>)

lemma sim_call:
  assumes "store_sim s p" "pg_inv p" "in_constraints c p"
  shows "snd (mem_call c s) = snd (pg_call c p) \<and> store_sim (fst (mem_call c s)) (fst (pg_call c p))"
proof (cases "secret_call c")
  case False
  then show ?thesis
    using sim_rows_call [OF _ assms(2,3) False] assms(1) by (auto simp: store_sim_def)
next
  case True
  have sim: "rows_sim s p" "list_all2 secret_sim (secrets s) (change_request_secrets p)"
    using assms(1) by (simp_all add: store_sim_def)
  show ?thesis
  proof (cases "(c, p)" rule: pg_call.cases)
    case (8 now db tid u ct kid p')
    then show ?thesis
      using assms(3) sim
      by (auto simp: mem_store_secret_def pg_store_secret_def store_sim_def rows_sim_def
          secret_sim_def mem_secret_out_def pg_secret_out_def intro!: list_all2_appendI)
  next
    case (9 now db tid u p')
    then show ?thesis
      using sim_burn [OF sim(2) assms(2), of tid u db] sim(1)
      by (auto simp: store_sim_def rows_sim_def mem_try_burn_secret_def pg_try_burn_secret_def
          split: prod.splits)
  qed (use True in auto)
qed

section \<open>The in-memory store meets the contract\<close>

text \<open>The tables that hold what the vectors hold.\<close>

definition as_pg :: "bytes list \<Rightarrow> mem_store \<Rightarrow> pg_store" where
  "as_pg tids s =
     \<lparr>tenants = tids, change_requests = rows s,
      change_request_approvals =
        map (\<lambda>a. approval.extend a \<lparr>pa_id = 0, pa_created_at = 0\<rparr>) (approvals s),
      change_request_secrets = []\<rparr>"

definition mem_votes :: "mem_store \<Rightarrow> (uuid \<times> bytes) list" where
  "mem_votes s = map vote_of (approvals s)"

definition mem_inv :: "mem_store \<Rightarrow> bool" where
  "mem_inv s \<longleftrightarrow>
     distinct (map cr_id (rows s)) \<and> distinct (mem_votes s)
     \<and> (\<forall>a\<in>set (approvals s). \<exists>r\<in>set (rows s).
          cr_id r = a_change_request_id a \<and> cr_tenant_id r = a_tenant_id a)"

text \<open>The vectors have no primary key: identifiers must be fresh, as \<open>Uuid::now_v7\<close> promises.\<close>

fun mem_enabled :: "clock \<times> call \<Rightarrow> mem_store \<Rightarrow> bool" where
  "mem_enabled (_, Propose u _) s \<longleftrightarrow> u \<notin> cr_id ` set (rows s)"
| "mem_enabled _ s \<longleftrightarrow> True"

fun as_pg_call :: "clock \<times> call \<Rightarrow> clock \<times> call" where
  "as_pg_call ((now, _), RecordApproval _ tid u sub) = ((now, now), RecordApproval 1 tid u sub)"
| "as_pg_call ((now, _), c) = ((now, now), c)"

fun call_tenants :: "clock \<times> call \<Rightarrow> bytes list" where
  "call_tenants (_, Propose _ new) = [new_tenant_id new]"
| "call_tenants _ = []"

lemma extend_approval [simp]:
  "a_change_request_id (approval.extend a x) = a_change_request_id a"
  "a_tenant_id (approval.extend a x) = a_tenant_id a"
  "a_approver_sub (approval.extend a x) = a_approver_sub a"
  "vote_of (approval.extend a x) = vote_of a" "approval.truncate (approval.extend a x) = a"
  "pa_id (approval.extend a \<lparr>pa_id = i, pa_created_at = t\<rparr>) = i"
  by (simp_all add: approval.defs vote_of_def)

lemma as_pg_sim:
  "rows_sim s (as_pg tids s)" "pg_votes (as_pg tids s) = mem_votes s" "change_requests (as_pg tids s) = rows s"
  "pg_inv (as_pg tids s) \<longleftrightarrow> mem_inv s"
  by (auto simp: rows_sim_def as_pg_def pg_votes_def mem_votes_def comp_def pg_inv_def mem_inv_def)

lemma rows_sim_inv: "rows_sim s p \<Longrightarrow> pg_inv p \<Longrightarrow> mem_inv s \<and> mem_votes s = pg_votes p"
  by (auto simp: rows_sim_def pg_inv_def mem_inv_def mem_votes_def pg_votes_def comp_def)

lemma mem_call_as_pg:
  assumes "mem_inv s" "mem_enabled c s" "\<not> secret_call c"
  defines "p \<equiv> as_pg (call_tenants c) s" and "d \<equiv> as_pg_call c"
  shows "snd (mem_call c s) = snd (pg_call d p) \<and> rows_sim (fst (mem_call c s)) (fst (pg_call d p))"
proof -
  have "in_constraints d p"
    using assms(2,3) unfolding d_def p_def
    by (cases c rule: as_pg_call.cases) (auto simp: as_pg_def)
  moreover have "mem_call d s = mem_call c s"
    unfolding d_def by (cases c rule: as_pg_call.cases) auto
  moreover have "\<not> secret_call d"
    using assms(3) unfolding d_def by (cases c rule: as_pg_call.cases) auto
  ultimately show ?thesis
    using sim_rows_call [of s p d] assms(1) as_pg_sim by (auto simp: p_def)
qed

lemma mem_secret_call:
  assumes "secret_call c"
  shows "rows (fst (mem_call c s)) = rows s" "approvals (fst (mem_call c s)) = approvals s"
    "\<not> claimed u (c, a)"
  using assms
  by (cases "(c, s)" rule: mem_call.cases;
      auto simp: mem_store_secret_def mem_try_burn_secret_def split: prod.splits)+

lemma mem_contract:
  assumes "mem_inv s" "mem_enabled c s"
  shows "mem_inv (fst (mem_call c s))"
    and "rows_evolve (rows s) (rows (fst (mem_call c s)))"
    and "set (mem_votes s) \<subseteq> set (mem_votes (fst (mem_call c s)))"
    and "r \<in> set (rows s) \<Longrightarrow> r' \<in> set (rows (fst (mem_call c s))) \<Longrightarrow> cr_id r' = cr_id r \<Longrightarrow>
      cr_status r = Pending \<Longrightarrow> cr_status r' = Approved \<Longrightarrow> quorum (mem_votes (fst (mem_call c s))) r'"
    and "claimed u (c, snd (mem_call c s)) \<Longrightarrow>
      \<exists>r r'. r \<in> set (rows s) \<and> cr_id r = u \<and> cr_status r = Approved
        \<and> r' \<in> set (rows (fst (mem_call c s))) \<and> cr_id r' = u \<and> cr_status r' = Executing"
proof -
  let ?p = "as_pg (call_tenants c) s" and ?d = "as_pg_call c"
  let ?s' = "fst (mem_call c s)" and ?p' = "fst (pg_call ?d ?p)"
  have p: "pg_inv ?p" "pg_inv ?p'" and eq: "change_requests ?p = rows s" "pg_votes ?p = mem_votes s"
    using assms(1) pg_inv_call by (simp_all add: as_pg_sim)
  have *: "mem_inv ?s'" "change_requests ?p' = rows ?s'" "pg_votes ?p' = mem_votes ?s'"
    "snd (mem_call c s) = snd (pg_call ?d ?p)" if "\<not> secret_call c"
    using mem_call_as_pg [OF assms that] rows_sim_inv [OF _ p(2)] by (auto simp: rows_sim_def)
  have same: "mem_inv ?s'" "rows ?s' = rows s" "mem_votes ?s' = mem_votes s" if "secret_call c"
    using mem_secret_call [OF that] assms(1) by (simp_all add: mem_inv_def mem_votes_def)
  have distinct: "distinct (map cr_id (rows s))" using assms(1) by (simp add: mem_inv_def)
  show "mem_inv ?s'" using * same by blast
  show "rows_evolve (rows s) (rows ?s')"
    using pg_requests_call [of ?p ?d] eq * same by (cases "secret_call c") auto
  show "set (mem_votes s) \<subseteq> set (mem_votes ?s')"
    using pg_votes_call(2) [of ?p ?d] p(1) eq * same by (cases "secret_call c") (auto simp: pg_inv_def)
  show "quorum (mem_votes ?s') r'"
    if "r \<in> set (rows s)" "r' \<in> set (rows ?s')" "cr_id r' = cr_id r" "cr_status r = Pending"
      "cr_status r' = Approved"
  proof (cases "secret_call c")
    case True
    then have "r' \<in> set (rows s)" using that same by simp
    then show ?thesis using that distinct by (auto simp: distinct_map inj_on_def)
  next
    case False
    then show ?thesis using pg_quorum_call [OF p(1), of r r' ?d] that eq * by simp
  qed
  show "\<exists>r r'. r \<in> set (rows s) \<and> cr_id r = u \<and> cr_status r = Approved
      \<and> r' \<in> set (rows ?s') \<and> cr_id r' = u \<and> cr_status r' = Executing"
    if cl: "claimed u (c, snd (mem_call c s))"
  proof -
    have "\<not> secret_call c" using cl mem_secret_call(3) by blast
    moreover have "claimed u (?d, snd (mem_call c s))"
      using cl by (auto elim!: claimed_cases)
    ultimately show ?thesis
      using pg_claim_call [of u ?d ?p] eq * by auto
  qed
qed

interpretation mem: request_store mem_call mem_enabled rows mem_votes mem_inv
proof
  show "distinct (map cr_id (rows s))" if "mem_inv s" for s
    using that by (simp add: mem_inv_def)
qed (fact mem_contract)+

end
