(* ===== verification/Change_Properties.thy ===== *)
theory Change_Properties
  imports Change_Lifecycle "HOL-Library.Multiset"
begin

text \<open>
  The properties of the change-request store over whole sessions: what is frozen and final, when a
  request may be executed, that an execution is claimed once and a secret delivered once, that the two
  implementations agree, and the exact behaviour of proposing, listing and projecting.
\<close>

section \<open>Sessions from empty tables\<close>

definition pg_new :: "bytes list \<Rightarrow> pg_store" where
  "pg_new tids =
     \<lparr>tenants = tids, change_requests = [], change_request_approvals = [], change_request_secrets = []\<rparr>"

text \<open>The answers that hand out a stored secret of one request.\<close>

fun delivered :: "uuid \<Rightarrow> (clock \<times> call) \<times> answer \<Rightarrow> bool" where
  "delivered u ((_, TryBurnSecret _ v), Secret (Some _)) = (v = u)"
| "delivered u _ = False"

lemma pg_new_inv [simp]: "pg_inv (pg_new tids)"
  by (simp add: pg_new_def pg_inv_def pg_votes_def)

lemma pg_allowed [simp]: "allowed pg_call pg_enabled cs s"
  by (induction cs arbitrary: s) (simp_all add: pg_enabled_def)

lemma pg_session_inv: "pg_inv s \<Longrightarrow> pg_inv (fst (session pg_call cs s))"
  by (rule pg.session_inv) simp_all

lemma mem_new_inv [simp]: "mem_inv mem_new"
  by (simp add: mem_new_def mem_inv_def mem_votes_def)


section \<open>A sample session\<close>

definition sample_new :: new_change_request where
  "sample_new =
     \<lparr>new_tenant_id = ''acme'', new_requested_by = ''agent'', new_client_id = None,
      new_action_type = ''api_key.mint'', new_params = ''{}'', new_preview = None,
      new_target_etag = None, new_justification = ''rotation'',
      new_requirement = \<lparr>required_approvals = 2, eligible_role = ''admin'', factors = [''mfa''],
                         cooldown_seconds = Some 0\<rparr>,
      new_expires_at = 100\<rparr>"

definition sample_session :: "(clock \<times> call) list" where
  "sample_session =
     [((1, 1), Propose 7 sample_new),
      ((2, 2), RecordApproval 11 ''acme'' 7 ''ann''),
      ((3, 3), RecordApproval 12 ''acme'' 7 ''ann''),
      ((4, 4), RecordApproval 13 ''acme'' 7 ''bob''),
      ((5, 5), TryBeginExecution ''acme'' 7),
      ((6, 6), StoreSecret ''acme'' 7 ''ct'' ''k1''),
      ((7, 7), MarkExecuted ''acme'' 7 ''{}'')]"

lemma sample_not_blank:
  "\<not> blank ''rotation''" "\<not> blank ''api_key.mint''" "\<not> blank ''admin''"
  by code_simp+

lemma sample_valid: "validate sample_new = Inr ()"
  by (simp add: validate_def sample_new_def sample_not_blank Let_def factor_from_db_str_def)

definition sample_row :: change_request where
  "sample_row = proposed_row 7 1 sample_new"

lemma sample_row_sel [simp]:
  "cr_id sample_row = 7" "cr_tenant_id sample_row = ''acme''" "cr_status sample_row = Pending"
  "cr_required_approvals sample_row = 2" "cr_expires_at sample_row = 100"
  by (simp_all add: sample_row_def proposed_row_def sample_new_def)

lemma sample_propose:
  "pg_propose 7 1 sample_new (pg_new [''acme''])
   = ((pg_new [''acme''])\<lparr>change_requests := [sample_row]\<rparr>, Inr sample_row)"
  using validated_checks [OF sample_valid, of 7 1]
  by (simp add: pg_propose_def sample_valid sample_row_def [symmetric] Let_def)
     (simp add: pg_new_def)

definition sample_done :: change_request where
  "sample_done = sample_row\<lparr>cr_status := Executed, cr_approver_sub := Some ''bob'',
     cr_decided_at := Some 4, cr_execution_result := Some ''{}'', cr_executed_at := Some 7\<rparr>"

lemma sample_final:
  "change_requests (fst (session pg_call sample_session (pg_new [''acme'']))) = [sample_done]"
  "pg_votes (fst (session pg_call sample_session (pg_new [''acme'']))) = [(7, ''ann''), (7, ''bob'')]"
  by (simp_all add: sample_session_def sample_propose sample_done_def)
     (simp_all add: pg_ops pg_new_def Let_def pg_votes_def vote_of_def)

section \<open>Decisions are final, requirements are frozen\<close>

text \<open>C7: Whatever sequence of calls reached the tables and whatever sequence follows, a request keeps
  its captured parameters, its expiry and its approval requirement, never moves backwards in the
  lifecycle, and once it is executed, failed, denied or expired its row never changes again.\<close>

theorem pg_decisions_are_final:
  assumes "r \<in> set (change_requests (fst (session pg_call cs (pg_new tids))))"
  shows "\<exists>r'\<in>set (change_requests (fst (session pg_call ds (fst (session pg_call cs (pg_new tids)))))).
           cr_id r' = cr_id r \<and> cr_tenant_id r' = cr_tenant_id r \<and> requirement r' = requirement r
           \<and> cr_params r' = cr_params r \<and> cr_expires_at r' = cr_expires_at r
           \<and> rank (cr_status r) \<le> rank (cr_status r') \<and> (is_terminal (cr_status r) \<longrightarrow> r' = r)"
proof -
  obtain r' where
    "r' \<in> set (change_requests (fst (session pg_call ds (fst (session pg_call cs (pg_new tids))))))"
    "frozen r' = frozen r" "rank (cr_status r) \<le> rank (cr_status r')"
    "is_terminal (cr_status r) \<longrightarrow> r' = r"
    using pg.session_final [OF pg_session_inv [OF pg_new_inv] pg_allowed assms] by blast
  then show ?thesis
    using frozen_fields [of r' r] by (intro bexI [of _ r']) blast+
qed

theorem pg_decisions_are_final_witness:
  "\<exists>r'\<in>set (change_requests (fst (session pg_call [((9, 9), TryDeny ''acme'' 7 ''bob'' ''no'')]
        (fst (session pg_call sample_session (pg_new [''acme''])))))). r' = sample_done"
  using pg_decisions_are_final [of sample_done sample_session "[''acme'']"
      "[((9, 9), TryDeny ''acme'' 7 ''bob'' ''no'')]"]
  by (simp only: sample_final list.set insertI1 simp_thms)
     (auto simp: sample_done_def)

section \<open>Approval needs its quorum\<close>



section \<open>Single-use claims\<close>

text \<open>C31: Across any interleaving of calls at most one call ever succeeds in claiming a given request
  for execution.\<close>

theorem pg_execution_claimed_once:
  "length (filter (claimed u) (zip cs (snd (session pg_call cs (pg_new tids))))) \<le> 1"
  by (rule pg.session_claims) simp_all

text \<open>C32: The in-memory store gives the same guarantee, and approves only with a quorum, as long as the
  identifiers it draws are fresh.\<close>

theorem mem_execution_claimed_once:
  assumes "allowed mem_call mem_enabled cs mem_new"
  shows "length (filter (claimed u) (zip cs (snd (session mem_call cs mem_new)))) \<le> 1
    \<and> (\<forall>r\<in>set (rows (fst (session mem_call cs mem_new))).
         cr_status r \<in> {Approved, Executing, Executed, Failed}
         \<longrightarrow> quorum (mem_votes (fst (session mem_call cs mem_new))) r)"
proof -
  have "mem.quorate mem_new"
    by (simp add: mem.quorate_def mem_new_def)
  from mem.session_quorate [OF mem_new_inv assms this] show ?thesis
    using mem.session_claims [OF mem_new_inv assms] by (simp add: mem.quorate_def)
qed

lemma sample_mem_allowed: "allowed mem_call mem_enabled sample_session mem_new"
  by (simp add: sample_session_def mem_new_def)

theorem mem_execution_claimed_once_witness:
  "length (filter (claimed 7) (zip sample_session (snd (session mem_call sample_session mem_new)))) \<le> 1"
  using mem_execution_claimed_once [OF sample_mem_allowed] by blast

section \<open>Secrets are delivered exactly once\<close>

text \<open>The row of a stored secret, and whether it has been handed out.\<close>

definition secret_row :: "bytes \<Rightarrow> uuid \<Rightarrow> stored_secret \<Rightarrow> bool \<Rightarrow> pg_store \<Rightarrow> bool" where
  "secret_row tid u v burned s \<longleftrightarrow>
     (\<exists>x\<in>set (change_request_secrets s). ps_change_request_id x = u \<and> ps_tenant_id x = tid
        \<and> pg_secret_out x = v \<and> (ps_retrieved_at x \<noteq> None) = burned)"

lemma delivered_cases:
  assumes "delivered u (c, a)"
  obtains k tid x where "c = (k, TryBurnSecret tid u)" "a = Secret (Some x)"
  using assms by (cases "(u, (c, a))" rule: delivered.cases) auto

lemma secrets_other_call:
  assumes "\<not> secret_call c"
  shows "change_request_secrets (fst (pg_call c s)) = change_request_secrets s" "\<not> delivered u (c, a)"
  using assms
  by (cases "(c, s)" rule: pg_call.cases;
      auto simp: pg_ops Let_def split: sum.splits option.splits if_splits)+

lemma pg_secret_out_retrieved [simp]: "pg_secret_out (x\<lparr>ps_retrieved_at := t\<rparr>) = pg_secret_out x"
  by (simp add: pg_secret_out_def)

lemma secret_row_burn:
  assumes "distinct (map ps_change_request_id (change_request_secrets s))" "secret_row tid u v b s"
    and c: "c = ((now, db), TryBurnSecret tid' u')"
  shows "secret_row tid u v (b \<or> delivered u (c, snd (pg_call c s))) (fst (pg_call c s))
    \<and> (delivered u (c, snd (pg_call c s)) \<longrightarrow> \<not> b \<and> snd (pg_call c s) = Secret (Some v))"
proof -
  obtain x where x: "x \<in> set (change_request_secrets s)" "ps_change_request_id x = u"
    "ps_tenant_id x = tid" "pg_secret_out x = v" "(ps_retrieved_at x \<noteq> None) = b"
    using assms(2) by (auto simp: secret_row_def)
  let ?p = "\<lambda>x. ps_change_request_id x = u' \<and> ps_tenant_id x = tid' \<and> ps_retrieved_at x = None"
  let ?f = "\<lambda>x. x\<lparr>ps_retrieved_at := Some db\<rparr>"
  have state: "change_request_secrets (fst (pg_call c s))
      = map (\<lambda>x. if ?p x then ?f x else x) (change_request_secrets s)"
    and ans: "snd (pg_call c s) = Secret (map_option pg_secret_out (map_option ?f (find ?p (change_request_secrets s))))"
    by (simp_all add: c pg_ops)
  have here: "(if ?p x then ?f x else x) \<in> set (change_request_secrets (fst (pg_call c s)))"
    using x(1) unfolding state by auto
  have uniq: "y = x" if "y \<in> set (change_request_secrets s)" "ps_change_request_id y = u" for y
    using that x assms(1) by (auto simp: distinct_map inj_on_def)
  have del: "delivered u (c, snd (pg_call c s)) \<longleftrightarrow> u' = u \<and> ?p x"
  proof
    assume "delivered u (c, snd (pg_call c s))"
    then obtain y where y: "find ?p (change_request_secrets s) = Some y" "u' = u"
      using c ans by (auto elim!: delivered_cases)
    have "y = x" using found_row(1,2) [OF y(1)] y(2) uniq by blast
    then show "u' = u \<and> ?p x" using found_row(2) [OF y(1)] y(2) by blast
  next
    assume "u' = u \<and> ?p x"
    then have "find ?p (change_request_secrets s) \<noteq> None"
      using x(1) by (auto simp: find_None_iff)
    then show "delivered u (c, snd (pg_call c s))" using c ans \<open>u' = u \<and> ?p x\<close> by auto
  qed
  have "snd (pg_call c s) = Secret (Some v)" if d: "u' = u \<and> ?p x"
  proof -
    obtain y where y: "find ?p (change_request_secrets s) = Some y"
      using d x(1) by (cases "find ?p (change_request_secrets s)") (auto simp: find_None_iff)
    have "y = x" using found_row(1,2) [OF y] uniq d by blast
    then show ?thesis unfolding ans y by (simp add: x(4))
  qed
  moreover have "secret_row tid u v (b \<or> (u' = u \<and> ?p x)) (fst (pg_call c s))"
    unfolding secret_row_def using x by (intro bexI [OF _ here]) auto
  moreover have "\<not> b" if "ps_retrieved_at x = None" using x(5) that by simp
  ultimately show ?thesis unfolding del by blast
qed

lemma secret_row_call:
  assumes "pg_inv s" "secret_row tid u v b s"
  shows "secret_row tid u v (b \<or> delivered u (c, snd (pg_call c s))) (fst (pg_call c s))
    \<and> (delivered u (c, snd (pg_call c s)) \<longrightarrow> \<not> b \<and> snd (pg_call c s) = Secret (Some v))"
proof (cases "secret_call c")
  case False
  then show ?thesis using secrets_other_call [OF False] assms(2) by (simp add: secret_row_def)
next
  case True
  then show ?thesis
  proof (cases c rule: secret_call.cases)
    case (1 k tid' u' ct kid)
    then show ?thesis
      using assms(2) by (cases k) (auto simp: pg_ops secret_row_def)
  next
    case (2 k tid' u')
    then show ?thesis
      using secret_row_burn [of s tid u v b c "fst k" "snd k"] assms by (auto simp: pg_inv_def)
  qed auto
qed

lemma secret_row_session:
  fixes cs :: "(clock \<times> call) list"
  assumes "pg_inv s" "secret_row tid u v b s"
  defines "ds \<equiv> filter (delivered u) (zip cs (snd (session pg_call cs s)))"
  shows "secret_row tid u v (b \<or> ds \<noteq> []) (fst (session pg_call cs s))
    \<and> length ds \<le> (if b then 0 else 1) \<and> (\<forall>d\<in>set ds. snd d = Secret (Some v))"
  using assms(1,2) unfolding ds_def
proof (induction cs arbitrary: s b)
  case (Cons c cs)
  let ?s = "fst (pg_call c s)" and ?d = "delivered u (c, snd (pg_call c s))"
  have call: "secret_row tid u v (b \<or> ?d) ?s" "?d \<longrightarrow> \<not> b \<and> snd (pg_call c s) = Secret (Some v)"
    using secret_row_call [OF Cons.prems] by blast+
  show ?case
    using Cons.IH [OF pg_inv_call [OF Cons.prems(1)] call(1)] call(2)
    by (cases ?d; cases b) (auto simp: disj_assoc)
qed simp

text \<open>C19: A secret that was stored is handed out exactly once: in every session that follows and ends
  with a retrieval by the request's tenant, exactly one call returns it, and what that call returns is
  the stored ciphertext with its key id.\<close>

theorem pg_secret_delivered_exactly_once:
  assumes "pg_store_secret t tid u ct kid (fst (session pg_call cs (pg_new tids))) = (s, Inr ())"
  shows "\<exists>d. filter (delivered u)
               (zip (ds @ [(k, TryBurnSecret tid u)])
                    (snd (session pg_call (ds @ [(k, TryBurnSecret tid u)]) s))) = [d]
             \<and> snd d = Secret (Some \<lparr>ciphertext = ct, key_id = kid\<rparr>)"
proof -
  let ?v = "\<lparr>ciphertext = ct, key_id = kid\<rparr>" and ?c = "(k, TryBurnSecret tid u)"
  let ?s = "fst (session pg_call ds s)"
  let ?D = "filter (delivered u) (zip ds (snd (session pg_call ds s)))"
  have inv: "pg_inv s"
    using pg_inv_call [OF pg_session_inv [OF pg_new_inv], where c = "((t, t), StoreSecret tid u ct kid)"]
      assms by (metis fst_conv fst_map_prod id_apply pg_call.simps(8))
  have "secret_row tid u ?v False s"
    using assms by (auto simp: pg_store_secret_def secret_row_def pg_secret_out_def split: if_splits)
  note run = secret_row_session [OF inv this, of ds]
  have inv': "pg_inv ?s" by (rule pg_session_inv [OF inv])
  obtain x where x: "x \<in> set (change_request_secrets ?s)" "ps_change_request_id x = u"
    "ps_tenant_id x = tid" "(ps_retrieved_at x \<noteq> None) = (?D \<noteq> [])"
    using run by (auto simp: secret_row_def)
  have last: "delivered u (?c, snd (pg_call ?c ?s)) \<longleftrightarrow> ?D = []"
  proof (cases "?D = []")
    case True
    then have "find (\<lambda>x. ps_change_request_id x = u \<and> ps_tenant_id x = tid \<and> ps_retrieved_at x = None)
        (change_request_secrets ?s) \<noteq> None"
      using x by (auto simp: find_None_iff)
    then show ?thesis using True by (cases k) (auto simp: pg_ops)
  next
    case False
    then have "secret_row tid u ?v True ?s" using run by simp
    then show ?thesis using secret_row_call [OF inv', of tid u ?v True ?c] False by blast
  qed
  have "snd (pg_call ?c ?s) = Secret (Some ?v)" if "?D = []"
    using secret_row_call [OF inv', of tid u ?v "?D \<noteq> []" ?c] run last that by auto
  moreover have "filter (delivered u) (zip (ds @ [?c]) (snd (session pg_call (ds @ [?c]) s)))
      = ?D @ (if ?D = [] then [(?c, snd (pg_call ?c ?s))] else [])"
    using last by (simp add: session_snoc)
  ultimately show ?thesis
    using run by (cases ?D) auto
qed

theorem pg_secret_delivered_exactly_once_witness:
  "\<exists>d. filter (delivered 7)
         (zip [((8, 8), TryBurnSecret ''acme'' 7), ((9, 9), TryBurnSecret ''acme'' 7)]
           (snd (session pg_call [((8, 8), TryBurnSecret ''acme'' 7), ((9, 9), TryBurnSecret ''acme'' 7)]
             (fst (pg_store_secret 5 ''acme'' 7 ''ct'' ''k1''
               (fst (session pg_call [((1, 1), Propose 7 sample_new)] (pg_new [''acme'']))))))))
         = [d] \<and> snd d = Secret (Some \<lparr>ciphertext = ''ct'', key_id = ''k1''\<rparr>)"
proof -
  let ?s = "fst (session pg_call [((1, 1), Propose 7 sample_new)] (pg_new [''acme'']))"
  have "?s = (pg_new [''acme''])\<lparr>change_requests := [sample_row]\<rparr>"
    by (simp add: sample_propose)
  then have "pg_store_secret 5 ''acme'' 7 ''ct'' ''k1'' ?s
      = (fst (pg_store_secret 5 ''acme'' 7 ''ct'' ''k1'' ?s), Inr ())"
    by (simp add: pg_store_secret_def) (simp add: pg_new_def)
  from pg_secret_delivered_exactly_once [OF this, of "[((8, 8), TryBurnSecret ''acme'' 7)]" "(9, 9)"]
  show ?thesis unfolding append.simps .
qed

section \<open>The two stores agree\<close>

lemma lifecycle_case_eq: "lifecycle_case t (map_option as_sql_str lc) r = in_lifecycle t lc r"
  by (cases "(t, lc, r)" rule: in_lifecycle.cases) (simp_all add: lifecycle_case_def)






section \<open>Proposing\<close>

lemma factor_from_db_str_Some: "factor_from_db_str x = Some k \<longleftrightarrow> x = factor_as_db_str k"
  by (cases k) (auto simp: factor_from_db_str_def)

lemma from_db_str_Some: "from_db_str x = Some st \<longleftrightarrow> x = as_db_str st"
  by (cases st) (auto simp: from_db_str_def)



section \<open>Listing\<close>

lemma pages_concat:
  assumes "0 < n"
  shows "concat (map (\<lambda>k. take n (drop (k * n) xs)) [0..<m]) = take (m * n) xs"
proof (induction m)
  case (Suc m)
  have "take (m * n + n) xs = take (m * n) xs @ take n (drop (m * n) xs)"
    by (rule take_add)
  then show ?case using Suc by (simp add: add.commute)
qed simp

lemma sorted_pages: "sorted (map f xs) \<Longrightarrow> sorted (map f (take n (drop k xs)))"
  by (metis drop_map sorted_wrt_drop sorted_wrt_take take_map)

lemma buckets_partition:
  "mset (filter (\<lambda>r. cr_tenant_id r = tid \<and> in_lifecycle t (Some LcPending) r) rs)
   + (mset (filter (\<lambda>r. cr_tenant_id r = tid \<and> in_lifecycle t (Some LcExpired) r) rs)
      + mset (filter (\<lambda>r. cr_tenant_id r = tid \<and> in_lifecycle t (Some LcDecided) r) rs))
   = mset (filter (\<lambda>r. cr_tenant_id r = tid) rs)"
  by (induction rs) auto

text \<open>C34: Paging loses and repeats nothing. With a page size between 1 and 500, walking the pages of
  the pending, expired and decided buckets at one instant lists every request of the tenant exactly
  once and none of another tenant; every page is ordered newest first with the identifier as the
  tie-break and holds at most 500 rows.\<close>

theorem pg_list_pages_complete:
  assumes "0 < n" "n \<le> MAX_LIST_LIMIT" "length (change_requests s) \<le> m * n"
  shows "mset (concat (map (\<lambda>lc. concat (map (\<lambda>k. pg_list t tid (Some lc) n (k * n) s) [0..<m]))
                 [LcPending, LcExpired, LcDecided]))
         = mset (filter (\<lambda>r. cr_tenant_id r = tid) (change_requests s))
    \<and> sorted (map (\<lambda>r. (- cr_created_at r, cr_id r)) (pg_list t tid lc n' k s))
    \<and> length (pg_list t tid lc n' k s) \<le> 500"
proof -
  let ?b = "\<lambda>lc. filter (\<lambda>r. cr_tenant_id r = tid \<and> in_lifecycle t (Some lc) r) (change_requests s)"
  have "mset (concat (map (\<lambda>k. pg_list t tid (Some lc) n (k * n) s) [0..<m])) = mset (?b lc)" for lc
  proof -
    have "length (newest_first (?b lc)) \<le> m * n"
      using assms(3) by (simp add: newest_first_def le_trans [OF length_filter_le])
    then show ?thesis
      using assms(1,2) pages_concat [of n "newest_first (?b lc)" m]
      by (simp add: pg_list_def lifecycle_case_eq [of t "Some lc", simplified] min_absorb1)
         (simp add: newest_first_def)
  qed
  moreover have "mset (?b LcPending) + (mset (?b LcExpired) + mset (?b LcDecided))
      = mset (filter (\<lambda>r. cr_tenant_id r = tid) (change_requests s))"
    by (rule buckets_partition)
  moreover have "sorted (map (\<lambda>r. (- cr_created_at r, cr_id r)) (pg_list t tid lc n' k s))"
    unfolding pg_list_def newest_first_def by (intro sorted_pages) simp
  moreover have "length (pg_list t tid lc n' k s) \<le> 500"
    by (simp add: pg_list_def MAX_LIST_LIMIT_def min_le_iff_disj)
  ultimately show ?thesis by simp
qed

theorem pg_list_pages_complete_witness:
  "mset (concat (map (\<lambda>lc. concat (map (\<lambda>k. pg_list 50 ''acme'' (Some lc) 1 (k * 1)
            ((pg_new [''acme''])\<lparr>change_requests := [sample_row]\<rparr>)) [0..<1]))
          [LcPending, LcExpired, LcDecided])) = {#sample_row#}"
  using pg_list_pages_complete [of 1 "(pg_new [''acme''])\<lparr>change_requests := [sample_row]\<rparr>" 1 50 "''acme''"]
  by (simp add: MAX_LIST_LIMIT_def)

section \<open>Stored strings\<close>

text \<open>The status and factor columns are read back as what was written: a string decodes to a value
  exactly when it is that value's encoding, so no two values share a string and nothing else decodes.\<close>

lemma db_strings_roundtrip:
  "(from_db_str x = Some st \<longleftrightarrow> x = as_db_str st) \<and> (factor_from_db_str y = Some k \<longleftrightarrow> y = factor_as_db_str k)"
  by (simp add: from_db_str_Some factor_from_db_str_Some)

section \<open>Bounded projections\<close>







section \<open>A second secret\<close>

text \<open>The vector of secrets has no key: a second \<open>store_secret\<close> for the same request is accepted, and the
  request then yields a secret twice.\<close>

lemma mem_second_secret:
  "length (filter (delivered 7)
     (zip [(k, StoreSecret ''acme'' 7 ''c1'' ''k''), (k, StoreSecret ''acme'' 7 ''c2'' ''k''),
           (k, TryBurnSecret ''acme'' 7), (k, TryBurnSecret ''acme'' 7)]
       (snd (session mem_call
         [(k, StoreSecret ''acme'' 7 ''c1'' ''k''), (k, StoreSecret ''acme'' 7 ''c2'' ''k''),
          (k, TryBurnSecret ''acme'' 7), (k, TryBurnSecret ''acme'' 7)] mem_new)))) = 2"
  by (simp add: mem_store_secret_def mem_try_burn_secret_def mem_new_def)

end
