(* ===== verification/Quota.thy ===== *)
theory Quota
  imports Prelude Complex_Main "HOL-Library.Product_Lexorder"
begin

text \<open>
  Token-bucket rate limiting: \<open>crates/waygate-quota/src/lib.rs\<close> (matching policies, consuming, probing,
  the retry hint) and \<open>crates/waygate-quota/src/store.rs\<close> (administration of the policies), over the two
  tables of migration 0025 with the action names of migration 0110.

  Token counts, refill rates and time stamps (in seconds) are rational numbers: the model leaves out
  the rounding of \<open>DOUBLE PRECISION\<close>. The database's \<open>now()\<close> is fixed at the start of a transaction, so
  it is an argument of each call, and nothing assumes that later calls carry later values; the host's
  clock, used for the retry hint only, is another argument.
\<close>

section \<open>Data\<close>

datatype quota_scope = ScopeTenant | ScopePrincipal | ScopeClient | ScopeServer | ScopeTool


datatype quota_action = Call | SideEffectingCall | CostBearing | Discovery

fun action_as_str :: "quota_action \<Rightarrow> bytes" where
  "action_as_str Call = ''call''"
| "action_as_str SideEffectingCall = ''side_effecting_call''"
| "action_as_str CostBearing = ''cost_bearing''"
| "action_as_str Discovery = ''discovery''"

record quota_context =
  q_tenant_id :: bytes
  q_principal_sub :: "bytes option"
  q_client_id :: "bytes option"
  q_server :: bytes
  q_fq_tool :: bytes

datatype quota_error =
  Sqlx
| RateLimited uuid bytes nat

text \<open>A row of \<open>rate_limit_policies\<close>, with its text columns as stored.\<close>

record policy_row =
  p_id :: uuid
  p_tenant_id :: bytes
  p_name :: bytes
  p_scope :: bytes
  p_scope_value :: "bytes option"
  p_bucket_capacity :: int
  p_refill_per_second :: rat
  p_action :: bytes
  p_created_at :: rat
  p_updated_at :: rat

record counter_row =
  c_policy_id :: uuid
  c_scope_value :: bytes
  c_tokens_remaining :: rat
  c_last_refill :: rat

record quota_db =
  rate_limit_policies :: "policy_row list"
  rate_limit_counters :: "counter_row list"

record applicable_policy =
  app_policy_id :: uuid
  app_name :: bytes
  app_scope :: bytes
  app_bucket_key :: bytes
  app_capacity :: rat
  app_refill_per_second :: rat

section \<open>Which policies govern a call\<close>

definition bucket_key :: "quota_context \<Rightarrow> bytes \<Rightarrow> bytes option" where
  "bucket_key ctx scope =
     (if scope = ''tenant'' then Some (q_tenant_id ctx)
      else if scope = ''principal'' then q_principal_sub ctx
      else if scope = ''client'' then q_client_id ctx
      else if scope = ''server'' then Some (q_server ctx)
      else if scope = ''tool'' then Some (q_fq_tool ctx)
      else None)"

definition applicable_policy_of :: "quota_context \<Rightarrow> policy_row \<Rightarrow> applicable_policy option" where
  "applicable_policy_of ctx p =
     (case bucket_key ctx (p_scope p) of
        None \<Rightarrow> None
      | Some key \<Rightarrow>
          if (case p_scope_value p of None \<Rightarrow> False | Some req \<Rightarrow> req \<noteq> key) then None
          else Some \<lparr>app_policy_id = p_id p, app_name = p_name p, app_scope = p_scope p,
                     app_bucket_key = key, app_capacity = of_int (p_bucket_capacity p),
                     app_refill_per_second = p_refill_per_second p\<rparr>)"

definition applicable_policies ::
  "quota_context \<Rightarrow> quota_action list \<Rightarrow> policy_row list \<Rightarrow> applicable_policy list" where
  "applicable_policies ctx actions ps =
     List.map_filter (applicable_policy_of ctx)
       (sort_key p_id
         (filter (\<lambda>p. p_tenant_id p = q_tenant_id ctx \<and> p_action p \<in> set (map action_as_str actions)) ps))"

section \<open>Consuming\<close>

text \<open>\<open>LEAST(capacity, tokens + elapsed * refill)\<close>\<close>

definition bucket_now :: "applicable_policy \<Rightarrow> rat \<Rightarrow> counter_row \<Rightarrow> rat" where
  "bucket_now app now c =
     min (app_capacity app)
       (c_tokens_remaining c + (now - c_last_refill c) * app_refill_per_second app)"

definition counter_of :: "uuid \<Rightarrow> bytes \<Rightarrow> quota_db \<Rightarrow> counter_row option" where
  "counter_of pid key db =
     find (\<lambda>c. c_policy_id c = pid \<and> c_scope_value c = key) (rate_limit_counters db)"

text \<open>
  The conditional upsert of one policy: an error when the policy is gone (the foreign key), \<open>None\<close> when
  no row is returned, the updated tables otherwise.
\<close>

definition debit :: "rat \<Rightarrow> applicable_policy \<Rightarrow> quota_db \<Rightarrow> quota_error + quota_db option" where
  "debit now app db =
     (case counter_of (app_policy_id app) (app_bucket_key app) db of
        None \<Rightarrow>
          if app_policy_id app \<notin> p_id ` set (rate_limit_policies db) then Inl Sqlx
          else Inr (Some (db\<lparr>rate_limit_counters := rate_limit_counters db
                 @ [\<lparr>c_policy_id = app_policy_id app, c_scope_value = app_bucket_key app,
                     c_tokens_remaining = app_capacity app - 1, c_last_refill = now\<rparr>]\<rparr>))
      | Some c \<Rightarrow>
          if 1 \<le> bucket_now app now c
          then Inr (Some (db\<lparr>rate_limit_counters :=
                 fst (update_where
                   (\<lambda>c. c_policy_id c = app_policy_id app \<and> c_scope_value c = app_bucket_key app)
                   (\<lambda>c. c\<lparr>c_tokens_remaining := bucket_now app now c - 1, c_last_refill := now\<rparr>)
                   (rate_limit_counters db))\<rparr>))
          else Inr None)"

definition compute_retry_after_seconds :: "rat \<Rightarrow> (rat \<times> rat) option \<Rightarrow> rat \<Rightarrow> nat" where
  "compute_retry_after_seconds host_now cur refill =
     (case cur of
        None \<Rightarrow> 1
      | Some (tokens, last_refill) \<Rightarrow>
          let elapsed = host_now - last_refill in
          if refill \<le> 0 then 3600
          else
            let tokens_now = tokens + elapsed * refill;
                needed = 1 - tokens_now
            in if needed \<le> 0 then 1
               else nat (min 3600 (max 1 \<lceil>needed / refill\<rceil>)))"

definition rate_limited :: "rat \<Rightarrow> applicable_policy \<Rightarrow> quota_db \<Rightarrow> quota_error" where
  "rate_limited host_now app db =
     RateLimited (app_policy_id app) (app_name app)
       (compute_retry_after_seconds host_now
         (map_option (\<lambda>c. (c_tokens_remaining c, c_last_refill c))
           (counter_of (app_policy_id app) (app_bucket_key app) db))
         (app_refill_per_second app))"

text \<open>The transaction over all governing policies; \<open>Inl\<close> is a roll-back.\<close>

fun debit_all :: "rat \<Rightarrow> rat \<Rightarrow> applicable_policy list \<Rightarrow> quota_db \<Rightarrow> quota_error + quota_db" where
  "debit_all host_now now [] db = Inr db"
| "debit_all host_now now (app # apps) db =
     (case debit now app db of
        Inl e \<Rightarrow> Inl e
      | Inr None \<Rightarrow> Inl (rate_limited host_now app db)
      | Inr (Some db') \<Rightarrow> debit_all host_now now apps db')"

definition check_and_consume ::
  "rat \<Rightarrow> rat \<Rightarrow> quota_context \<Rightarrow> quota_action list \<Rightarrow> quota_db \<Rightarrow> quota_db \<times> (quota_error + unit)" where
  "check_and_consume host_now now ctx actions db =
     (if actions = [] then (db, Inr ())
      else
        let apps = applicable_policies ctx actions (rate_limit_policies db) in
        if apps = [] then (db, Inr ())
        else case debit_all host_now now apps db of
               Inl e \<Rightarrow> (db, Inl e)
             | Inr db' \<Rightarrow> (db', Inr ()))"

section \<open>Probing\<close>



section \<open>Administration\<close>

datatype store_error = StoreSqlx | Conflict | InvalidShape bytes

record rate_limit_policy =
  rp_id :: uuid
  rp_tenant_id :: bytes
  rp_name :: bytes
  rp_scope :: quota_scope
  rp_scope_value :: "bytes option"
  rp_bucket_capacity :: int
  rp_refill_per_second :: rat
  rp_action :: quota_action
  rp_created_at :: rat
  rp_updated_at :: rat


definition parse_scope :: "bytes \<Rightarrow> store_error + quota_scope" where
  "parse_scope s =
     (if s = ''tenant'' then Inr ScopeTenant
      else if s = ''principal'' then Inr ScopePrincipal
      else if s = ''client'' then Inr ScopeClient
      else if s = ''server'' then Inr ScopeServer
      else if s = ''tool'' then Inr ScopeTool
      else Inl (InvalidShape (''unknown scope: '' @ s)))"

definition parse_action :: "bytes \<Rightarrow> store_error + quota_action" where
  "parse_action s =
     (if s = ''call'' then Inr Call
      else if s = ''side_effecting_call'' then Inr SideEffectingCall
      else if s = ''cost_bearing'' then Inr CostBearing
      else if s = ''discovery'' then Inr Discovery
      else Inl (InvalidShape (''unknown action: '' @ s)))"

definition row_to_policy :: "policy_row \<Rightarrow> store_error + rate_limit_policy" where
  "row_to_policy r =
     (case parse_scope (p_scope r) of
        Inl e \<Rightarrow> Inl e
      | Inr scope \<Rightarrow>
          (case parse_action (p_action r) of
             Inl e \<Rightarrow> Inl e
           | Inr action \<Rightarrow>
               Inr \<lparr>rp_id = p_id r, rp_tenant_id = p_tenant_id r, rp_name = p_name r,
                    rp_scope = scope, rp_scope_value = p_scope_value r,
                    rp_bucket_capacity = p_bucket_capacity r,
                    rp_refill_per_second = p_refill_per_second r, rp_action = action,
                    rp_created_at = p_created_at r, rp_updated_at = p_updated_at r\<rparr>))"

text \<open>The \<open>CHECK\<close> constraints and the unique index of \<open>rate_limit_policies\<close>.\<close>

definition policy_checks :: "policy_row \<Rightarrow> bool" where
  "policy_checks r \<longleftrightarrow>
     p_scope r \<in> {''tenant'', ''principal'', ''client'', ''server'', ''tool''}
     \<and> p_bucket_capacity r > 0 \<and> p_refill_per_second r > 0
     \<and> p_action r \<in> {''call'', ''side_effecting_call'', ''cost_bearing'', ''discovery''}
     \<and> ((p_scope r = ''tenant'' \<and> p_scope_value r = None)
        \<or> (p_scope r \<noteq> ''tenant'' \<and> p_scope_value r \<noteq> None))"

definition policy_unique_key :: "policy_row \<Rightarrow> bytes \<times> bytes \<times> bytes \<times> bytes" where
  "policy_unique_key r =
     (p_tenant_id r, p_scope r, (case p_scope_value r of None \<Rightarrow> [] | Some v \<Rightarrow> v), p_action r)"





fun collect_rows :: "policy_row list \<Rightarrow> store_error + rate_limit_policy list" where
  "collect_rows [] = Inr []"
| "collect_rows (r # rs) =
     (case row_to_policy r of
        Inl e \<Rightarrow> Inl e
      | Inr p \<Rightarrow> map_sum id (Cons p) (collect_rows rs))"

definition rl_list :: "bytes \<Rightarrow> quota_db \<Rightarrow> store_error + rate_limit_policy list" where
  "rl_list tid db =
     collect_rows (sort_key (\<lambda>r. (p_created_at r, p_id r))
       (filter (\<lambda>r. p_tenant_id r = tid) (rate_limit_policies db)))"





section \<open>Buckets\<close>

lemma find_update_key:
  assumes "\<And>x. k (f x) = k x"
  shows "find (\<lambda>x. k x = b) (map (\<lambda>x. if k x = a then f x else x) xs)
    = (if a = b then map_option f (find (\<lambda>x. k x = b) xs) else find (\<lambda>x. k x = b) xs)"
  using assms by (induction xs) auto

definition counter_key :: "counter_row \<Rightarrow> uuid \<times> bytes" where
  "counter_key c = (c_policy_id c, c_scope_value c)"

definition app_key :: "applicable_policy \<Rightarrow> uuid \<times> bytes" where
  "app_key app = (app_policy_id app, app_bucket_key app)"

lemma counter_of_alt: "counter_of pid key db = find (\<lambda>c. counter_key c = (pid, key)) (rate_limit_counters db)"
  by (simp add: counter_of_def counter_key_def)

text \<open>The bucket after a debit, and whether it grants one.\<close>

definition has_token :: "rat \<Rightarrow> applicable_policy \<Rightarrow> counter_row option \<Rightarrow> bool" where
  "has_token now app c = (case c of None \<Rightarrow> True | Some c \<Rightarrow> 1 \<le> bucket_now app now c)"

definition debited :: "rat \<Rightarrow> applicable_policy \<Rightarrow> counter_row option \<Rightarrow> counter_row" where
  "debited now app c =
     \<lparr>c_policy_id = app_policy_id app, c_scope_value = app_bucket_key app,
      c_tokens_remaining =
        (case c of None \<Rightarrow> app_capacity app | Some c \<Rightarrow> bucket_now app now c) - 1,
      c_last_refill = now\<rparr>"

lemma find_key: "find (\<lambda>x. k x = b) xs = Some x \<Longrightarrow> k x = b"
  by (induction xs) (auto split: if_splits)

lemma find_append: "find p (xs @ ys) = (case find p xs of None \<Rightarrow> find p ys | Some x \<Rightarrow> Some x)"
  by (induction xs) auto

lemma debit_exact:
  assumes "app_policy_id app \<in> p_id ` set (rate_limit_policies db)"
  defines "c \<equiv> counter_of (app_policy_id app) (app_bucket_key app) db"
  shows "if has_token now app c
    then \<exists>db'. debit now app db = Inr (Some db') \<and> rate_limit_policies db' = rate_limit_policies db
      \<and> (\<forall>pid key. counter_of pid key db'
           = (if (pid, key) = app_key app then Some (debited now app c) else counter_of pid key db))
    else debit now app db = Inr None"
proof (cases c)
  case None
  then show ?thesis
    using assms(1) unfolding c_def
    by (auto simp: debit_def has_token_def debited_def counter_of_alt find_append app_key_def
        counter_key_def split: option.splits)
next
  case (Some x)
  have key: "counter_key x = (app_policy_id app, app_bucket_key app)"
    using Some unfolding c_def counter_of_alt by (rule find_key)
  show ?thesis
  proof (cases "1 \<le> bucket_now app now x")
    case True
    let ?f = "\<lambda>c. c\<lparr>c_tokens_remaining := bucket_now app now c - 1, c_last_refill := now\<rparr>"
    let ?db = "db\<lparr>rate_limit_counters := map (\<lambda>c. if counter_key c = app_key app then ?f c else c)
                 (rate_limit_counters db)\<rparr>"
    have deb: "debit now app db = Inr (Some ?db)"
      using Some True unfolding c_def
      by (simp add: debit_def update_where_def counter_key_def app_key_def)
    have "?f x = debited now app c"
      using key Some by (cases x) (simp add: debited_def counter_key_def)
    moreover have kf: "counter_key (?f y) = counter_key y" for y by (simp add: counter_key_def)
    ultimately have "counter_of pid k ?db
        = (if (pid, k) = app_key app then Some (debited now app c) else counter_of pid k db)" for pid k
      using Some unfolding c_def counter_of_alt
      by (simp add: find_update_key [of counter_key ?f, OF kf] app_key_def)
    then show ?thesis using deb Some True by (simp add: has_token_def)
  next
    case False
    then show ?thesis using Some unfolding c_def by (simp add: debit_def has_token_def)
  qed
qed

definition counter_for :: "applicable_policy \<Rightarrow> quota_db \<Rightarrow> counter_row option" where
  "counter_for app db = counter_of (app_policy_id app) (app_bucket_key app) db"

lemma debit_all_exact:
  assumes "\<forall>app\<in>set apps. app_policy_id app \<in> p_id ` set (rate_limit_policies db)"
    "distinct (map app_key apps)"
  shows "if \<forall>app\<in>set apps. has_token now app (counter_for app db)
    then \<exists>db'. debit_all host_now now apps db = Inr db'
      \<and> rate_limit_policies db' = rate_limit_policies db
      \<and> (\<forall>pid key. counter_of pid key db'
           = (case find (\<lambda>app. app_key app = (pid, key)) apps of
                None \<Rightarrow> counter_of pid key db
              | Some app \<Rightarrow> Some (debited now app (counter_of pid key db))))
    else \<exists>pid name n. debit_all host_now now apps db = Inl (RateLimited pid name n)"
  using assms
proof (induction apps arbitrary: db)
  case (Cons app apps)
  have pol: "app_policy_id app \<in> p_id ` set (rate_limit_policies db)" using Cons.prems by simp
  show ?case
  proof (cases "has_token now app (counter_for app db)")
    case False
    then have "debit now app db = Inr None"
      using debit_exact [OF pol, of now] by (simp add: counter_for_def)
    then show ?thesis using False by (simp add: rate_limited_def)
  next
    case True
    then obtain db1 where db1: "debit now app db = Inr (Some db1)"
      "rate_limit_policies db1 = rate_limit_policies db"
      "\<And>pid key. counter_of pid key db1
           = (if (pid, key) = app_key app then Some (debited now app (counter_for app db))
              else counter_of pid key db)"
      using debit_exact [OF pol, of now] by (auto simp: counter_for_def)
    have same: "counter_for app' db1 = counter_for app' db" if "app' \<in> set apps" for app'
    proof -
      have "app_key app' \<noteq> app_key app" using that Cons.prems(2) by (metis distinct.simps(2) image_eqI list.set_map list.simps(9))
      then show ?thesis using db1(3) by (auto simp: counter_for_def app_key_def)
    qed
    have IH: "if \<forall>app\<in>set apps. has_token now app (counter_for app db1)
      then \<exists>db'. debit_all host_now now apps db1 = Inr db'
        \<and> rate_limit_policies db' = rate_limit_policies db1
        \<and> (\<forall>pid key. counter_of pid key db'
             = (case find (\<lambda>app. app_key app = (pid, key)) apps of
                  None \<Rightarrow> counter_of pid key db1
                | Some app \<Rightarrow> Some (debited now app (counter_of pid key db1))))
      else \<exists>pid name n. debit_all host_now now apps db1 = Inl (RateLimited pid name n)"
      using Cons.prems db1(2) by (intro Cons.IH) auto
    have other: "find (\<lambda>a. app_key a = app_key app) apps = None"
      using Cons.prems(2) by (force simp: find_None_iff image_iff)
    have key: "counter_of pid k db = counter_for app db" if "(pid, k) = app_key app" for pid k
      using that by (simp add: app_key_def counter_for_def)
    show ?thesis
    proof (cases "\<forall>app\<in>set apps. has_token now app (counter_for app db)")
      case False
      then show ?thesis using IH same db1(1) by auto
    next
      case all: True
      then obtain db' where "debit_all host_now now apps db1 = Inr db'"
        "rate_limit_policies db' = rate_limit_policies db1"
        "\<And>pid key. counter_of pid key db'
             = (case find (\<lambda>app. app_key app = (pid, key)) apps of
                  None \<Rightarrow> counter_of pid key db1
                | Some app \<Rightarrow> Some (debited now app (counter_of pid key db1)))"
        using IH same by auto
      moreover from this(3) have "counter_of pid k db'
          = (case find (\<lambda>app. app_key app = (pid, k)) (app # apps) of
               None \<Rightarrow> counter_of pid k db
             | Some app \<Rightarrow> Some (debited now app (counter_of pid k db)))" for pid k
        using db1(3) [of pid k] other key [of pid k]
        by (cases "app_key app = (pid, k)") (auto split: option.splits)
      ultimately show ?thesis using True all db1 by auto
    qed
  qed
qed simp

section \<open>Table invariant\<close>

definition quota_inv :: "quota_db \<Rightarrow> bool" where
  "quota_inv db \<longleftrightarrow>
     distinct (map p_id (rate_limit_policies db))
     \<and> distinct (map policy_unique_key (rate_limit_policies db))
     \<and> list_all policy_checks (rate_limit_policies db)
     \<and> distinct (map counter_key (rate_limit_counters db))
     \<and> (\<forall>c\<in>set (rate_limit_counters db). c_policy_id c \<in> p_id ` set (rate_limit_policies db))"

lemma applicable_origin:
  "app \<in> set (applicable_policies ctx actions ps) \<longleftrightarrow>
   (\<exists>p\<in>set ps. p_tenant_id p = q_tenant_id ctx \<and> p_action p \<in> set (map action_as_str actions)
      \<and> applicable_policy_of ctx p = Some app)"
  by (auto simp: applicable_policies_def List.map_filter_def image_iff)

lemma applicable_fields:
  assumes "applicable_policy_of ctx p = Some app"
  shows "app_policy_id app = p_id p" "app_capacity app = of_int (p_bucket_capacity p)"
    "app_refill_per_second app = p_refill_per_second p"
  using assms by (auto simp: applicable_policy_of_def split: option.splits if_splits)

lemma distinct_map_filter:
  assumes "distinct (map k xs)" "\<And>x y. x \<in> set xs \<Longrightarrow> f x = Some y \<Longrightarrow> j y = k x"
  shows "distinct (map j (List.map_filter f xs))"
  using assms
proof (induction xs)
  case (Cons x xs)
  have "j ` set (List.map_filter f xs) \<subseteq> k ` set xs"
    using Cons.prems(2) by (force simp: List.map_filter_def)
  then have "j y \<notin> j ` set (List.map_filter f xs)" if "f x = Some y" for y
  proof -
    have "j y = k x" "k x \<notin> k ` set xs" using Cons.prems that by auto
    then show ?thesis using \<open>j ` set (List.map_filter f xs) \<subseteq> k ` set xs\<close> by auto
  qed
  then show ?case
    using Cons by (cases "f x") (auto simp: List.map_filter_simps)
qed (simp add: List.map_filter_simps)

lemma applicable_distinct:
  assumes "distinct (map p_id ps)"
  shows "distinct (map app_key (applicable_policies ctx actions ps))"
proof -
  let ?qs = "sort_key p_id (filter (\<lambda>p. p_tenant_id p = q_tenant_id ctx
               \<and> p_action p \<in> set (map action_as_str actions)) ps)"
  have "distinct (map p_id ?qs)"
    using assms by (simp add: distinct_map inj_on_def)
  then have "distinct (map app_policy_id (applicable_policies ctx actions ps))"
    unfolding applicable_policies_def by (rule distinct_map_filter) (simp add: applicable_fields)
  then have "distinct (map (fst \<circ> app_key) (applicable_policies ctx actions ps))"
    by (simp add: app_key_def comp_def)
  then show ?thesis by (metis distinct_map map_map)
qed

lemma check_and_consume_exact:
  fixes ctx :: quota_context and actions :: "quota_action list" and host_now now :: rat
  assumes "quota_inv db"
  defines "apps \<equiv> applicable_policies ctx actions (rate_limit_policies db)"
    and "res \<equiv> check_and_consume host_now now ctx actions db"
  shows "if \<forall>app\<in>set apps. has_token now app (counter_for app db)
    then snd res = Inr () \<and> rate_limit_policies (fst res) = rate_limit_policies db
      \<and> (\<forall>pid key. counter_of pid key (fst res)
           = (case find (\<lambda>app. app_key app = (pid, key)) apps of
                None \<Rightarrow> counter_of pid key db
              | Some app \<Rightarrow> Some (debited now app (counter_of pid key db))))
    else fst res = db \<and> (\<exists>pid name n. snd res = Inl (RateLimited pid name n))"
proof -
  have "\<forall>app\<in>set apps. app_policy_id app \<in> p_id ` set (rate_limit_policies db)"
    unfolding apps_def by (auto simp: applicable_origin applicable_fields)
  moreover have "distinct (map app_key apps)"
    unfolding apps_def using assms(1) by (intro applicable_distinct) (simp add: quota_inv_def)
  ultimately have exact: "if \<forall>app\<in>set apps. has_token now app (counter_for app db)
    then \<exists>db'. debit_all host_now now apps db = Inr db'
      \<and> rate_limit_policies db' = rate_limit_policies db
      \<and> (\<forall>pid key. counter_of pid key db'
           = (case find (\<lambda>app. app_key app = (pid, key)) apps of
                None \<Rightarrow> counter_of pid key db
              | Some app \<Rightarrow> Some (debited now app (counter_of pid key db))))
    else \<exists>pid name n. debit_all host_now now apps db = Inl (RateLimited pid name n)"
    by (rule debit_all_exact)
  have empty: "apps = []" if "actions = []"
    using that by (simp add: apps_def applicable_policies_def List.map_filter_simps)
  show ?thesis
  proof (cases "apps = []")
    case True
    then show ?thesis by (simp add: res_def check_and_consume_def apps_def [symmetric])
  next
    case False
    then have "res = (case debit_all host_now now apps db of
        Inl e \<Rightarrow> (db, Inl e) | Inr db' \<Rightarrow> (db', Inr ()))"
      using empty by (auto simp: res_def check_and_consume_def apps_def [symmetric])
    then show ?thesis using exact by (auto split: if_splits)
  qed
qed

section \<open>The rate of one bucket\<close>




lemma quota_inv_counters:
  assumes "quota_inv db" "rate_limit_policies db' = rate_limit_policies db"
    "distinct (map counter_key (rate_limit_counters db'))"
    "\<forall>c\<in>set (rate_limit_counters db'). c_policy_id c \<in> p_id ` set (rate_limit_policies db)"
  shows "quota_inv db'"
  using assms by (simp add: quota_inv_def)












definition sample_policy :: policy_row where
  "sample_policy =
     \<lparr>p_id = 1, p_tenant_id = ''acme'', p_name = ''calls'', p_scope = ''tenant'', p_scope_value = None,
      p_bucket_capacity = 1, p_refill_per_second = 1 / 10, p_action = ''call'', p_created_at = 0,
      p_updated_at = 0\<rparr>"

definition sample_ctx :: quota_context where
  "sample_ctx =
     \<lparr>q_tenant_id = ''acme'', q_principal_sub = Some ''ann'', q_client_id = None, q_server = ''mail'',
      q_fq_tool = ''mail.send''\<rparr>"

definition sample_db :: quota_db where
  "sample_db = \<lparr>rate_limit_policies = [sample_policy], rate_limit_counters = []\<rparr>"

lemma sample_db_inv: "quota_inv sample_db"
  by (simp add: quota_inv_def sample_db_def sample_policy_def policy_checks_def)

lemma sample_applicable:
  "applicable_policies sample_ctx [Call] [sample_policy]
   = [\<lparr>app_policy_id = 1, app_name = ''calls'', app_scope = ''tenant'', app_bucket_key = ''acme'',
       app_capacity = 1, app_refill_per_second = 1 / 10\<rparr>]"
  by (simp add: applicable_policies_def applicable_policy_of_def bucket_key_def sample_policy_def
      sample_ctx_def List.map_filter_simps)


section \<open>All or nothing\<close>

text \<open>C36: A call is let through exactly when every bucket that governs it holds a token. It then takes
  one token from each of those buckets, after refilling it up to the call's time stamp and the
  capacity, and touches no other bucket; a call that is turned away names a policy and changes
  nothing.\<close>

theorem check_and_consume_all_or_nothing:
  assumes "quota_inv db"
  shows "if \<forall>app\<in>set (applicable_policies ctx actions (rate_limit_policies db)).
              has_token now app (counter_of (app_policy_id app) (app_bucket_key app) db)
    then snd (check_and_consume host_now now ctx actions db) = Inr ()
      \<and> rate_limit_policies (fst (check_and_consume host_now now ctx actions db)) = rate_limit_policies db
      \<and> (\<forall>pid key. counter_of pid key (fst (check_and_consume host_now now ctx actions db))
           = (case find (\<lambda>app. app_policy_id app = pid \<and> app_bucket_key app = key)
                      (applicable_policies ctx actions (rate_limit_policies db)) of
                None \<Rightarrow> counter_of pid key db
              | Some app \<Rightarrow> Some (debited now app (counter_of pid key db))))
    else fst (check_and_consume host_now now ctx actions db) = db
      \<and> (\<exists>pid name n. snd (check_and_consume host_now now ctx actions db) = Inl (RateLimited pid name n))"
  using check_and_consume_exact [OF assms, of ctx actions now host_now]
  by (simp add: counter_for_def app_key_def)

theorem check_and_consume_all_or_nothing_witness:
  "snd (check_and_consume 0 0 sample_ctx [Call] sample_db) = Inr ()
   \<and> counter_of 1 ''acme'' (fst (check_and_consume 0 0 sample_ctx [Call] sample_db))
     = Some \<lparr>c_policy_id = 1, c_scope_value = ''acme'', c_tokens_remaining = 0, c_last_refill = 0\<rparr>"
  using check_and_consume_all_or_nothing [OF sample_db_inv, of sample_ctx "[Call]" 0 0]
  by (simp add: sample_db_def sample_applicable counter_of_def has_token_def)
     (simp add: debited_def)

section \<open>The probe\<close>







section \<open>The retry hint\<close>



section \<open>Administration keeps the tables consistent\<close>










end
