(* ===== verification/Request_Facts.thy ===== *)
theory Request_Facts
  imports Prelude Complex_Main
begin

text \<open>
  JSON values as \<open>serde_json\<close> has them, and the recipient facts that the policy information point reads
  from the arguments of a call: \<open>crates/waygate-core/src/email_recipients.rs\<close>.
\<close>

section \<open>JSON\<close>

datatype json =
    JNull
  | JBool bool
  | JNum rat
  | JStr bytes
  | JArr "json list"
  | JObj "(bytes \<times> json) list"

text \<open>A \<open>Map<String, Value>\<close>: keys are unique, and the order of the entries is immaterial.\<close>

type_synonym json_map = "(bytes \<times> json) list"

definition map_remove :: "bytes \<Rightarrow> json_map \<Rightarrow> json_map" where
  "map_remove k m = filter (\<lambda>(k', _). k' \<noteq> k) m"

definition map_insert :: "bytes \<Rightarrow> json \<Rightarrow> json_map \<Rightarrow> json_map" where
  "map_insert k v m = (k, v) # map_remove k m"

fun as_str :: "json \<Rightarrow> bytes option" where
  "as_str (JStr s) = Some s"
| "as_str _ = None"

fun as_bool :: "json \<Rightarrow> bool option" where
  "as_bool (JBool b) = Some b"
| "as_bool _ = None"

fun as_object :: "json \<Rightarrow> json_map option" where
  "as_object (JObj m) = Some m"
| "as_object _ = None"

section \<open>ASCII text\<close>

definition is_ascii :: "bytes \<Rightarrow> bool" where
  "is_ascii s \<longleftrightarrow> list_all (\<lambda>c. (of_char c :: nat) < 128) s"

definition is_ascii_alphanumeric :: "char \<Rightarrow> bool" where
  "is_ascii_alphanumeric c \<longleftrightarrow>
     (let n = of_char c :: nat in (48 \<le> n \<and> n \<le> 57) \<or> (65 \<le> n \<and> n \<le> 90) \<or> (97 \<le> n \<and> n \<le> 122))"

text \<open>\<open>char::is_ascii_graphic\<close>: printable ASCII without the space.\<close>

definition is_ascii_graphic :: "char \<Rightarrow> bool" where
  "is_ascii_graphic c \<longleftrightarrow> (let n = of_char c :: nat in 33 \<le> n \<and> n \<le> 126)"

definition ascii_lower_char :: "char \<Rightarrow> char" where
  "ascii_lower_char c =
     (let n = of_char c :: nat in if 65 \<le> n \<and> n \<le> 90 then char_of (n + 32) else c)"

definition to_ascii_lowercase :: "bytes \<Rightarrow> bytes" where
  "to_ascii_lowercase s = map ascii_lower_char s"

text \<open>\<open>str::split_once\<close> and \<open>str::split\<close> at a single character.\<close>

fun split_once :: "char \<Rightarrow> bytes \<Rightarrow> (bytes \<times> bytes) option" where
  "split_once c [] = None"
| "split_once c (x # xs) =
     (if x = c then Some ([], xs)
      else case split_once c xs of None \<Rightarrow> None | Some (a, b) \<Rightarrow> Some (x # a, b))"

fun split_at_char :: "char \<Rightarrow> bytes \<Rightarrow> bytes list" where
  "split_at_char c [] = [[]]"
| "split_at_char c (x # xs) =
     (if x = c then [] # split_at_char c xs
      else case split_at_char c xs of [] \<Rightarrow> [[x]] | l # ls \<Rightarrow> (x # l) # ls)"

fun contains_pair :: "char \<Rightarrow> char \<Rightarrow> bytes \<Rightarrow> bool" where
  "contains_pair a b (x # y # xs) \<longleftrightarrow> (x = a \<and> y = b) \<or> contains_pair a b (y # xs)"
| "contains_pair a b _ \<longleftrightarrow> False"

section \<open>Recipient facts\<close>

record email_recipients =
  valid :: bool
  domains :: "bytes set"

definition no_recipients :: email_recipients where
  "no_recipients = \<lparr>valid = False, domains = {}\<rparr>"

definition local_char :: "char \<Rightarrow> bool" where
  "local_char b \<longleftrightarrow> is_ascii_alphanumeric b \<or> b \<in> set ''.!#$%&'' \<or> of_char b = (39::nat) \<or>
     b \<in> set ''*+-/=?^_`{|}~''"

definition local_part_ok :: "bytes \<Rightarrow> bool" where
  "local_part_ok l \<longleftrightarrow>
     \<not> (l = [] \<or> 64 < length l \<or> hd l = CHR ''.'' \<or> last l = CHR ''.'' \<or>
        contains_pair CHR ''.'' CHR ''.'' l \<or> \<not> list_all local_char l)"

definition domain_label_ok :: "bytes \<Rightarrow> bool" where
  "domain_label_ok l \<longleftrightarrow>
     l \<noteq> [] \<and> length l \<le> 63 \<and> hd l \<noteq> CHR ''-'' \<and> last l \<noteq> CHR ''-'' \<and>
     list_all (\<lambda>b. is_ascii_alphanumeric b \<or> b = CHR ''-'') l"

definition domain_ok :: "bytes \<Rightarrow> bool" where
  "domain_ok d \<longleftrightarrow>
     \<not> (d = [] \<or> CHR ''.'' \<notin> set d \<or> 253 < length d \<or>
        \<not> list_all domain_label_ok (split_at_char CHR ''.'' d))"

definition mailbox_domain :: "bytes \<Rightarrow> bytes option" where
  "mailbox_domain address =
     (if 254 < length address \<or> \<not> is_ascii address then None
      else case split_once CHR ''@'' address of
             None \<Rightarrow> None
           | Some (l, d) \<Rightarrow>
               if \<not> local_part_ok l then None
               else if \<not> domain_ok d then None
               else Some d)"

text \<open>The loop over the values of one field, and the loop over the fields; \<open>None\<close> is the early return of
  the empty facts.\<close>

fun read_values :: "json list \<Rightarrow> nat \<times> bytes set \<Rightarrow> (nat \<times> bytes set) option" where
  "read_values [] acc = Some acc"
| "read_values (v # vs) (count, ds) =
     (if 1000 < count + 1 then None
      else case as_str v of
             None \<Rightarrow> None
           | Some s \<Rightarrow>
               (case mailbox_domain s of
                  None \<Rightarrow> None
                | Some d \<Rightarrow> read_values vs (count + 1, insert (to_ascii_lowercase d) ds)))"

fun field_values :: "json \<Rightarrow> json list option" where
  "field_values (JStr s) = Some [JStr s]"
| "field_values (JArr vs) = Some vs"
| "field_values _ = None"

fun read_fields :: "bytes list \<Rightarrow> json_map \<Rightarrow> nat \<times> bytes set \<Rightarrow> (nat \<times> bytes set) option" where
  "read_fields [] m acc = Some acc"
| "read_fields (f # fs) m acc =
     (case map_of m f of
        None \<Rightarrow> read_fields fs m acc
      | Some v \<Rightarrow>
          (case field_values v of
             None \<Rightarrow> None
           | Some vs \<Rightarrow>
               (case read_values vs acc of
                  None \<Rightarrow> None
                | Some acc' \<Rightarrow> read_fields fs m acc')))"

definition recipient_fields :: "bytes list" where
  "recipient_fields = [''to'', ''cc'', ''bcc'']"

fun from_arguments :: "json_map option \<Rightarrow> email_recipients" where
  "from_arguments None = no_recipients"
| "from_arguments (Some m) =
     (case read_fields recipient_fields m (0, {}) of
        None \<Rightarrow> no_recipients
      | Some (count, ds) \<Rightarrow> \<lparr>valid = 0 < count, domains = ds\<rparr>)"

section \<open>What the facts say about a message\<close>

text \<open>The domain of one value of the envelope, if it is a bare mailbox.\<close>

definition value_domain :: "json \<Rightarrow> bytes option" where
  "value_domain v = Option.bind (as_str v) mailbox_domain"

lemma read_values_iff:
  "read_values vs (n, ds) = Some (n', ds') \<longleftrightarrow>
     (vs \<noteq> [] \<longrightarrow> n + length vs \<le> 1000) \<and> list_all (\<lambda>v. value_domain v \<noteq> None) vs \<and>
     n' = n + length vs \<and> ds' = ds \<union> (to_ascii_lowercase \<circ> the \<circ> value_domain) ` set vs"
proof (induction vs arbitrary: n ds)
  case (Cons v vs)
  then show ?case
    by (cases "as_str v"; cases "mailbox_domain (the (as_str v))")
       (auto simp: value_domain_def split: if_splits)
qed auto

text \<open>The values of all fields, unless some field is neither a string nor an array.\<close>

fun envelope :: "bytes list \<Rightarrow> json_map \<Rightarrow> json list option" where
  "envelope [] m = Some []"
| "envelope (f # fs) m =
     (case map_of m f of
        None \<Rightarrow> envelope fs m
      | Some v \<Rightarrow>
          (case (field_values v, envelope fs m) of
             (Some vs, Some ws) \<Rightarrow> Some (vs @ ws)
           | _ \<Rightarrow> None))"

definition deliverable :: "json list \<Rightarrow> bool" where
  "deliverable vs \<longleftrightarrow> length vs \<le> 1000 \<and> list_all (\<lambda>v. value_domain v \<noteq> None) vs"

lemma read_fields_iff:
  assumes "n \<le> 1000"
  shows "read_fields fs m (n, ds) = Some (n', ds') \<longleftrightarrow>
     (\<exists>vs. envelope fs m = Some vs \<and> n + length vs \<le> 1000 \<and> list_all (\<lambda>v. value_domain v \<noteq> None) vs \<and>
           n' = n + length vs \<and> ds' = ds \<union> (to_ascii_lowercase \<circ> the \<circ> value_domain) ` set vs)"
  using assms
proof (induction fs arbitrary: n ds)
  case (Cons f fs)
  show ?case
  proof (cases "map_of m f")
    case (Some v)
    show ?thesis
    proof (cases "field_values v")
      case vs: (Some vs)
      show ?thesis
      proof (cases "read_values vs (n, ds)")
        case None
        then have "\<not> ((vs \<noteq> [] \<longrightarrow> n + length vs \<le> 1000) \<and> list_all (\<lambda>v. value_domain v \<noteq> None) vs)"
          using read_values_iff[of vs n ds] by fastforce
        with Some vs None show ?thesis by (auto split: option.splits)
      next
        case acc: (Some acc)
        obtain n1 ds1 where [simp]: "acc = (n1, ds1)" by force
        have r: "(vs \<noteq> [] \<longrightarrow> n + length vs \<le> 1000)" "list_all (\<lambda>v. value_domain v \<noteq> None) vs"
          "n1 = n + length vs" "ds1 = ds \<union> (to_ascii_lowercase \<circ> the \<circ> value_domain) ` set vs"
          using acc read_values_iff[of vs n ds n1 ds1] by auto
        with Cons.prems have "n1 \<le> 1000" by (cases vs) auto
        from Cons.IH[OF this, of ds1] Some vs acc r show ?thesis
          by (auto split: option.splits)
      qed
    qed (use Some in simp)
  qed (use Cons in simp)
qed auto

lemma to_ascii_lowercase_idem [simp]:
  "to_ascii_lowercase (to_ascii_lowercase s) = to_ascii_lowercase s"
  by (auto simp: to_ascii_lowercase_def ascii_lower_char_def Let_def)

text \<open>C40: The recipient facts of a call are all or nothing. When every value under \<open>to\<close>, \<open>cc\<close> and \<open>bcc\<close> is a
  bare mailbox and there are at most 1000 of them, the facts name exactly the lower-cased domains of all
  the recipients, and are marked valid when there is a recipient at all; in every other case they are the
  empty, invalid facts, so that no policy sees part of the envelope.\<close>

theorem recipient_facts_all_or_nothing:
  "from_arguments (Some m) =
     (case envelope recipient_fields m of
        None \<Rightarrow> \<lparr>valid = False, domains = {}\<rparr>
      | Some vs \<Rightarrow>
          if deliverable vs
          then \<lparr>valid = (vs \<noteq> []),
                domains = {to_ascii_lowercase d |v s d. v \<in> set vs \<and> v = JStr s \<and> mailbox_domain s = Some d}\<rparr>
          else \<lparr>valid = False, domains = {}\<rparr>)"
proof -
  have dom: "(to_ascii_lowercase \<circ> the \<circ> value_domain) ` set vs =
      {to_ascii_lowercase d |v s d. v \<in> set vs \<and> v = JStr s \<and> mailbox_domain s = Some d}"
    if "list_all (\<lambda>v. value_domain v \<noteq> None) vs" for vs
  proof -
    have "v \<in> set vs \<Longrightarrow> \<exists>s d. v = JStr s \<and> mailbox_domain s = Some d" for v
      using that by (cases v) (auto simp: list_all_iff value_domain_def)
    then show ?thesis by (force simp: value_domain_def image_iff)
  qed
  show ?thesis
  proof (cases "read_fields recipient_fields m (0, {})")
    case None
    then have "\<not> (\<exists>vs. envelope recipient_fields m = Some vs \<and> deliverable vs)"
      using read_fields_iff[of 0 recipient_fields m "{}"] by (fastforce simp: deliverable_def)
    with None show ?thesis by (auto simp: no_recipients_def split: option.splits)
  next
    case (Some acc)
    obtain n ds where [simp]: "acc = (n, ds)" by force
    from Some read_fields_iff[of 0 recipient_fields m "{}" n ds] obtain vs where
      vs: "envelope recipient_fields m = Some vs" "deliverable vs" "n = length vs"
        "ds = (to_ascii_lowercase \<circ> the \<circ> value_domain) ` set vs"
      by (auto simp: deliverable_def)
    from vs(2) have "list_all (\<lambda>v. value_domain v \<noteq> None) vs" by (simp add: deliverable_def)
    from dom[OF this] Some vs show ?thesis by simp
  qed
qed

end
