(* ===== verification/Invocation_Data.thy ===== *)
theory Invocation_Data
  imports Request_Facts Audit_Log Quota "HOL-Library.Char_ord" "HOL-Library.List_Lexorder"
begin

text \<open>
  The data of a governed tool call: \<open>crates/waygate-mcp/src/authz.rs\<close> (facts, verdicts, profiles),
  \<open>crates/waygate-mcp/src/catalog.rs\<close> (the admitted tool snapshot), \<open>crates/waygate-invocation/src/lib.rs\<close>
  (the error type), \<open>crates/waygate-evidence/src/audit.rs\<close> (building audit events) and
  \<open>crates/waygate-oidc/src/lib.rs\<close> (the principal).
\<close>

section \<open>Text\<close>

definition fq :: "bytes \<Rightarrow> bytes \<Rightarrow> bytes" where
  "fq sv tn = sv @ ''.'' @ tn"

fun decimal :: "nat \<Rightarrow> bytes" where
  "decimal n = (if n < 10 then [char_of (48 + n)] else decimal (n div 10) @ [char_of (48 + n mod 10)])"

declare decimal.simps [simp del]

definition hex_text :: "bytes \<Rightarrow> bytes" where
  "hex_text bs = concat (map hex_byte bs)"

definition uuid_text :: "uuid \<Rightarrow> bytes" where
  "uuid_text u =
     (let h = hex_text (uuid_as_bytes u) in
      take 8 h @ ''-'' @ take 4 (drop 8 h) @ ''-'' @ take 4 (drop 12 h) @ ''-'' @
      take 4 (drop 16 h) @ ''-'' @ drop 20 h)"

section \<open>Principals\<close>

datatype auth_method = Oauth | ApiKey | PeerAssertion

fun auth_method_as_str :: "auth_method \<Rightarrow> bytes" where
  "auth_method_as_str Oauth = ''oauth''"
| "auth_method_as_str ApiKey = ''api_key''"
| "auth_method_as_str PeerAssertion = ''peer_assertion''"

record profile_restrictions =
  profile_id :: bytes
  profile_name :: bytes
  allowed_servers :: "bytes list option"
  allowed_tools :: "bytes list option"

record principal =
  pr_sub :: bytes
  pr_email :: "bytes option"
  pr_groups :: "bytes list"
  pr_issuer :: bytes
  pr_scopes :: "bytes list"
  pr_tenant :: bytes
  pr_auth_method :: auth_method
  pr_scim :: "(bool \<times> bytes list) option"
  pr_roles :: "bytes list"
  pr_restrictions :: "profile_restrictions option"

definition default_tenant :: bytes where
  "default_tenant = ''default''"

definition tenant_or_default :: "principal option \<Rightarrow> bytes" where
  "tenant_or_default p = (case p of None \<Rightarrow> default_tenant | Some p \<Rightarrow> pr_tenant p)"

section \<open>Facts, operations and the admitted snapshot\<close>

record tool_facts =
  tf_server :: bytes
  tf_name :: bytes
  tf_risk :: risk_tier
  tf_side_effects :: bool
  tf_pii :: bool
  tf_requires_approval :: bool
  tf_requires_approval_known :: bool

definition admitted_by_read_only_ceiling :: "tool_facts \<Rightarrow> bool" where
  "admitted_by_read_only_ceiling f \<longleftrightarrow>
     \<not> tf_side_effects f \<and> tf_requires_approval_known f \<and> \<not> tf_requires_approval f"

datatype resolution_authority =
    Catalog uuid bytes
  | ManifestFallback bool "bytes option"
  | SyntheticModel

record operation_classification =
  oc_value :: bytes
  oc_risk :: risk_tier
  oc_side_effects :: bool
  oc_pii :: bool

text \<open>A compiled JSON schema: the sanitised first violation of a value, if any.\<close>

type_synonym validator = "json \<Rightarrow> bytes option"

record snapshot =
  sn_facts :: tool_facts
  sn_authority :: resolution_authority
  sn_description :: "bytes option"
  sn_input_schema :: "json option"
  sn_input_schema_hash :: "bytes option"
  sn_input_schema_unavailable :: bool
  sn_output_schema :: "json option"
  sn_output_schema_hash :: "bytes option"
  sn_tool_annotations :: "json option"
  sn_action_metadata :: "json option"
  sn_annotation_claims_enforced :: bool
  sn_anticipated_sensitive_output :: bool
  sn_output_validator :: "validator option"
  sn_discriminator :: "bytes option"
  sn_operations :: "operation_classification list"

record operation_resolution =
  or_requested :: "bytes option"
  or_classified :: bool
  or_inadmissible :: bool

definition no_operation :: operation_resolution where
  "no_operation = \<lparr>or_requested = None, or_classified = False, or_inadmissible = False\<rparr>"

definition operation_name_ok :: "bytes \<Rightarrow> bool" where
  "operation_name_ok r \<longleftrightarrow> \<not> (r = [] \<or> 256 < chars_count r \<or> \<not> list_all is_ascii_graphic r)"

definition resolve_operation :: "snapshot \<Rightarrow> json_map option \<Rightarrow> operation_resolution" where
  "resolve_operation sn arguments =
     (case sn_discriminator sn of
        None \<Rightarrow> no_operation
      | Some d \<Rightarrow>
          (case Option.bind (Option.bind arguments (\<lambda>a. map_of a d)) as_str of
             None \<Rightarrow> no_operation
           | Some r \<Rightarrow>
               if \<not> operation_name_ok r
               then \<lparr>or_requested = None, or_classified = False, or_inadmissible = True\<rparr>
               else \<lparr>or_requested = Some r, or_classified = (\<exists>c\<in>set (sn_operations sn). oc_value c = r),
                     or_inadmissible = False\<rparr>))"

definition facts_for :: "snapshot \<Rightarrow> json_map option \<Rightarrow> tool_facts" where
  "facts_for sn arguments =
     (let res = resolve_operation sn arguments in
      case (if or_classified res
            then Option.bind (or_requested res) (\<lambda>v. List.find (\<lambda>c. oc_value c = v) (sn_operations sn))
            else None) of
        None \<Rightarrow> sn_facts sn
      | Some c \<Rightarrow> (sn_facts sn)\<lparr>tf_risk := oc_risk c, tf_side_effects := oc_side_effects c,
                               tf_pii := oc_pii c\<rparr>)"

text \<open>Hidden spellings of the selector and of the nested arguments.\<close>

definition normalize_envelope_field ::
  "json_map \<Rightarrow> bytes list \<Rightarrow> bytes \<Rightarrow> bytes list \<Rightarrow> bytes + json_map" where
  "normalize_envelope_field arguments properties canonical aliases =
     (let live = filter (\<lambda>a. a \<noteq> canonical \<and> a \<notin> set properties) aliases;
          supplied = (if map_of arguments canonical \<noteq> None then 1 else 0) +
                     length (filter (\<lambda>a. map_of arguments a \<noteq> None) live)
      in if 1 < supplied then Inl (''supply only one spelling of `'' @ canonical @ ''`'')
         else Inr (fold (\<lambda>a m. case map_of m a of
                                 None \<Rightarrow> m
                               | Some v \<Rightarrow> map_insert canonical v (map_remove a m)) live arguments))"

definition selectors :: "bytes list" where
  "selectors = [''operation_id'', ''operation'', ''name'', ''tool'']"

definition canonical_selector :: "bytes list \<Rightarrow> bytes \<Rightarrow> bytes option \<Rightarrow> bytes option" where
  "canonical_selector properties tool_name discriminator =
     (let undeclared =
            (if ''operation_id'' \<in> set properties \<and> ''arguments'' \<in> set properties then Some ''operation_id''
             else if tool_name \<notin> {''catalog.describe'', ''operations.describe''} then None
             else case filter (\<lambda>f. f \<in> set properties) selectors of [f] \<Rightarrow> Some f | _ \<Rightarrow> None)
      in case discriminator of
           Some d \<Rightarrow> if d \<in> set selectors \<and> d \<in> set properties then Some d else undeclared
         | None \<Rightarrow> undeclared)"

definition normalize_envelope_arguments ::
  "bytes list \<Rightarrow> bytes \<Rightarrow> bytes option \<Rightarrow> json_map \<Rightarrow> bytes + json_map" where
  "normalize_envelope_arguments properties tool_name discriminator arguments =
     (case canonical_selector properties tool_name discriminator of
        None \<Rightarrow> Inr arguments
      | Some canonical \<Rightarrow>
          (case normalize_envelope_field arguments properties canonical selectors of
             Inl e \<Rightarrow> Inl e
           | Inr m \<Rightarrow>
               if ''arguments'' \<in> set properties \<and> ''args'' \<notin> set properties
               then normalize_envelope_field m properties ''arguments'' [''args'']
               else Inr m))"

text \<open>The contract identity; \<open>sh\<close> is \<open>waygate_catalog::validator_schema_hash\<close>.\<close>

record contract_identity =
  ci_authority :: resolution_authority
  ci_input_schema_hash :: "bytes option"
  ci_output_schema_hash :: "bytes option"
  ci_tool_annotations_hash :: "bytes option"
  ci_action_metadata_hash :: "bytes option"
  ci_operations_hash :: "bytes option"
  ci_risk :: risk_tier
  ci_side_effects :: bool
  ci_pii :: bool
  ci_requires_approval :: bool
  ci_requires_approval_known :: bool

definition operation_json :: "operation_classification \<Rightarrow> json" where
  "operation_json c =
     JObj [(''value'', JStr (oc_value c)), (''risk'', JStr (risk_str (oc_risk c))),
           (''side_effects'', JBool (oc_side_effects c)), (''pii'', JBool (oc_pii c))]"

definition operations_hash :: "(json \<Rightarrow> bytes) \<Rightarrow> snapshot \<Rightarrow> bytes option" where
  "operations_hash sh sn =
     map_option (\<lambda>d. sh (JObj [(''discriminator'', JStr d),
        (''operations'', JArr (map operation_json (sort_key oc_value (sn_operations sn))))]))
       (sn_discriminator sn)"

definition contract_identity_of :: "(json \<Rightarrow> bytes) \<Rightarrow> snapshot \<Rightarrow> contract_identity" where
  "contract_identity_of sh sn =
     \<lparr>ci_authority = sn_authority sn,
      ci_input_schema_hash = sn_input_schema_hash sn,
      ci_output_schema_hash = sn_output_schema_hash sn,
      ci_tool_annotations_hash = map_option sh (sn_tool_annotations sn),
      ci_action_metadata_hash = map_option sh (sn_action_metadata sn),
      ci_operations_hash = operations_hash sh sn,
      ci_risk = tf_risk (sn_facts sn),
      ci_side_effects = tf_side_effects (sn_facts sn),
      ci_pii = tf_pii (sn_facts sn),
      ci_requires_approval = tf_requires_approval (sn_facts sn),
      ci_requires_approval_known = tf_requires_approval_known (sn_facts sn)\<rparr>"

datatype tool_refusal =
    ServerQuarantined | ServerRetired | NotInCatalog | Unclassified | NotAdmitted | LanesDisagree
  | DriftQuarantined | ReviewRequired | KeptBlocked | ApprovalPending

fun refusal_code :: "tool_refusal \<Rightarrow> bytes" where
  "refusal_code ServerQuarantined = ''server_quarantined''"
| "refusal_code ServerRetired = ''server_retired''"
| "refusal_code NotInCatalog = ''not_in_catalog''"
| "refusal_code Unclassified = ''unclassified''"
| "refusal_code NotAdmitted = ''not_admitted''"
| "refusal_code LanesDisagree = ''lanes_disagree''"
| "refusal_code DriftQuarantined = ''drift_quarantined''"
| "refusal_code ReviewRequired = ''review_required''"
| "refusal_code KeptBlocked = ''kept_blocked''"
| "refusal_code ApprovalPending = ''approval_pending''"

datatype temporary_unavailability =
  CatalogUnavailable | CatalogConverging | ReviewUnavailable | NoConnectedLane

fun unavailability_code :: "temporary_unavailability \<Rightarrow> bytes" where
  "unavailability_code CatalogUnavailable = ''catalog_unavailable''"
| "unavailability_code CatalogConverging = ''catalog_converging''"
| "unavailability_code ReviewUnavailable = ''review_unavailable''"
| "unavailability_code NoConnectedLane = ''no_connected_lane''"

datatype resolved_tool =
    Ready snapshot
  | ToolRefused bytes bytes tool_refusal
  | ToolUnavailableNow bytes bytes temporary_unavailability

section \<open>Errors\<close>

text \<open>\<open>rmcp::model::ErrorData\<close>: the JSON-RPC code, the message and the data.\<close>

datatype error_data = ErrorData int bytes "json option"

definition internal_error :: "bytes \<Rightarrow> json option \<Rightarrow> error_data" where
  "internal_error msg data = ErrorData (- 32603) msg data"

datatype invocation_error =
    InvalidArguments bytes
  | InputSchemaViolation bytes bytes
  | InputSchemaInvalid bytes
  | ReadOnlyRequired bytes
  | ReadOnlyOperationRequired bytes bytes bytes
  | Forbidden bytes "bytes list" "bytes list" "bytes option"
  | ToolUnavailable bytes bytes
  | StepUpRequired bytes bytes
  | Upstream error_data
  | AuditUnavailable bytes
  | ApprovalRequired bytes bytes bool
  | CallRateLimited uuid bytes nat
  | ProfileServerNotAllowed bytes bytes bytes
  | ProfileToolNotAllowed bytes bytes bytes
  | OutputSchemaViolation bytes bytes
  | ToolSchemaInvalid bytes
  | ResponseInspectionBlocked bytes bytes bytes
  | ResponseMaterializationLimit bytes nat nat
  | BudgetExceeded bytes bytes

datatype authz_verdict =
    Allow "bytes list"
  | Deny bytes "bytes list" "bytes list"
  | StepUp bytes bytes "bytes list"
  | NeedsApproval bytes "bytes list"

section \<open>Profiles\<close>

definition list_admits :: "bytes list option \<Rightarrow> bytes \<Rightarrow> bool" where
  "list_admits l x \<longleftrightarrow> (case l of None \<Rightarrow> True | Some xs \<Rightarrow> xs = [] \<or> x \<in> set xs)"

definition evaluate_profile_restrictions ::
  "profile_restrictions \<Rightarrow> bytes \<Rightarrow> bytes \<Rightarrow> invocation_error option" where
  "evaluate_profile_restrictions r sv tn =
     (if \<not> list_admits (allowed_servers r) sv
      then Some (ProfileServerNotAllowed (profile_id r) (profile_name r) sv)
      else if \<not> list_admits (allowed_tools r) (fq sv tn)
      then Some (ProfileToolNotAllowed (profile_id r) (profile_name r) (fq sv tn))
      else None)"

definition starts_with :: "bytes \<Rightarrow> bytes \<Rightarrow> bool" where
  "starts_with pre s \<longleftrightarrow> take (length pre) s = pre"

definition profile_blocks_server :: "principal \<Rightarrow> bytes \<Rightarrow> bool" where
  "profile_blocks_server p sv =
     (case pr_restrictions p of
        None \<Rightarrow> False
      | Some r \<Rightarrow>
          if \<not> list_admits (allowed_servers r) sv then True
          else (case allowed_tools r of
                  None \<Rightarrow> False
                | Some ns \<Rightarrow> ns \<noteq> [] \<and> \<not> (\<exists>t\<in>set ns. starts_with (sv @ ''.'') t)))"

text \<open>The facts of a call handed to the policy decision point. The fields of \<open>waygate_core::Facts\<close> that
  \<open>build_call_facts\<close> always leaves at their default are omitted.\<close>

record call_facts =
  cf_sub :: bytes
  cf_email :: "bytes option"
  cf_groups :: "bytes list"
  cf_scopes :: "bytes list"
  cf_auth_method :: bytes
  cf_roles :: "bytes list"
  cf_scim :: "(bool \<times> bytes list) option"
  cf_tenant :: bytes
  cf_required_scope :: "bytes option"
  cf_server :: bytes
  cf_tool :: bytes
  cf_risk :: risk_tier
  cf_side_effects :: bool
  cf_pii :: bool
  cf_operation :: "bytes option"
  cf_request :: "(email_recipients \<times> bytes) option"

fun required_scope_for :: "risk_tier \<Rightarrow> bytes option" where
  "required_scope_for Low = None"
| "required_scope_for Medium = None"
| "required_scope_for High = Some ''mcp:invoke:high''"

definition build_call_facts :: "principal \<Rightarrow> tool_facts \<Rightarrow> call_facts" where
  "build_call_facts p f =
     \<lparr>cf_sub = pr_sub p, cf_email = pr_email p, cf_groups = pr_groups p, cf_scopes = pr_scopes p,
      cf_auth_method = auth_method_as_str (pr_auth_method p), cf_roles = pr_roles p, cf_scim = pr_scim p,
      cf_tenant = pr_tenant p, cf_required_scope = required_scope_for (tf_risk f),
      cf_server = tf_server f, cf_tool = tf_name f, cf_risk = tf_risk f,
      cf_side_effects = tf_side_effects f, cf_pii = tf_pii f, cf_operation = None, cf_request = None\<rparr>"

section \<open>Building audit events\<close>

datatype audit_mode = BestEffortAudit | FailClosed

datatype audit_outcome = OutSuccess | OutExecutionError | OutDenied | OutStepUpRequired

fun audit_outcome_str :: "audit_outcome \<Rightarrow> bytes" where
  "audit_outcome_str OutSuccess = ''success''"
| "audit_outcome_str OutExecutionError = ''execution_error''"
| "audit_outcome_str OutDenied = ''denied''"
| "audit_outcome_str OutStepUpRequired = ''step_up_required''"

definition audit_principal_of :: "principal \<Rightarrow> audit_principal" where
  "audit_principal_of p =
     \<lparr>p_sub = pr_sub p, p_email = pr_email p, p_groups = pr_groups p, p_issuer = pr_issuer p,
      p_scim_active = map_option fst (pr_scim p),
      p_scim_groups = (case pr_scim p of None \<Rightarrow> [] | Some (_, gs) \<Rightarrow> gs)\<rparr>"

definition audit_event_new :: "uuid \<Rightarrow> int \<Rightarrow> bytes \<Rightarrow> audit_outcome \<Rightarrow> audit_event" where
  "audit_event_new eid t act oc =
     \<lparr>ev_id = eid, ev_ts = t, ev_category = ''invocation'', ev_tenant = default_tenant, ev_principal = None,
      ev_action = act, ev_server = None, ev_tool = None, ev_operation = None,
      ev_outcome = audit_outcome_str oc, ev_risk_level = None, ev_pii = None, ev_policy_ids = [],
      ev_reason = None, ev_trace_id = None, ev_latency_ms = None, ev_target = None, ev_req_scopes = [],
      ev_auth_method = None, ev_req_roles = [], ev_side_effects = None, ev_acting_agent = None,
      ev_hierarchy = None\<rparr>"

definition with_principal :: "principal option \<Rightarrow> audit_event \<Rightarrow> audit_event" where
  "with_principal p e =
     (case p of
        None \<Rightarrow> e\<lparr>ev_principal := None\<rparr>
      | Some p \<Rightarrow> e\<lparr>ev_tenant := pr_tenant p, ev_principal := Some (audit_principal_of p)\<rparr>)"

definition with_tool :: "bytes \<Rightarrow> bytes \<Rightarrow> audit_event \<Rightarrow> audit_event" where
  "with_tool sv tn e = e\<lparr>ev_server := Some sv, ev_tool := Some tn\<rparr>"

definition with_risk_pii :: "tool_facts \<Rightarrow> audit_event \<Rightarrow> audit_event" where
  "with_risk_pii f e = e\<lparr>ev_risk_level := Some (tf_risk f), ev_pii := Some (tf_pii f)\<rparr>"

definition with_reason :: "bytes \<Rightarrow> audit_event \<Rightarrow> audit_event" where
  "with_reason r e = e\<lparr>ev_reason := Some r\<rparr>"

definition with_trace_id :: "bytes \<Rightarrow> audit_event \<Rightarrow> audit_event" where
  "with_trace_id t e = e\<lparr>ev_trace_id := Some t\<rparr>"

definition with_policies :: "bytes list \<Rightarrow> audit_event \<Rightarrow> audit_event" where
  "with_policies ids e = e\<lparr>ev_policy_ids := ids\<rparr>"

definition with_latency_ms :: "i64 \<Rightarrow> audit_event \<Rightarrow> audit_event" where
  "with_latency_ms ms e = e\<lparr>ev_latency_ms := Some ms\<rparr>"

definition with_decision_inputs :: "principal option \<Rightarrow> tool_facts \<Rightarrow> audit_event \<Rightarrow> audit_event" where
  "with_decision_inputs p f e =
     (case p of
        Some p \<Rightarrow> e\<lparr>ev_req_scopes := pr_scopes p,
                     ev_auth_method := Some (auth_method_as_str (pr_auth_method p)),
                     ev_req_roles := pr_roles p, ev_side_effects := Some (tf_side_effects f)\<rparr>
      | None \<Rightarrow> e\<lparr>ev_req_scopes := [], ev_auth_method := None, ev_req_roles := [],
                   ev_side_effects := None\<rparr>)"

lemmas event_builders =
  audit_event_new_def with_principal_def with_tool_def with_risk_pii_def with_reason_def
  with_trace_id_def with_policies_def with_latency_ms_def with_decision_inputs_def

end
