(* ===== verification/Invocation.thy ===== *)
theory Invocation
  imports Invocation_Data
begin

text \<open>
  The governed tool-call pipeline: \<open>crates/waygate-mcp/src/invocation/\<close>.

  The services behind the pipeline are trait objects in the source (catalog, policy decision point,
  quota, grant store, evidence recorder, file processors, inspectors), so they are the fields of the
  record \<open>service\<close>, acting on a world of any type. A call is the record \<open>call\<close>: the invocation context,
  the world, and the trail of the calls made on the services, in order. A stage is a function of a call;
  it returns an error or a value together with the call it leaves.

  The inference fast path is not part of the model, nor are upstream tasks (no task router is wired, so
  a task envelope is refused) and the delivery of retained or oversized bodies as files (no inline
  threshold is set and the upstream retains no body).
\<close>

section \<open>Stages and trails\<close>

datatype invocation_stage =
    ResolveTool | ValidateInput | ExtractFacts | Authorize | CheckProfileRestrictions
  | PrepareOutputValidation | CheckQuota | CheckApproval | RecordPreCall | PrepareFileInputs
  | Dispatch | InspectResponse | PrepareFileOutputs | ValidateOutput | RecordOutcome

definition all_stages :: "invocation_stage list" where
  "all_stages =
     [ResolveTool, ValidateInput, ExtractFacts, Authorize, CheckProfileRestrictions,
      PrepareOutputValidation, CheckQuota, CheckApproval, RecordPreCall, PrepareFileInputs,
      Dispatch, InspectResponse, PrepareFileOutputs, ValidateOutput, RecordOutcome]"

record grant_lookup =
  gl_tenant_id :: bytes
  gl_principal_sub :: bytes
  gl_principal_issuer :: bytes
  gl_client_id :: "bytes option"
  gl_tool_id :: uuid
  gl_argument_hash :: bytes
  gl_execution_binding :: "(uuid \<times> bytes \<times> uuid) option"

record approval_request =
  ar_tenant :: bytes
  ar_principal_issuer :: bytes
  ar_principal_sub :: bytes
  ar_tool_id :: uuid
  ar_server :: bytes
  ar_tool :: bytes
  ar_behavior_hash :: bytes
  ar_argument_hash :: bytes
  ar_description :: "bytes option"
  ar_affected_fields :: "bytes list"

record tool_result =
  r_content :: "json list"
  r_structured :: "json option"
  r_is_error :: "bool option"
  r_meta :: "json_map option"

datatype input_request = Elicitation json | CreateMessage json | ListRoots json | OtherRequest json

record pause =
  ps_requests :: "(bytes \<times> input_request) list option"
  ps_state :: "bytes option"
  ps_meta :: "json_map option"

datatype tool_response = Complete tool_result | InputRequired pause | TaskCreated json | OtherResponse

datatype invocation_response = Unary tool_result | PauseRelayed pause

record capabilities =
  cap_elicitation :: bool
  cap_extensions :: "bytes list"

record mrtr =
  m_input_responses :: "json_map option"
  m_request_state :: "bytes option"
  m_capabilities :: "capabilities option"
  m_approval_gated :: bool

datatype inspection_decision = Pass | Block bytes | Redact tool_result nat

record inspection_context =
  ic_tenant :: bytes
  ic_principal_sub :: "bytes option"
  ic_server :: bytes
  ic_tool :: bytes
  ic_risk :: risk_tier
  ic_pii :: bool

text \<open>One entry of the trail per call on a service.\<close>

datatype effect =
    Entered invocation_stage
  | Recorded audit_event
  | RequiredRecord audit_event bool
  | Decided authz_verdict
  | QuotaAnswer "quota_action list" "quota_error + unit"
  | GrantClaimed grant_lookup
  | RequestRetained approval_request
  | ApproverNotified
  | FilesPrepared
  | Dispatched "json_map option" contract_identity mrtr
  | BatchPublished bytes
  | BatchDiscarded bytes

section \<open>Continuation envelopes\<close>

record call_identity =
  id_server :: bytes
  id_tool :: bytes
  id_digest :: bytes
  id_contract :: bytes

record sealed_continuation =
  k_sub :: bytes
  k_iss :: bytes
  k_tenant :: bytes
  k_server :: bytes
  k_tool :: bytes
  k_args :: bytes
  k_contract :: bytes
  k_exp :: int
  k_keys :: "bytes list"
  k_file_keys :: "bytes list"
  k_inner :: "bytes option"

definition continuation_ttl_seconds :: int where
  "continuation_ttl_seconds = 30 * 60"

definition is_elicitation :: "input_request \<Rightarrow> bool" where
  "is_elicitation r \<longleftrightarrow> (case r of Elicitation _ \<Rightarrow> True | _ \<Rightarrow> False)"

definition issued_keys :: "(bytes \<times> input_request) list option \<Rightarrow> bytes list \<times> bytes list" where
  "issued_keys requests =
     (case requests of
        None \<Rightarrow> ([], [])
      | Some rs \<Rightarrow> (map fst rs, map fst (filter (\<lambda>(_, r). is_elicitation r) rs)))"

definition seal_claims ::
  "int \<Rightarrow> principal \<Rightarrow> call_identity \<Rightarrow> (bytes \<times> input_request) list option \<Rightarrow> bytes option \<Rightarrow>
   sealed_continuation" where
  "seal_claims now_unix p c requests upstream_state =
     \<lparr>k_sub = pr_sub p, k_iss = pr_issuer p, k_tenant = pr_tenant p, k_server = id_server c,
      k_tool = id_tool c, k_args = id_digest c, k_contract = id_contract c,
      k_exp = now_unix + continuation_ttl_seconds, k_keys = fst (issued_keys requests),
      k_file_keys = snd (issued_keys requests), k_inner = upstream_state\<rparr>"

definition bound_to :: "principal \<Rightarrow> call_identity \<Rightarrow> sealed_continuation \<Rightarrow> bool" where
  "bound_to p c k \<longleftrightarrow>
     k_sub k = pr_sub p \<and> k_iss k = pr_issuer p \<and> k_tenant k = pr_tenant p \<and> k_server k = id_server c \<and>
     k_tool k = id_tool c \<and> k_args k = id_digest c \<and> k_contract k = id_contract c"

datatype continuation_error = Unverifiable | NotForThisRequest

text \<open>\<open>session::decrypt\<close>: the authenticated box \<open>aead_open\<close>, then the expiry.\<close>

definition session_decrypt ::
  "(bytes \<Rightarrow> sealed_continuation option) \<Rightarrow> int \<Rightarrow> bytes \<Rightarrow> sealed_continuation option" where
  "session_decrypt aead_open now_unix sealed =
     (case aead_open sealed of
        None \<Rightarrow> None
      | Some k \<Rightarrow> if k_exp k < now_unix then None else Some k)"

definition open_continuation ::
  "(bytes \<Rightarrow> sealed_continuation option) \<Rightarrow> int \<Rightarrow> principal \<Rightarrow> call_identity \<Rightarrow> bytes \<Rightarrow> bytes list \<Rightarrow>
   continuation_error + bytes option \<times> bytes list" where
  "open_continuation aead_open now_unix p c sealed answered =
     (case session_decrypt aead_open now_unix sealed of
        None \<Rightarrow> Inl Unverifiable
      | Some k \<Rightarrow>
          if \<not> bound_to p c k then Inl NotForThisRequest
          else if \<exists>key\<in>set answered. key \<notin> set (k_keys k) then Inl NotForThisRequest
          else Inr (k_inner k, k_file_keys k))"

section \<open>Services and calls\<close>

record 'w file_input =
  fi_admit :: "json option \<Rightarrow> validator option \<Rightarrow> json_map option \<Rightarrow> json_map option \<Rightarrow> bytes list \<Rightarrow>
               error_data option"
  fi_prepare :: "json option \<Rightarrow> json_map option \<Rightarrow> 'w \<Rightarrow> 'w \<times> (error_data + json_map option \<times> bool)"
  fi_prepare_continuation :: "json_map \<Rightarrow> bytes list \<Rightarrow> 'w \<Rightarrow> 'w \<times> (error_data + json_map)"

record 'w file_output =
  fo_prepare :: "tool_result \<Rightarrow> 'w \<Rightarrow> 'w \<times> (error_data + tool_result \<times> bytes option)"
  fo_publish :: "bytes \<Rightarrow> 'w \<Rightarrow> 'w \<times> error_data option"
  fo_discard :: "bytes \<Rightarrow> 'w \<Rightarrow> 'w"

record 'w sealer =
  sl_seal :: "sealed_continuation \<Rightarrow> 'w \<Rightarrow> bytes option"
  sl_open :: "bytes \<Rightarrow> sealed_continuation option"
  sl_now :: "'w \<Rightarrow> int"

type_synonym inspector = "bytes \<times> (inspection_context \<Rightarrow> tool_result \<Rightarrow> inspection_decision)"

text \<open>The wiring of the service. The fields from \<open>sv_argument_hash\<close> on stand for libraries and for code of
  other crates the pipeline calls: hashes, the JSON schema compiler and queries on schemas, the count
  clamp of a projected schema, serialisation, the clock and identifier generation.\<close>

record 'w service =
  sv_resolve :: "bytes \<Rightarrow> bytes \<Rightarrow> bytes \<Rightarrow> 'w \<Rightarrow> resolved_tool"
  sv_may_discover :: "principal \<Rightarrow> bytes \<Rightarrow> 'w \<Rightarrow> bool"
  sv_authorize :: "call_facts \<Rightarrow> 'w \<Rightarrow> 'w \<times> authz_verdict"
  sv_quota :: "(quota_context \<Rightarrow> quota_action list \<Rightarrow> 'w \<Rightarrow> 'w \<times> (quota_error + unit)) option"
  sv_claim_grant :: "(grant_lookup \<Rightarrow> 'w \<Rightarrow> 'w \<times> (unit + bytes option)) option"
  sv_retain_request :: "(approval_request \<Rightarrow> 'w \<Rightarrow> 'w \<times> bool) option"
  sv_notifier :: bool
  sv_audit_mode :: audit_mode
  sv_record_required :: "audit_event \<Rightarrow> 'w \<Rightarrow> 'w \<times> bool"
  sv_record_chained :: "audit_event \<Rightarrow> 'w \<Rightarrow> 'w"
  sv_call_tool :: "bytes \<Rightarrow> bytes \<Rightarrow> json_map option \<Rightarrow> principal option \<Rightarrow> contract_identity \<Rightarrow> mrtr \<Rightarrow> 'w \<Rightarrow>
                   'w \<times> (invocation_error + tool_response)"
  sv_inspectors :: "inspector list"
  sv_file_input :: "'w file_input option"
  sv_file_output :: "'w file_output option"
  sv_sealer :: "'w sealer option"
  sv_argument_hash :: "json_map option \<Rightarrow> bytes"
  sv_schema_hash :: "json \<Rightarrow> bytes"
  sv_sha256 :: "bytes \<Rightarrow> bytes"
  sv_compile :: "json \<Rightarrow> validator option"
  sv_object_root :: "json \<Rightarrow> bool"
  sv_root_properties :: "json \<Rightarrow> bytes list"
  sv_clamp_count :: "snapshot \<Rightarrow> json_map \<Rightarrow> json_map \<times> (tool_result \<Rightarrow> tool_result) option"
  sv_error_text :: "error_data \<Rightarrow> bytes"
  sv_contract_text :: "contract_identity \<Rightarrow> bytes"
  sv_pause_value :: "pause \<Rightarrow> json option"
  sv_structured_result :: "json \<Rightarrow> tool_result"
  sv_missing_capability_code :: int
  sv_tasks_extension :: bytes
  sv_fresh :: "'w \<Rightarrow> (uuid \<times> int) \<times> 'w"
  sv_trace_id :: "'w \<Rightarrow> bytes \<times> 'w"
  sv_elapsed_ms :: "'w \<Rightarrow> 'w \<Rightarrow> i64"

record 'w call =
  c_principal :: "principal option"
  c_server :: bytes
  c_tool :: bytes
  c_invocation_id :: uuid
  c_snapshot :: "snapshot option"
  c_effective_facts :: "tool_facts option"
  c_operation :: "bytes option"
  c_operation_classified :: bool
  c_pip_facts :: "call_facts option"
  c_arguments :: "json_map option"
  c_count_adjustment :: "(tool_result \<Rightarrow> tool_result) option"
  c_input_responses :: "json_map option"
  c_request_state :: "bytes option"
  c_capabilities :: "capabilities option"
  c_latency_ms :: "i64 option"
  c_authz_policy_ids :: "bytes list"
  c_pending_redactions :: "(bytes \<times> nat) list"
  c_acting_agent :: "bytes option"
  c_hierarchy :: "invocation_hierarchy option"
  c_approval_binding :: "(uuid \<times> bytes \<times> uuid) option"
  c_cedar_approval_policies :: "bytes list option"
  c_policy_gated_grant_consumed :: bool
  c_digest :: bytes
  c_deliverable_keys :: "bytes list option"
  c_compiled_input :: "validator option"
  world :: 'w
  trail :: "effect list"

type_synonym ('w, 'a) stage = "'w call \<Rightarrow> (invocation_error + 'a) \<times> 'w call"

definition facts :: "'w call \<Rightarrow> tool_facts" where
  "facts s = the (c_effective_facts s)"

definition tool_snapshot :: "'w call \<Rightarrow> snapshot" where
  "tool_snapshot s = the (c_snapshot s)"

definition call_fq :: "'w call \<Rightarrow> bytes" where
  "call_fq s = fq (c_server s) (c_tool s)"

definition approval_gated :: "'w call \<Rightarrow> bool" where
  "approval_gated s \<longleftrightarrow> tf_requires_approval (facts s) \<or> c_cedar_approval_policies s \<noteq> None"

definition contract_of :: "'w service \<Rightarrow> 'w call \<Rightarrow> contract_identity" where
  "contract_of svc s = contract_identity_of (sv_schema_hash svc) (tool_snapshot s)"

definition emit :: "effect \<Rightarrow> 'w call \<Rightarrow> 'w call" where
  "emit x s = s\<lparr>trail := trail s @ [x]\<rparr>"

text \<open>The \<open>?\<close> operator: the first error ends the sequence.\<close>

fun gates :: "('s \<Rightarrow> ('e + unit) \<times> 's) list \<Rightarrow> 's \<Rightarrow> ('e + unit) \<times> 's" where
  "gates [] s = (Inr (), s)"
| "gates (g # gs) s = (case g s of (Inl e, s') \<Rightarrow> (Inl e, s') | (Inr _, s') \<Rightarrow> gates gs s')"

definition enter_stage :: "invocation_stage \<Rightarrow> ('w, unit) stage" where
  "enter_stage st s = (Inr (), emit (Entered st) s)"

section \<open>Audit rows\<close>

definition context_event :: "'w call \<Rightarrow> uuid \<Rightarrow> int \<Rightarrow> audit_outcome \<Rightarrow> audit_event" where
  "context_event s eid t oc =
     (audit_event_new eid t ''CallTool'' oc)
       \<lparr>ev_acting_agent := c_acting_agent s, ev_hierarchy := c_hierarchy s, ev_operation := c_operation s\<rparr>"

definition record_row ::
  "'w service \<Rightarrow> audit_outcome \<Rightarrow> (audit_event \<Rightarrow> audit_event) \<Rightarrow> 'w call \<Rightarrow> 'w call" where
  "record_row svc oc build s =
     (case sv_fresh svc (world s) of
        ((eid, t), w) \<Rightarrow>
          let e = build (context_event s eid t oc)
          in emit (Recorded e) (s\<lparr>world := sv_record_chained svc e w\<rparr>))"

definition plain_row :: "'w call \<Rightarrow> bytes \<Rightarrow> audit_event \<Rightarrow> audit_event" where
  "plain_row s why e =
     with_reason why (with_tool (c_server s) (c_tool s) (with_principal (c_principal s) e))"

definition classified_row :: "'w call \<Rightarrow> bytes \<Rightarrow> audit_event \<Rightarrow> audit_event" where
  "classified_row s why e =
     with_reason why (with_risk_pii (facts s)
       (with_tool (c_server s) (c_tool s) (with_principal (c_principal s) e)))"

definition deny ::
  "'w service \<Rightarrow> bytes \<Rightarrow> invocation_error \<Rightarrow> 'w call \<Rightarrow> (invocation_error + 'a) \<times> 'w call" where
  "deny svc why err s = (Inl err, record_row svc OutDenied (classified_row s why) s)"

section \<open>Stage 1: resolving the tool\<close>

definition normalize_arguments ::
  "'w service \<Rightarrow> snapshot \<Rightarrow> json_map \<Rightarrow> bytes + json_map" where
  "normalize_arguments svc sn arguments =
     (case sn_input_schema sn of
        None \<Rightarrow> Inr arguments
      | Some schema \<Rightarrow>
          normalize_envelope_arguments (sv_root_properties svc schema) (tf_name (sn_facts sn))
            (sn_discriminator sn) arguments)"

definition admit_snapshot :: "'w service \<Rightarrow> snapshot \<Rightarrow> ('w, unit) stage" where
  "admit_snapshot svc sn s =
     (case (case c_arguments s of
              None \<Rightarrow> Inr None
            | Some a \<Rightarrow> (case normalize_arguments svc sn a of Inl e \<Rightarrow> Inl e | Inr a' \<Rightarrow> Inr (Some a'))) of
        Inl msg \<Rightarrow> (Inl (InvalidArguments msg), s)
      | Inr arguments \<Rightarrow>
          let res = resolve_operation sn arguments in
          if or_inadmissible res
          then (Inl (InvalidArguments
                  (''`'' @ (case sn_discriminator sn of None \<Rightarrow> ''operation'' | Some d \<Rightarrow> d) @
                   ''` selects an operation this server will not carry: an operation name is '' @
                   ''1 to 256 printable ASCII characters and contains no spaces'')),
                s\<lparr>c_arguments := arguments\<rparr>)
          else (Inr (), s\<lparr>c_arguments := arguments,
                          c_operation := or_requested res,
                          c_operation_classified := or_classified res,
                          c_effective_facts := Some (facts_for sn arguments),
                          c_snapshot := Some sn\<rparr>))"

definition may_disclose_server :: "'w service \<Rightarrow> principal option \<Rightarrow> bytes \<Rightarrow> 'w \<Rightarrow> bool" where
  "may_disclose_server svc p sv w =
     (case p of
        None \<Rightarrow> True
      | Some p \<Rightarrow> \<not> profile_blocks_server p sv \<and> sv_may_discover svc p sv w)"

definition refusal_error ::
  "'w service \<Rightarrow> bytes \<Rightarrow> bytes \<Rightarrow> tool_refusal \<Rightarrow> ('w, unit) stage" where
  "refusal_error svc sv tn why s =
     (case sv_trace_id svc (world s) of
        (tid, w) \<Rightarrow>
          let s1 = record_row svc OutDenied
                     (\<lambda>e. with_trace_id tid (with_reason (''refused:'' @ refusal_code why)
                            (with_tool sv tn (with_principal (c_principal s) e))))
                     (s\<lparr>world := w\<rparr>);
              server_block = (case why of
                                ServerQuarantined \<Rightarrow> Some ''server quarantined''
                              | ServerRetired \<Rightarrow> Some ''server retired''
                              | _ \<Rightarrow> None)
          in case server_block of
               Some b \<Rightarrow>
                 if may_disclose_server svc (c_principal s) sv (world s1)
                 then (Inl (Forbidden b [] [] (Some tid)), s1)
                 else (Inl (ToolUnavailable (fq sv tn) tid), s1)
             | None \<Rightarrow> (Inl (ToolUnavailable (fq sv tn) tid), s1))"

definition catalog_unavailable_error ::
  "'w service \<Rightarrow> bytes \<Rightarrow> bytes \<Rightarrow> temporary_unavailability \<Rightarrow> ('w, unit) stage" where
  "catalog_unavailable_error svc sv tn why s =
     (case sv_trace_id svc (world s) of
        (tid, w) \<Rightarrow>
          let s1 = record_row svc OutExecutionError
                     (\<lambda>e. with_trace_id tid (with_reason (''unavailable:'' @ unavailability_code why)
                            (with_tool sv tn (with_principal (c_principal s) e))))
                     (s\<lparr>world := w\<rparr>)
          in if \<not> may_disclose_server svc (c_principal s) sv (world s1)
             then (Inl (ToolUnavailable (fq sv tn) tid), s1)
             else (Inl (Upstream (internal_error
                     (''the governed tool catalog is unavailable; retry the request (trace id '' @ tid @ '')'')
                     (Some (JObj [(''error'', JStr ''catalog_unavailable''), (''retryable'', JBool True),
                                  (''trace_id'', JStr tid)])))), s1))"

definition resolve_tool :: "'w service \<Rightarrow> ('w, unit) stage" where
  "resolve_tool svc s =
     (case sv_resolve svc (tenant_or_default (c_principal s)) (c_server s) (c_tool s) (world s) of
        Ready sn \<Rightarrow> admit_snapshot svc sn s
      | ToolRefused sv tn why \<Rightarrow> refusal_error svc sv tn why s
      | ToolUnavailableNow sv tn why \<Rightarrow> catalog_unavailable_error svc sv tn why s)"

definition check_expected_contract :: "'w service \<Rightarrow> contract_identity option \<Rightarrow> ('w, unit) stage" where
  "check_expected_contract svc expected s =
     (case expected of
        None \<Rightarrow> (Inr (), s)
      | Some c \<Rightarrow>
          if contract_of svc s \<noteq> c
          then (Inl (InvalidArguments (''operation contract changed during execution: '' @ call_fq s)),
                record_row svc OutDenied (plain_row s ''operation contract changed during execution'') s)
          else (Inr (), s))"

datatype invocation_mode = Unrestricted | ReadOnly

definition enforce_invocation_mode :: "invocation_mode \<Rightarrow> 'w call \<Rightarrow> invocation_error option" where
  "enforce_invocation_mode mode s =
     (if mode \<noteq> ReadOnly then None
      else if \<not> admitted_by_read_only_ceiling (sn_facts (tool_snapshot s))
      then Some (ReadOnlyRequired (call_fq s))
      else case sn_discriminator (tool_snapshot s) of
             None \<Rightarrow> None
           | Some d \<Rightarrow>
               if \<not> c_operation_classified s
               then Some (ReadOnlyOperationRequired (call_fq s) d
                      (case c_operation s of None \<Rightarrow> ''<none>'' | Some v \<Rightarrow> v))
               else None)"

definition check_mode :: "'w service \<Rightarrow> invocation_mode \<Rightarrow> ('w, unit) stage" where
  "check_mode svc mode s =
     (case enforce_invocation_mode mode s of
        None \<Rightarrow> (Inr (), s)
      | Some err \<Rightarrow>
          (Inl err, record_row svc OutDenied
             (plain_row s
               (case err of
                  ReadOnlyOperationRequired _ _ _ \<Rightarrow>
                    ''dispatch tool has no reviewed classification for this operation, so the '' @
                    ''read-only authority ceiling does not admit it''
                | _ \<Rightarrow> ''operation is not admitted under the read-only authority ceiling'')) s))"

section \<open>Stages 2 to 6: input, facts, authorisation, profile, output schema\<close>

definition arguments_value :: "json_map option \<Rightarrow> json" where
  "arguments_value a = JObj (case a of None \<Rightarrow> [] | Some m \<Rightarrow> m)"

definition validate_input :: "'w service \<Rightarrow> ('w, unit) stage" where
  "validate_input svc s =
     (let sn = tool_snapshot s in
      if sn_input_schema_unavailable sn \<or>
         (case (sn_authority sn, sn_input_schema sn) of (Catalog _ _, None) \<Rightarrow> True | _ \<Rightarrow> False)
      then deny svc ''admitted input schema is unavailable'' (InputSchemaInvalid (call_fq s)) s
      else case (sn_authority sn, sn_input_schema sn) of
             (_, None) \<Rightarrow> (Inr (), s)
           | (auth, Some schema) \<Rightarrow>
               if \<not> sv_object_root svc schema
               then deny svc ''admitted input schema is invalid'' (InputSchemaInvalid (call_fq s)) s
               else if auth = SyntheticModel then (Inr (), s)
               else case sv_compile svc schema of
                      None \<Rightarrow> deny svc ''admitted input schema is invalid'' (InputSchemaInvalid (call_fq s)) s
                    | Some v \<Rightarrow>
                        (case v (arguments_value (c_arguments s)) of
                           None \<Rightarrow> (Inr (), s\<lparr>c_compiled_input := Some v\<rparr>)
                         | Some why \<Rightarrow>
                             deny svc (''input schema violation: '' @ why)
                               (InputSchemaViolation (call_fq s) why) (s\<lparr>c_compiled_input := Some v\<rparr>)))"

definition extract_facts :: "'w service \<Rightarrow> ('w, unit) stage" where
  "extract_facts svc s =
     (case c_principal s of
        None \<Rightarrow> (Inr (), s)
      | Some p \<Rightarrow>
          (Inr (), s\<lparr>c_pip_facts := Some ((build_call_facts p (facts s))
             \<lparr>cf_operation := c_operation s,
              cf_request := Some (from_arguments (c_arguments s), sv_argument_hash svc (c_arguments s))\<rparr>)\<rparr>))"

definition decision_row :: "'w call \<Rightarrow> bytes list \<Rightarrow> bytes \<Rightarrow> audit_event \<Rightarrow> audit_event" where
  "decision_row s ids why e =
     with_reason why (with_decision_inputs (c_principal s) (facts s) (with_policies ids
       (with_risk_pii (facts s) (with_tool (c_server s) (c_tool s) (with_principal (c_principal s) e)))))"

definition authorize :: "'w service \<Rightarrow> ('w, unit) stage" where
  "authorize svc s =
     (case c_principal s of
        None \<Rightarrow> (Inr (), s)
      | Some p \<Rightarrow>
          (case sv_authorize svc (the (c_pip_facts s)) (world s) of
             (w, verdict) \<Rightarrow>
               let s1 = emit (Decided verdict) (s\<lparr>world := w\<rparr>) in
               (case verdict of
                  Allow ids \<Rightarrow> (Inr (), s1\<lparr>c_authz_policy_ids := ids\<rparr>)
                | Deny why ids reasons \<Rightarrow>
                    (Inl (Forbidden why ids reasons None),
                     record_row svc OutDenied (decision_row s1 ids why) s1)
                | StepUp scope why ids \<Rightarrow>
                    (Inl (StepUpRequired scope why),
                     record_row svc OutStepUpRequired
                       (decision_row s1 ids (''scope '' @ scope @ '': '' @ why)) s1)
                | NeedsApproval why ids \<Rightarrow>
                    (Inr (), s1\<lparr>c_authz_policy_ids := ids, c_cedar_approval_policies := Some ids\<rparr>))))"

definition check_profile_restrictions :: "'w service \<Rightarrow> ('w, unit) stage" where
  "check_profile_restrictions svc s =
     (case Option.bind (c_principal s) pr_restrictions of
        None \<Rightarrow> (Inr (), s)
      | Some r \<Rightarrow>
          (case evaluate_profile_restrictions r (c_server s) (c_tool s) of
             None \<Rightarrow> (Inr (), s)
           | Some err \<Rightarrow>
               let (kind, target) = (case err of
                                       ProfileServerNotAllowed _ _ sv \<Rightarrow> (''server'', sv)
                                     | ProfileToolNotAllowed _ _ tn \<Rightarrow> (''tool'', tn)
                                     | _ \<Rightarrow> (''unknown'', []))
               in deny svc (''profile_restricts_'' @ kind @ '' by `'' @ profile_name r @ ''` ('' @ profile_id r @
                            ''); requested='' @ target) err s))"

definition prepare_output_validation :: "'w service \<Rightarrow> ('w, unit) stage" where
  "prepare_output_validation svc s =
     (case (sn_authority (tool_snapshot s), sn_output_schema (tool_snapshot s)) of
        (Catalog _ _, Some schema) \<Rightarrow>
          (case sv_compile svc schema of
             Some v \<Rightarrow> (Inr (), s\<lparr>c_snapshot := Some ((tool_snapshot s)\<lparr>sn_output_validator := Some v\<rparr>)\<rparr>)
           | None \<Rightarrow> deny svc ''approved output schema is invalid'' (ToolSchemaInvalid (call_fq s)) s)
      | _ \<Rightarrow> (Inr (), s))"

section \<open>Continuations and file inputs, before anything is consumed\<close>

definition refuse_continuation_inputs_when_approval_gated :: "('w, unit) stage" where
  "refuse_continuation_inputs_when_approval_gated s =
     (if \<not> approval_gated s then (Inr (), s)
      else if c_input_responses s \<noteq> None \<or> c_request_state s \<noteq> None
      then (Inl (InvalidArguments (''`'' @ call_fq s @
              ''` requires human approval and is single-round: the approved call carries '' @
              ''no `inputResponses` or `requestState`; retry with exactly the approved arguments'')), s)
      else (Inr (), s))"

definition call_identity_of :: "'w service \<Rightarrow> 'w call \<Rightarrow> call_identity" where
  "call_identity_of svc s =
     \<lparr>id_server = c_server s, id_tool = c_tool s, id_digest = c_digest s,
      id_contract = sv_contract_text svc (contract_of svc s)\<rparr>"

definition verify_continuation :: "'w service \<Rightarrow> ('w, unit) stage" where
  "verify_continuation svc s0 =
     (let s = s0\<lparr>c_digest := sv_argument_hash svc (c_arguments s0)\<rparr> in
      case (sv_sealer svc, c_request_state s, c_principal s) of
        (Some sealer, Some sealed, Some p) \<Rightarrow>
          (case open_continuation (sl_open sealer) (sl_now sealer (world s)) p (call_identity_of svc s) sealed
                  (case c_input_responses s of None \<Rightarrow> [] | Some rs \<Rightarrow> map fst rs) of
             Inr (upstream_state, keys) \<Rightarrow>
               (Inr (), s\<lparr>c_request_state := upstream_state, c_deliverable_keys := Some keys\<rparr>)
           | Inl _ \<Rightarrow>
               (Inl (InvalidArguments (''`'' @ call_fq s @
                  ''` received continuation state this gateway did not issue for this '' @
                  ''caller and tool; retry the original request'')), s))
      | _ \<Rightarrow> (Inr (), s))"

fun schema_declares_file_inputs :: "json \<Rightarrow> bool" where
  "schema_declares_file_inputs (JObj m) \<longleftrightarrow>
     ''x-mcp-file'' \<in> fst ` set m \<or> (\<exists>kv\<in>set m. schema_declares_file_inputs (snd kv))"
| "schema_declares_file_inputs (JArr vs) \<longleftrightarrow> (\<exists>v\<in>set vs. schema_declares_file_inputs v)"
| "schema_declares_file_inputs _ \<longleftrightarrow> False"

fun error_message :: "error_data \<Rightarrow> bytes" where
  "error_message (ErrorData _ msg _) = msg"

definition admit_file_inputs :: "'w service \<Rightarrow> ('w, unit) stage" where
  "admit_file_inputs svc s =
     (case sv_file_input svc of
        None \<Rightarrow> (Inr (), s)
      | Some fi \<Rightarrow>
          let declared = (case sn_input_schema (tool_snapshot s) of
                            Some j \<Rightarrow> if schema_declares_file_inputs j then Some j else None
                          | None \<Rightarrow> None)
          in if declared = None \<and> c_input_responses s = None then (Inr (), s)
             else case fi_admit fi declared (c_compiled_input s) (c_arguments s) (c_input_responses s)
                         (case c_deliverable_keys s of None \<Rightarrow> [] | Some ks \<Rightarrow> ks) of
                    None \<Rightarrow> (Inr (), s)
                  | Some err \<Rightarrow>
                      deny svc (''file input refused before dispatch: '' @ error_message err) (Upstream err) s)"

text \<open>With no task router wired, a request for task support is withdrawn from the capabilities.\<close>

definition prepare_task_origin :: "'w service \<Rightarrow> ('w, unit) stage" where
  "prepare_task_origin svc s =
     (Inr (), s\<lparr>c_capabilities := map_option
        (\<lambda>c. c\<lparr>cap_extensions := filter (\<lambda>x. x \<noteq> sv_tasks_extension svc) (cap_extensions c)\<rparr>)
        (c_capabilities s)\<rparr>)"

section \<open>Stages 7 to 9: quota, approval, required evidence\<close>

definition quota_actions :: "tool_facts \<Rightarrow> quota_action list" where
  "quota_actions f = (if tf_side_effects f then [Call, SideEffectingCall] else [Call])"

definition quota_context_of :: "principal \<Rightarrow> 'w call \<Rightarrow> quota_context" where
  "quota_context_of p s =
     \<lparr>q_tenant_id = pr_tenant p, q_principal_sub = Some (pr_sub p), q_client_id = None,
      q_server = c_server s, q_fq_tool = call_fq s\<rparr>"

definition check_quota :: "'w service \<Rightarrow> ('w, unit) stage" where
  "check_quota svc s =
     (case (sv_quota svc, c_principal s) of
        (Some quota, Some p) \<Rightarrow>
          (let actions = quota_actions (facts s) in
           case quota (quota_context_of p s) actions (world s) of
             (w, answer) \<Rightarrow>
               let s1 = emit (QuotaAnswer actions answer) (s\<lparr>world := w\<rparr>) in
               (case answer of
                  Inr _ \<Rightarrow> (Inr (), s1)
                | Inl (RateLimited pid name retry) \<Rightarrow>
                    deny svc (''rate_limited by policy `'' @ name @ ''` ('' @ uuid_text pid @
                              ''); retry_after_seconds='' @ decimal retry)
                      (CallRateLimited pid name retry) s1
                | Inl Sqlx \<Rightarrow> (Inr (), s1)))
      | _ \<Rightarrow> (Inr (), s))"

definition approval_binding_hash :: "(bytes \<Rightarrow> bytes) \<Rightarrow> bytes \<Rightarrow> bytes \<Rightarrow> bytes" where
  "approval_binding_hash sha256 behavior args =
     hex_text (sha256 (''approval-binding-v1'' @ [CHR 0x00] @ behavior @ [CHR 0x00] @ args))"

definition affected_fields :: "'w call \<Rightarrow> bytes list" where
  "affected_fields s =
     (case Option.bind (Option.bind (Option.bind (sn_input_schema (tool_snapshot s)) as_object)
                          (\<lambda>m. map_of m ''properties'')) as_object of
        None \<Rightarrow> []
      | Some fs \<Rightarrow> filter (\<lambda>f. case c_arguments s of None \<Rightarrow> False | Some a \<Rightarrow> map_of a f \<noteq> None) (map fst fs))"

definition grant_lookup_of ::
  "'w service \<Rightarrow> principal \<Rightarrow> uuid \<Rightarrow> bytes \<Rightarrow> 'w call \<Rightarrow> grant_lookup" where
  "grant_lookup_of svc p tid behavior s =
     \<lparr>gl_tenant_id = pr_tenant p, gl_principal_sub = pr_sub p, gl_principal_issuer = pr_issuer p,
      gl_client_id = None, gl_tool_id = tid,
      gl_argument_hash = approval_binding_hash (sv_sha256 svc) behavior (sv_argument_hash svc (c_arguments s)),
      gl_execution_binding = c_approval_binding s\<rparr>"

definition approval_request_of ::
  "'w service \<Rightarrow> principal \<Rightarrow> uuid \<Rightarrow> bytes \<Rightarrow> 'w call \<Rightarrow> approval_request" where
  "approval_request_of svc p tid behavior s =
     \<lparr>ar_tenant = pr_tenant p, ar_principal_issuer = pr_issuer p, ar_principal_sub = pr_sub p,
      ar_tool_id = tid, ar_server = c_server s, ar_tool = c_tool s, ar_behavior_hash = behavior,
      ar_argument_hash = sv_argument_hash svc (c_arguments s),
      ar_description = sn_description (tool_snapshot s), ar_affected_fields = affected_fields s\<rparr>"

text \<open>The held call's request is retained unless an execution journal already holds it.\<close>

definition retain_request ::
  "'w service \<Rightarrow> principal \<Rightarrow> uuid \<Rightarrow> bytes \<Rightarrow> 'w call \<Rightarrow> 'w call" where
  "retain_request svc p tid behavior s =
     (case (c_approval_binding s, sv_retain_request svc) of
        (None, Some retain) \<Rightarrow>
          (let rq = approval_request_of svc p tid behavior s
           in emit (RequestRetained rq) (s\<lparr>world := fst (retain rq (world s))\<rparr>))
      | _ \<Rightarrow> s)"

definition notify_approver :: "'w service \<Rightarrow> 'w call \<Rightarrow> 'w call" where
  "notify_approver svc s = (if sv_notifier svc then emit ApproverNotified s else s)"

definition approval_needed :: "'w call \<Rightarrow> bool" where
  "approval_needed s \<longleftrightarrow>
     \<not> (c_cedar_approval_policies s = None \<and> tf_requires_approval_known (facts s) \<and>
        \<not> tf_requires_approval (facts s))"

definition claim_approval ::
  "'w service \<Rightarrow> (grant_lookup \<Rightarrow> 'w \<Rightarrow> 'w \<times> (unit + bytes option)) \<Rightarrow> principal \<Rightarrow> uuid \<Rightarrow> bytes \<Rightarrow>
   ('w, unit) stage" where
  "claim_approval svc claim p tid behavior s =
     (let lookup = grant_lookup_of svc p tid behavior s in
      case claim lookup (world s) of
        (w, Inr (Some _)) \<Rightarrow>
          (Inr (), (emit (GrantClaimed lookup) (s\<lparr>world := w\<rparr>))
             \<lparr>c_policy_gated_grant_consumed :=
                (if c_cedar_approval_policies s \<noteq> None then True else c_policy_gated_grant_consumed s)\<rparr>)
      | (w, Inr None) \<Rightarrow>
          (Inl (ApprovalRequired (call_fq s) ''tool requires human approval; no matching grant'' True),
           notify_approver svc (retain_request svc p tid behavior (s\<lparr>world := w\<rparr>)))
      | (w, Inl _) \<Rightarrow>
          (Inl (ApprovalRequired (call_fq s) ''approval store unavailable'' False), s\<lparr>world := w\<rparr>))"

definition check_approval_inner :: "'w service \<Rightarrow> ('w, unit) stage" where
  "check_approval_inner svc s =
     (let refuse = (\<lambda>why. (Inl (ApprovalRequired (call_fq s) why False), s)) in
      case sn_authority (tool_snapshot s) of
        ManifestFallback False _ \<Rightarrow> refuse ''approval authority unavailable''
      | auth \<Rightarrow>
          if \<not> approval_needed s then (Inr (), s)
          else case c_principal s of
                 None \<Rightarrow> refuse ''HITL approval requires an authenticated principal''
               | Some p \<Rightarrow>
                   (case sv_claim_grant svc of
                      None \<Rightarrow> refuse ''approval store unavailable''
                    | Some claim \<Rightarrow>
                        (case auth of
                           Catalog tid behavior \<Rightarrow> claim_approval svc claim p tid behavior s
                         | ManifestFallback _ _ \<Rightarrow>
                             refuse ''approval-required manifest tool has no authoritative catalog identity''
                         | SyntheticModel \<Rightarrow> refuse ''synthetic model has no approval-grant identity'')))"

definition check_approval :: "'w service \<Rightarrow> ('w, unit) stage" where
  "check_approval svc s =
     (case check_approval_inner svc s of
        (Inl (ApprovalRequired tn why sat), s1) \<Rightarrow>
          (Inl (ApprovalRequired tn why sat),
           record_row svc OutDenied
             (decision_row s1 (c_authz_policy_ids s1)
               ((if c_cedar_approval_policies s1 \<noteq> None then ''approval required by policy''
                 else ''approval required'') @ '': '' @ why)) s1)
      | res \<Rightarrow> res)"

definition record_pre_call :: "'w service \<Rightarrow> ('w, unit) stage" where
  "record_pre_call svc s =
     (if sv_audit_mode svc \<noteq> FailClosed then (Inr (), s)
      else if \<not> tf_side_effects (facts s) then (Inr (), s)
      else case sv_fresh svc (world s) of
             ((eid, t), w) \<Rightarrow>
               let e = decision_row s (c_authz_policy_ids s) ''pre_call'' (context_event s eid t OutSuccess) in
               case sv_record_required svc e w of
                 (w', durable) \<Rightarrow>
                   let s1 = emit (RequiredRecord e durable) (s\<lparr>world := w'\<rparr>) in
                   if durable then (Inr (), s1)
                   else (Inl (AuditUnavailable ''evidence backend unavailable''), s1))"

section \<open>Stages 10 and 11: file inputs and dispatch\<close>

definition prepare_continuation_files :: "'w file_input \<Rightarrow> ('w, unit) stage" where
  "prepare_continuation_files fi s =
     (case (c_deliverable_keys s, c_input_responses s) of
        (Some keys, Some responses) \<Rightarrow>
          if keys = [] then (Inr (), s)
          else (case fi_prepare_continuation fi responses keys (world s) of
                  (w, Inl err) \<Rightarrow> (Inl (Upstream err), s\<lparr>world := w\<rparr>)
                | (w, Inr responses') \<Rightarrow> (Inr (), s\<lparr>world := w, c_input_responses := Some responses'\<rparr>))
      | _ \<Rightarrow> (Inr (), s))"

definition prepare_and_validate_file_inputs :: "'w service \<Rightarrow> ('w, unit) stage" where
  "prepare_and_validate_file_inputs svc s =
     (case sv_file_input svc of
        None \<Rightarrow> (Inr (), s)
      | Some fi \<Rightarrow>
          (case fi_prepare fi (sn_input_schema (tool_snapshot s)) (c_arguments s) (world s) of
             (w, Inl err) \<Rightarrow> (Inl (Upstream err), emit FilesPrepared (s\<lparr>world := w\<rparr>))
           | (w, Inr (arguments, rewritten)) \<Rightarrow>
               let s1 = emit FilesPrepared (s\<lparr>world := w, c_arguments := arguments\<rparr>) in
               (case (if rewritten then validate_input svc s1 else (Inr (), s1)) of
                  (Inl err, s2) \<Rightarrow> (Inl err, s2)
                | (Inr _, s2) \<Rightarrow> prepare_continuation_files fi s2)))"

definition dispatch :: "'w service \<Rightarrow> ('w, tool_response) stage" where
  "dispatch svc s =
     (let gated = approval_gated s;
          clamped = map_option (sv_clamp_count svc (tool_snapshot s)) (c_arguments s);
          arguments = map_option fst clamped;
          capabilities =
            (if gated
             then (case c_capabilities s of
                     None \<Rightarrow> None
                   | Some c \<Rightarrow> if sv_tasks_extension svc \<in> set (cap_extensions c)
                              then Some \<lparr>cap_elicitation = False, cap_extensions = [sv_tasks_extension svc]\<rparr>
                              else None)
             else c_capabilities s);
          m = \<lparr>m_input_responses = c_input_responses s, m_request_state = c_request_state s,
               m_capabilities = capabilities, m_approval_gated = gated\<rparr>;
          admitted = contract_of svc s
      in case sv_call_tool svc (c_server s) (c_tool s) arguments (c_principal s) admitted m (world s) of
           (w, res) \<Rightarrow>
             (res, (emit (Dispatched arguments admitted m) s)
                \<lparr>world := w, c_arguments := None, c_count_adjustment := Option.bind clamped snd,
                 c_input_responses := None, c_request_state := None, c_capabilities := capabilities,
                 c_latency_ms := Some (sv_elapsed_ms svc (world s) w)\<rparr>))"

section \<open>Responses: inspection, validation, outcome\<close>

definition trust_annotations_key :: bytes where
  "trust_annotations_key = ''io.modelcontextprotocol/trust-annotations''"

datatype trust_error = TrustMissing | TrustMalformed

fun trust_error_text :: "trust_error \<Rightarrow> bytes" where
  "trust_error_text TrustMissing = ''result trust annotations are missing''"
| "trust_error_text TrustMalformed =
     ''result trust annotations must contain explicit sensitive and untrusted booleans''"

definition parse_trust :: "tool_result \<Rightarrow> trust_error + bool \<times> bool" where
  "parse_trust r =
     (case Option.bind (Option.bind (r_meta r) (\<lambda>m. map_of m trust_annotations_key)) as_object of
        None \<Rightarrow> Inl TrustMissing
      | Some t \<Rightarrow>
          (case (Option.bind (map_of t ''sensitive'') as_bool, Option.bind (map_of t ''untrusted'') as_bool) of
             (Some a, Some b) \<Rightarrow> Inr (a, b)
           | _ \<Rightarrow> Inl TrustMalformed))"

definition block_response :: "'w service \<Rightarrow> bytes \<Rightarrow> bytes \<Rightarrow> ('w, 'a) stage" where
  "block_response svc name why s =
     deny svc (''response inspector `'' @ name @ ''` blocked'')
       (ResponseInspectionBlocked (call_fq s) name why) s"

definition enforce_trust :: "'w service \<Rightarrow> tool_result \<Rightarrow> bool \<Rightarrow> ('w, unit) stage" where
  "enforce_trust svc r anticipated s =
     (case parse_trust r of
        Inl err \<Rightarrow> block_response svc ''trust-annotations'' (trust_error_text err) s
      | Inr (sensitive, _) \<Rightarrow>
          if sensitive \<and> \<not> anticipated
          then block_response svc ''trust-annotations''
                 ''result sensitivity exceeds the admitted tool contract'' s
          else (Inr (), s))"

definition inspection_context_of :: "'w call \<Rightarrow> inspection_context" where
  "inspection_context_of s =
     \<lparr>ic_tenant = tenant_or_default (c_principal s), ic_principal_sub = map_option pr_sub (c_principal s),
      ic_server = c_server s, ic_tool = c_tool s, ic_risk = tf_risk (facts s), ic_pii = tf_pii (facts s)\<rparr>"

fun run_inspectors :: "'w service \<Rightarrow> inspector list \<Rightarrow> tool_result \<Rightarrow> ('w, tool_result) stage" where
  "run_inspectors svc [] working s = (Inr working, s)"
| "run_inspectors svc ((name, inspect) # is) working s =
     (case inspect (inspection_context_of s) working of
        Pass \<Rightarrow> run_inspectors svc is working s
      | Redact redacted n \<Rightarrow>
          run_inspectors svc is redacted (s\<lparr>c_pending_redactions := c_pending_redactions s @ [(name, n)]\<rparr>)
      | Block why \<Rightarrow> block_response svc name why s)"

definition inspect_response ::
  "'w service \<Rightarrow> invocation_error + tool_result \<Rightarrow> ('w, tool_result) stage" where
  "inspect_response svc result s =
     (case result of
        Inl err \<Rightarrow> (Inl err, s)
      | Inr working \<Rightarrow>
          (case (if sn_annotation_claims_enforced (tool_snapshot s)
                 then enforce_trust svc working (sn_anticipated_sensitive_output (tool_snapshot s)) s
                 else (Inr (), s)) of
             (Inl err, s1) \<Rightarrow> (Inl err, s1)
           | (Inr _, s1) \<Rightarrow> run_inspectors svc (sv_inspectors svc) working s1))"

text \<open>A pause is scanned whole, and a redaction refuses it too.\<close>

fun scan_pause :: "'w service \<Rightarrow> inspector list \<Rightarrow> tool_result \<Rightarrow> ('w, unit) stage" where
  "scan_pause svc [] view s = (Inr (), s)"
| "scan_pause svc ((name, inspect) # is) view s =
     (case inspect (inspection_context_of s) view of
        Pass \<Rightarrow> scan_pause svc is view s
      | Redact _ n \<Rightarrow>
          block_response svc name
            (decimal n @ '' finding(s) in an input_required pause, which cannot be redacted and forwarded'') s
      | Block why \<Rightarrow> block_response svc name why s)"

definition inspect_pause :: "'w service \<Rightarrow> pause \<Rightarrow> ('w, unit) stage" where
  "inspect_pause svc ps s =
     (if \<not> sn_annotation_claims_enforced (tool_snapshot s) \<and> sv_inspectors svc = [] then (Inr (), s)
      else case sv_pause_value svc ps of
             None \<Rightarrow> (Inl (Upstream (internal_error
                ''upstream input_required pause could not be serialized for inspection'' None)), s)
           | Some v \<Rightarrow>
               let view = (sv_structured_result svc v)\<lparr>r_meta := ps_meta ps\<rparr> in
               (case (if sn_annotation_claims_enforced (tool_snapshot s)
                      then enforce_trust svc view (sn_anticipated_sensitive_output (tool_snapshot s)) s
                      else (Inr (), s)) of
                  (Inl err, s1) \<Rightarrow> (Inl err, s1)
                | (Inr _, s1) \<Rightarrow> scan_pause svc (sv_inspectors svc) view s1))"

definition approval_input_request_key :: bytes where
  "approval_input_request_key = ''gateway:approval''"

fun unanswerable_in :: "capabilities \<Rightarrow> (bytes \<times> input_request) list \<Rightarrow> (bytes \<times> bytes) option" where
  "unanswerable_in caller [] = None"
| "unanswerable_in caller ((_, Elicitation _) # rs) =
     (if cap_elicitation caller then unanswerable_in caller rs
      else Some (''elicitation'', ''the caller did not declare the elicitation capability; retry from a client '' @
                 ''that declares it''))"
| "unanswerable_in caller ((_, CreateMessage _) # rs) =
     Some (''sampling'', ''this gateway does not relay sampling input requests (deprecated in MCP 2026-07-28)'')"
| "unanswerable_in caller ((_, ListRoots _) # rs) =
     Some (''roots'', ''this gateway does not relay roots input requests (deprecated in MCP 2026-07-28)'')"
| "unanswerable_in caller ((_, OtherRequest _) # rs) =
     Some (''unknown'', ''the input request kind is not recognized'')"

definition unanswerable_input_request :: "pause \<Rightarrow> capabilities option \<Rightarrow> (bytes \<times> bytes) option" where
  "unanswerable_input_request ps caller =
     (case caller of
        None \<Rightarrow> Some (''input_required'',
                  ''this caller cannot receive an input_required result (it requires the '' @
                  ''2026-07-28 multi-round-trip flow)'')
      | Some c \<Rightarrow> (case ps_requests ps of None \<Rightarrow> None | Some rs \<Rightarrow> unanswerable_in c rs))"

definition seal_pause_state :: "'w service \<Rightarrow> pause \<Rightarrow> ('w, pause) stage" where
  "seal_pause_state svc ps s =
     (case (sv_sealer svc, c_principal s) of
        (Some sealer, Some p) \<Rightarrow>
          (case sl_seal sealer (seal_claims (sl_now sealer (world s)) p (call_identity_of svc s)
                                  (ps_requests ps) (ps_state ps)) (world s) of
             None \<Rightarrow> (Inl (Upstream (internal_error ''continuation state could not be sealed'' None)), s)
           | Some sealed \<Rightarrow> (Inr (ps\<lparr>ps_state := Some sealed\<rparr>), s))
      | _ \<Rightarrow> (Inr ps, s))"

definition admit_pause :: "'w service \<Rightarrow> pause \<Rightarrow> ('w, pause) stage" where
  "admit_pause svc ps s =
     (if approval_gated s
      then (Inl (Upstream (internal_error (''`'' @ call_fq s @
              ''` requires human approval and is single-round, but the upstream paused mid-call; the claimed '' @
              ''grant was consumed by this attempt '' @ [CHR 0xE2, CHR 0x80, CHR 0x94] @
              '' obtain a new grant before retrying'') None)), s)
      else if (case ps_requests ps of None \<Rightarrow> True | Some rs \<Rightarrow> rs = []) \<and> ps_state ps = None
      then (Inl (Upstream (internal_error (''upstream `'' @ c_server s @
              ''` paused with neither input requests nor request state; '' @
              ''the pause cannot make progress and was not relayed'') None)), s)
      else if (case ps_requests ps of None \<Rightarrow> False | Some rs \<Rightarrow> approval_input_request_key \<in> fst ` set rs)
      then (Inl (Upstream (internal_error (''upstream `'' @ c_server s @ ''` paused with the reserved `'' @
              approval_input_request_key @ ''` input-request key, which the gateway uses for its own '' @
              ''approval ask; the pause cannot be relayed'') None)), s)
      else case unanswerable_input_request ps (c_capabilities s) of
             Some (capability, detail) \<Rightarrow>
               (Inl (Upstream (ErrorData (sv_missing_capability_code svc)
                  (''`'' @ call_fq s @ ''` paused for client-side input that cannot round-trip: '' @ detail)
                  (Some (JObj [(''error'', JStr ''missing_required_client_capability''),
                               (''capability'', JStr capability)])))), s)
           | None \<Rightarrow>
               (case inspect_pause svc ps s of
                  (Inl err, s1) \<Rightarrow> (Inl err, s1)
                | (Inr _, s1) \<Rightarrow> seal_pause_state svc ps s1))"

definition latency_or_zero :: "'w call \<Rightarrow> i64" where
  "latency_or_zero s = (case c_latency_ms s of None \<Rightarrow> 0 | Some ms \<Rightarrow> ms)"

definition outcome_row :: "'w call \<Rightarrow> audit_event \<Rightarrow> audit_event" where
  "outcome_row s e =
     with_latency_ms (latency_or_zero s) (with_decision_inputs (c_principal s) (facts s)
       (with_policies (c_authz_policy_ids s) (with_risk_pii (facts s)
         (with_tool (c_server s) (c_tool s) (with_principal (c_principal s) e)))))"

definition record_pause_relay :: "'w service \<Rightarrow> 'w call \<Rightarrow> 'w call" where
  "record_pause_relay svc s =
     record_row svc OutSuccess
       (\<lambda>e. with_reason ''upstream paused for client input (input_required); awaiting retry'' (outcome_row s e)) s"

definition output_validator :: "'w call \<Rightarrow> validator option" where
  "output_validator s = sn_output_validator (tool_snapshot s)"

definition validate_output ::
  "'w service \<Rightarrow> invocation_error + tool_result \<Rightarrow> ('w, unit) stage" where
  "validate_output svc result s =
     (case result of
        Inl _ \<Rightarrow> (Inr (), s)
      | Inr r \<Rightarrow>
          (case (r_structured r, output_validator s) of
             (Some v, Some check) \<Rightarrow>
               (case check v of
                  None \<Rightarrow> (Inr (), s)
                | Some why \<Rightarrow>
                    deny svc ''output schema violation'' (OutputSchemaViolation (call_fq s) why) s)
           | _ \<Rightarrow> (Inr (), s)))"

definition prepare_file_outputs ::
  "'w service \<Rightarrow> invocation_error + tool_result \<Rightarrow> 'w call \<Rightarrow>
   (invocation_error + tool_result) \<times> bytes option \<times> 'w call" where
  "prepare_file_outputs svc result s =
     (case (sv_file_output svc, result) of
        (Some fo, Inr r) \<Rightarrow>
          (case fo_prepare fo r (world s) of
             (w, Inl err) \<Rightarrow> (Inl (Upstream err), None, s\<lparr>world := w\<rparr>)
           | (w, Inr (r', batch)) \<Rightarrow> (Inr r', batch, s\<lparr>world := w\<rparr>))
      | _ \<Rightarrow> (result, None, s))"

definition discard_batch :: "'w service \<Rightarrow> bytes option \<Rightarrow> 'w call \<Rightarrow> 'w call" where
  "discard_batch svc batch s =
     (case (sv_file_output svc, batch) of
        (Some fo, Some b) \<Rightarrow> emit (BatchDiscarded b) (s\<lparr>world := fo_discard fo b (world s)\<rparr>)
      | _ \<Rightarrow> s)"

definition publish_batch ::
  "'w service \<Rightarrow> bytes option \<Rightarrow> invocation_error + tool_result \<Rightarrow> 'w call \<Rightarrow>
   (invocation_error + tool_result) \<times> 'w call" where
  "publish_batch svc batch result s =
     (case (sv_file_output svc, batch) of
        (Some fo, Some b) \<Rightarrow>
          (case fo_publish fo b (world s) of
             (w, None) \<Rightarrow> (result, emit (BatchPublished b) (s\<lparr>world := w\<rparr>))
           | (w, Some err) \<Rightarrow> (Inl (Upstream err), discard_batch svc batch (s\<lparr>world := w\<rparr>)))
      | _ \<Rightarrow> (result, s))"

text \<open>The outer error is the early return of a refused output; the inner sum is the result to record.\<close>

definition prepare_files_and_validate_output ::
  "'w service \<Rightarrow> invocation_error + tool_result \<Rightarrow> ('w, invocation_error + tool_result) stage" where
  "prepare_files_and_validate_output svc result s =
     (case prepare_file_outputs svc result (emit (Entered PrepareFileOutputs) s) of
        (result1, batch, s1) \<Rightarrow>
          (case validate_output svc result1 (emit (Entered ValidateOutput) s1) of
             (Inl err, s2) \<Rightarrow> (Inl err, discard_batch svc batch s2)
           | (Inr _, s2) \<Rightarrow> (case publish_batch svc batch result1 s2 of (result2, s3) \<Rightarrow> (Inr result2, s3))))"

definition redaction_row :: "'w call \<Rightarrow> bytes \<Rightarrow> nat \<Rightarrow> audit_event \<Rightarrow> audit_event" where
  "redaction_row s name n e =
     with_policies (c_authz_policy_ids s)
       (classified_row s (''response inspector `'' @ name @ ''` redacted '' @ decimal n @ '' finding(s)'') e)"

fun flush_redactions :: "'w service \<Rightarrow> (bytes \<times> nat) list \<Rightarrow> 'w call \<Rightarrow> 'w call" where
  "flush_redactions svc [] s = s"
| "flush_redactions svc ((name, n) # rs) s =
     flush_redactions svc rs (record_row svc OutSuccess (redaction_row s name n) s)"

definition flush_pending_redactions :: "'w service \<Rightarrow> 'w call \<Rightarrow> 'w call" where
  "flush_pending_redactions svc s =
     flush_redactions svc (c_pending_redactions s) (s\<lparr>c_pending_redactions := []\<rparr>)"

definition retained_delivery_meta_key :: bytes where
  "retained_delivery_meta_key = ''io.cacahuate.mcp-gateway/retained-delivery''"

definition delivery_suffix :: "tool_result \<Rightarrow> bytes option" where
  "delivery_suffix r =
     (case Option.bind (Option.bind (Option.bind (Option.bind (r_meta r)
             (\<lambda>m. map_of m retained_delivery_meta_key)) as_object)
             (\<lambda>m. map_of m ''delivery_status'')) as_str of
        None \<Rightarrow> None
      | Some st \<Rightarrow>
          if st = ''file'' then Some ''response attachment published''
          else if st = ''unavailable''
          then Some ''operation succeeded; response attachment unavailable; do not redispatch''
          else None)"

definition record_delivery_outcome :: "tool_result \<Rightarrow> audit_event \<Rightarrow> audit_event" where
  "record_delivery_outcome r e =
     (case delivery_suffix r of
        None \<Rightarrow> e
      | Some suffix \<Rightarrow>
          with_reason (case ev_reason e of None \<Rightarrow> suffix | Some why \<Rightarrow> why @ ''; '' @ suffix) e)"

definition is_recovery_failure :: "error_data \<Rightarrow> bool" where
  "is_recovery_failure err =
     (case err of ErrorData _ _ d \<Rightarrow>
        (case Option.bind (Option.bind (Option.bind d as_object) (\<lambda>m. map_of m ''error'')) as_str of
           None \<Rightarrow> False
         | Some c \<Rightarrow> c \<in> {''retained_response_recovery_failed'', ''retained_response_resource_unavailable'',
                        ''bounded_resource_read_unsupported''}))"

definition base_outcome_row :: "'w call \<Rightarrow> audit_event \<Rightarrow> audit_event" where
  "base_outcome_row s e =
     (let e1 = (outcome_row s e)\<lparr>ev_id := c_invocation_id s\<rparr> in
      if c_policy_gated_grant_consumed s
      then with_reason ''policy-gated effect: approval grant consumed'' e1 else e1)"

definition record_outcome :: "'w service \<Rightarrow> invocation_error + tool_result \<Rightarrow> 'w call \<Rightarrow> 'w call" where
  "record_outcome svc result s =
     (case result of
        Inr r \<Rightarrow> record_row svc OutSuccess (\<lambda>e. record_delivery_outcome r (base_outcome_row s e)) s
      | Inl (Upstream err) \<Rightarrow>
          (let why = (if is_recovery_failure err then ''retained connector response recovery failed''
                      else sv_error_text svc err)
           in record_row svc OutExecutionError
                (\<lambda>e. with_reason
                   (if c_policy_gated_grant_consumed s then ''policy-gated effect: upstream error: '' @ why else why)
                   (base_outcome_row s e)) s)
      | Inl (ResponseMaterializationLimit tn n limit) \<Rightarrow>
          record_row svc OutExecutionError
            (\<lambda>e. with_reason
               (''retained response for `'' @ tn @ ''` is at least '' @ decimal n @
                '' bytes, exceeding the caller's '' @ decimal limit @ ''-byte materialization budget'')
               (base_outcome_row s e)) s
      | Inl _ \<Rightarrow> s)"

section \<open>The orchestrator\<close>

record 'w request =
  rq_server :: bytes
  rq_tool :: bytes
  rq_arguments :: "json_map option"
  rq_mode :: invocation_mode
  rq_expected_contract :: "contract_identity option"
  rq_approval_binding :: "(uuid \<times> bytes \<times> uuid) option"
  rq_hierarchy :: "invocation_hierarchy option"
  rq_acting_agent :: "bytes option"
  rq_input_responses :: "json_map option"
  rq_request_state :: "bytes option"
  rq_capabilities :: "capabilities option"
  rq_dispatch_admission :: "(bool \<Rightarrow> contract_identity \<Rightarrow> 'w \<Rightarrow> 'w \<times> invocation_error option) option"

definition check_binding :: "'w request \<Rightarrow> invocation_error option" where
  "check_binding rq =
     (case rq_approval_binding rq of
        None \<Rightarrow> None
      | Some (execution_id, _, cid) \<Rightarrow>
          (case rq_hierarchy rq of
             None \<Rightarrow> Some (InvalidArguments ''execution-bound approval requires invocation hierarchy'')
           | Some h \<Rightarrow>
               if execution_id \<noteq> parent_execution_id h \<or> cid \<noteq> call_id h
               then Some (InvalidArguments ''execution-bound approval does not match invocation hierarchy'')
               else None))"

definition new_call :: "principal option \<Rightarrow> uuid \<Rightarrow> 'w request \<Rightarrow> 'w \<Rightarrow> 'w call" where
  "new_call p iid rq w =
     \<lparr>c_principal = p, c_server = rq_server rq, c_tool = rq_tool rq, c_invocation_id = iid,
      c_snapshot = None, c_effective_facts = None, c_operation = None, c_operation_classified = False,
      c_pip_facts = None, c_arguments = rq_arguments rq, c_count_adjustment = None,
      c_input_responses = rq_input_responses rq, c_request_state = rq_request_state rq,
      c_capabilities = rq_capabilities rq, c_latency_ms = None, c_authz_policy_ids = [],
      c_pending_redactions = [], c_acting_agent = rq_acting_agent rq, c_hierarchy = rq_hierarchy rq,
      c_approval_binding = rq_approval_binding rq, c_cedar_approval_policies = None,
      c_policy_gated_grant_consumed = False, c_digest = [], c_deliverable_keys = None,
      c_compiled_input = None, world = w, trail = []\<rparr>"

definition admission_gates :: "'w service \<Rightarrow> 'w request \<Rightarrow> ('w, unit) stage list" where
  "admission_gates svc rq =
     [enter_stage ResolveTool, resolve_tool svc,
      check_expected_contract svc (rq_expected_contract rq), check_mode svc (rq_mode rq),
      enter_stage ValidateInput, validate_input svc,
      enter_stage ExtractFacts, extract_facts svc,
      enter_stage Authorize, authorize svc,
      enter_stage CheckProfileRestrictions, check_profile_restrictions svc,
      enter_stage PrepareOutputValidation, prepare_output_validation svc,
      refuse_continuation_inputs_when_approval_gated, verify_continuation svc,
      admit_file_inputs svc, prepare_task_origin svc,
      enter_stage CheckQuota, check_quota svc,
      enter_stage CheckApproval, check_approval svc,
      enter_stage RecordPreCall, record_pre_call svc]"

definition admit_dispatch :: "'w service \<Rightarrow> 'w request \<Rightarrow> ('w, unit) stage" where
  "admit_dispatch svc rq s =
     (case rq_dispatch_admission rq of
        None \<Rightarrow> (Inr (), s)
      | Some admit \<Rightarrow>
          (case admit (tf_side_effects (facts s)) (contract_of svc s) (world s) of
             (w, None) \<Rightarrow> (Inr (), s\<lparr>world := w\<rparr>)
           | (w, Some err) \<Rightarrow> (Inl err, s\<lparr>world := w\<rparr>)))"

text \<open>An error after the gates leaves its outcome row.\<close>

definition fail_with_outcome ::
  "'w service \<Rightarrow> invocation_error \<Rightarrow> 'w call \<Rightarrow> (invocation_error + 'a) \<times> 'w call" where
  "fail_with_outcome svc err s =
     (Inl err, record_outcome svc (Inl err) (emit (Entered RecordOutcome) s))"

definition attach_count :: "invocation_error + tool_result \<Rightarrow> 'w call \<Rightarrow> (invocation_error + tool_result) \<times> 'w call" where
  "attach_count result s =
     (case result of
        Inl err \<Rightarrow> (Inl err, s)
      | Inr r \<Rightarrow>
          (case c_count_adjustment s of
             None \<Rightarrow> (Inr r, s)
           | Some attach \<Rightarrow> (Inr (attach r), s\<lparr>c_count_adjustment := None\<rparr>)))"

definition deliver :: "'w service \<Rightarrow> invocation_error + tool_result \<Rightarrow> ('w, invocation_response) stage" where
  "deliver svc result s =
     (case attach_count result s of
        (result1, s1) \<Rightarrow>
          (case inspect_response svc result1 (emit (Entered InspectResponse) s1) of
             (result2, s2) \<Rightarrow>
               (case prepare_files_and_validate_output svc result2 s2 of
                  (Inl err, s3) \<Rightarrow> (Inl err, s3)
                | (Inr result3, s3) \<Rightarrow>
                    let s4 = (case result3 of Inr _ \<Rightarrow> flush_pending_redactions svc s3 | Inl _ \<Rightarrow> s3);
                        s5 = record_outcome svc result3 (emit (Entered RecordOutcome) s4)
                    in (map_sum id Unary result3, s5))))"

definition unsupported_task :: invocation_error where
  "unsupported_task = Upstream (internal_error
     ''upstream returned a task envelope without negotiated gateway task support'' None)"

definition respond :: "'w service \<Rightarrow> ('w, invocation_response) stage" where
  "respond svc s =
     (case dispatch svc s of
        (Inr (Complete r), s1) \<Rightarrow> deliver svc (Inr r) s1
      | (Inr (InputRequired ps), s1) \<Rightarrow>
          (case admit_pause svc ps s1 of
             (Inr ps', s2) \<Rightarrow>
               (Inr (PauseRelayed ps'), record_pause_relay svc (emit (Entered RecordOutcome) s2))
           | (Inl err, s2) \<Rightarrow> deliver svc (Inl err) s2)
      | (Inr (TaskCreated _), s1) \<Rightarrow> (Inl unsupported_task, record_outcome svc (Inl unsupported_task) s1)
      | (Inr OtherResponse, s1) \<Rightarrow>
          deliver svc (Inl (Upstream (internal_error
            ''upstream dispatch produced an unsupported response variant'' None))) s1
      | (Inl err, s1) \<Rightarrow> deliver svc (Inl err) s1)"

definition run_call :: "'w service \<Rightarrow> 'w request \<Rightarrow> ('w, invocation_response) stage" where
  "run_call svc rq s =
     (case gates (admission_gates svc rq) s of
        (Inl err, s1) \<Rightarrow> (Inl err, s1)
      | (Inr _, s1) \<Rightarrow>
          (case admit_dispatch svc rq s1 of
             (Inl err, s2) \<Rightarrow> fail_with_outcome svc err s2
           | (Inr _, s2) \<Rightarrow>
               (case prepare_and_validate_file_inputs svc (emit (Entered PrepareFileInputs) s2) of
                  (Inl err, s3) \<Rightarrow> fail_with_outcome svc err s3
                | (Inr _, s3) \<Rightarrow> respond svc (emit (Entered Dispatch) s3))))"

definition invoke ::
  "'w service \<Rightarrow> principal option \<Rightarrow> uuid \<Rightarrow> 'w request \<Rightarrow> 'w \<Rightarrow>
   (invocation_error + invocation_response) \<times> 'w call" where
  "invoke svc p iid rq w =
     (case check_binding rq of
        Some err \<Rightarrow> (Inl err, new_call p iid rq w)
      | None \<Rightarrow> run_call svc rq (new_call p iid rq w))"

end
