(* ===== verification/Invocation_Effects.thy ===== *)
theory Invocation_Effects
  imports Invocation "HOL-Library.Sublist"
begin

text \<open>
  The effects of each operation of the tool-call pipeline, as the trail shows them. The relation \<open>steps K n s s'\<close> says that an operation appended to the trail
  only effects of kind \<open>K\<close>, \<open>n\<close> of them rows that report a failure; it composes along the pipeline. What
  an operation keeps of the context is the \<open>core\<close>.
\<close>

section \<open>Kinds of effects\<close>

definition is_row :: "effect \<Rightarrow> bool" where
  "is_row x \<longleftrightarrow> (case x of Recorded _ \<Rightarrow> True | _ \<Rightarrow> False)"

definition is_failure :: "effect \<Rightarrow> bool" where
  "is_failure x \<longleftrightarrow> (case x of Recorded e \<Rightarrow> ev_outcome e \<noteq> ''success'' | _ \<Rightarrow> False)"

definition is_dispatch :: "effect \<Rightarrow> bool" where
  "is_dispatch x \<longleftrightarrow> (case x of Dispatched _ _ _ \<Rightarrow> True | _ \<Rightarrow> False)"

definition stage_of :: "effect \<Rightarrow> invocation_stage option" where
  "stage_of x = (case x of Entered st \<Rightarrow> Some st | _ \<Rightarrow> None)"

definition failures :: "effect list \<Rightarrow> nat" where
  "failures t = length (filter is_failure t)"

definition stages_of :: "effect list \<Rightarrow> invocation_stage list" where
  "stages_of t = List.map_filter stage_of t"

text \<open>Effects of a gate: neither the entry of a stage nor a dispatch.\<close>

definition is_gate_effect :: "effect \<Rightarrow> bool" where
  "is_gate_effect x \<longleftrightarrow> stage_of x = None \<and> \<not> is_dispatch x"

lemmas effect_kinds = is_row_def is_failure_def is_dispatch_def stage_of_def is_gate_effect_def

lemma failures_simps [simp]:
  "failures [] = 0" "failures (x # t) = (if is_failure x then 1 else 0) + failures t"
  "failures (t @ u) = failures t + failures u"
  by (auto simp: failures_def)

lemma stages_of_simps [simp]:
  "stages_of [] = []"
  "stages_of (x # t) = (case stage_of x of None \<Rightarrow> [] | Some st \<Rightarrow> [st]) @ stages_of t"
  "stages_of (t @ u) = stages_of t @ stages_of u"
  by (auto simp: stages_of_def List.map_filter_def split: option.splits)

definition steps :: "(effect \<Rightarrow> bool) \<Rightarrow> nat \<Rightarrow> 'w call \<Rightarrow> 'w call \<Rightarrow> bool" where
  "steps K n s s' \<longleftrightarrow> (\<exists>t. trail s' = trail s @ t \<and> list_all K t \<and> failures t = n)"

lemma steps_refl [simp]: "trail s' = trail s \<Longrightarrow> steps K 0 s s'"
  by (auto simp: steps_def)

lemma steps_trans: "steps K n s s1 \<Longrightarrow> steps K m s1 s2 \<Longrightarrow> steps K (n + m) s s2"
  unfolding steps_def by (metis append.assoc list_all_append failures_simps(3))

lemma steps_mono: "steps K n s s' \<Longrightarrow> (\<And>x. K x \<Longrightarrow> K' x) \<Longrightarrow> steps K' n s s'"
  unfolding steps_def by (metis list_all_iff)

lemma trail_emit [simp]: "trail (emit x s) = trail s @ [x]"
  by (simp add: emit_def)

lemma steps_emit: "K x \<Longrightarrow> steps K (if is_failure x then 1 else 0) s (emit x s)"
  by (auto simp: steps_def)

text \<open>The part of the context that the gates fix and nothing changes after the approval.\<close>

definition core :: "'w call \<Rightarrow> principal option \<times> bytes \<times> bytes \<times> snapshot option \<times> tool_facts option \<times>
    bytes list option \<times> bytes" where
  "core s = (c_principal s, c_server s, c_tool s, c_snapshot s, c_effective_facts s,
             c_cedar_approval_policies s, c_digest s)"

lemma core_emit [simp]: "core (emit x s) = core s"
  by (simp add: core_def emit_def)

lemma core_updates [simp]:
  "core (s\<lparr>world := w\<rparr>) = core s"
  "core (s\<lparr>c_arguments := a\<rparr>) = core s"
  "core (s\<lparr>c_compiled_input := v\<rparr>) = core s"
  "core (s\<lparr>c_input_responses := ir\<rparr>) = core s"
  "core (s\<lparr>c_pending_redactions := pr\<rparr>) = core s"
  "core (s\<lparr>c_count_adjustment := ca\<rparr>) = core s"
  "core (s\<lparr>c_policy_gated_grant_consumed := b\<rparr>) = core s"
  "core (s\<lparr>c_capabilities := cs\<rparr>) = core s"
  "core (s\<lparr>c_request_state := rs\<rparr>) = core s"
  "core (s\<lparr>c_latency_ms := l\<rparr>) = core s"
  by (simp_all add: core_def)

section \<open>Rows\<close>

lemma builder_outcome [simp]:
  "ev_outcome (with_principal p e) = ev_outcome e"
  "ev_outcome (with_tool sv tn e) = ev_outcome e"
  "ev_outcome (with_risk_pii f e) = ev_outcome e"
  "ev_outcome (with_reason why e) = ev_outcome e"
  "ev_outcome (with_trace_id tid e) = ev_outcome e"
  "ev_outcome (with_policies ids e) = ev_outcome e"
  "ev_outcome (with_latency_ms ms e) = ev_outcome e"
  "ev_outcome (with_decision_inputs p f e) = ev_outcome e"
  "ev_outcome (plain_row s why e) = ev_outcome e"
  "ev_outcome (classified_row s why e) = ev_outcome e"
  "ev_outcome (decision_row s ids why e) = ev_outcome e"
  "ev_outcome (outcome_row s e) = ev_outcome e"
  "ev_outcome (redaction_row s name n e) = ev_outcome e"
  "ev_outcome (base_outcome_row s e) = ev_outcome e"
  "ev_outcome (record_delivery_outcome r e) = ev_outcome e"
  "ev_outcome (context_event s eid t oc) = audit_outcome_str oc"
  by (auto simp: event_builders plain_row_def classified_row_def decision_row_def outcome_row_def
      redaction_row_def base_outcome_row_def record_delivery_outcome_def context_event_def Let_def split: option.splits)

definition failing :: "audit_outcome \<Rightarrow> nat" where
  "failing oc = (if oc = OutSuccess then 0 else 1)"

lemma failing_simps [simp]:
  "failing OutSuccess = 0" "failing OutDenied = 1" "failing OutExecutionError = 1"
  "failing OutStepUpRequired = 1"
  by (simp_all add: failing_def)

lemma record_row_steps:
  assumes "\<And>e. ev_outcome (build e) = ev_outcome e"
  shows "steps is_row (failing oc) s (record_row svc oc build s)"
  using assms
  by (cases oc) (auto simp: record_row_def steps_def effect_kinds Let_def split: prod.splits)

lemma core_record_row [simp]: "core (record_row svc oc build s) = core s"
  by (auto simp: record_row_def Let_def split: prod.splits)

lemma deny_steps: "deny svc why err s = (r, s') \<Longrightarrow> r = Inl err \<and> steps is_row 1 s s' \<and> core s' = core s"
  using record_row_steps[of "classified_row s why" OutDenied s svc]
  by (auto simp: deny_def)

section \<open>The gates\<close>

text \<open>The rows a refusal owes: a refusal for its arguments may leave none, nor can one whose required
  record failed, and every other refusal leaves exactly one row.\<close>

fun owed :: "invocation_error + 'a \<Rightarrow> nat \<Rightarrow> bool" where
  "owed (Inr _) n \<longleftrightarrow> n = 0"
| "owed (Inl (InvalidArguments _)) n \<longleftrightarrow> n \<le> 1"
| "owed (Inl (AuditUnavailable _)) n \<longleftrightarrow> n \<le> 1"
| "owed (Inl _) n \<longleftrightarrow> n = 1"

definition gate_ok :: "('w, 'a) stage \<Rightarrow> bool" where
  "gate_ok g \<longleftrightarrow> (\<forall>s r s'. g s = (r, s') \<longrightarrow> (\<exists>n. steps is_gate_effect n s s' \<and> owed r n))"

lemma gate_okI:
  assumes "\<And>s r s'. g s = (r, s') \<Longrightarrow> \<exists>n. steps is_gate_effect n s s' \<and> owed r n"
  shows "gate_ok g"
  using assms by (auto simp: gate_ok_def)

lemma gate_okD:
  assumes "gate_ok g" and "g s = (r, s')"
  shows "\<exists>n. steps is_gate_effect n s s' \<and> owed r n"
  using assms unfolding gate_ok_def by blast

lemma row_is_gate_effect: "is_row x \<Longrightarrow> is_gate_effect x"
  by (auto simp: effect_kinds split: effect.splits)

lemma gate_quiet: "trail s' = trail s \<Longrightarrow> \<exists>n. steps is_gate_effect n s s' \<and> owed (Inr x) n"
  by auto

lemma gate_quiet_arguments:
  "trail s' = trail s \<Longrightarrow> \<exists>n. steps is_gate_effect n s s' \<and> n \<le> Suc 0"
  by (metis steps_refl zero_le)

lemma row_steps_after:
  assumes "trail s1 = trail s" "\<And>e. ev_outcome (build e) = ev_outcome e" "failing oc = n"
  shows "steps is_gate_effect n s (record_row svc oc build s1)"
proof -
  have "steps is_row n s1 (record_row svc oc build s1)"
    using record_row_steps[of build oc s1 svc] assms by simp
  then show ?thesis using assms(1) row_is_gate_effect
    by (metis steps_def steps_mono)
qed

lemma gate_row:
  assumes "trail s1 = trail s" "\<And>e. ev_outcome (build e) = ev_outcome e" "failing oc = 1" "owed r 1"
  shows "\<exists>n. steps is_gate_effect n s (record_row svc oc build s1) \<and> owed r n"
  using row_steps_after[OF assms(1,2,3)] assms(4) by blast

lemma admit_snapshot_ok: "gate_ok (admit_snapshot svc sn)"
  by (rule gate_okI)
     (auto simp: admit_snapshot_def Let_def gate_quiet gate_quiet_arguments split: sum.splits if_splits)

lemma refusal_error_ok: "gate_ok (refusal_error svc sv tn why)"
  by (rule gate_okI)
     (auto simp: refusal_error_def Let_def intro!: gate_row
       split: prod.splits option.splits if_splits tool_refusal.splits)

lemma catalog_unavailable_error_ok: "gate_ok (catalog_unavailable_error svc sv tn why)"
  by (rule gate_okI)
     (auto simp: catalog_unavailable_error_def Let_def intro!: gate_row split: prod.splits if_splits)

lemma resolve_tool_ok: "gate_ok (resolve_tool svc)"
  by (rule gate_okI)
     (auto simp: resolve_tool_def split: resolved_tool.splits
       dest!: gate_okD[OF admit_snapshot_ok] gate_okD[OF refusal_error_ok]
         gate_okD[OF catalog_unavailable_error_ok])

lemma check_expected_contract_ok: "gate_ok (check_expected_contract svc c)"
  by (rule gate_okI)
     (auto simp: check_expected_contract_def gate_quiet intro!: gate_row split: option.splits if_splits)

lemma check_mode_ok: "gate_ok (check_mode svc mode)"
  by (rule gate_okI)
     (auto simp: check_mode_def enforce_invocation_mode_def gate_quiet intro!: gate_row
       split: option.splits if_splits)

lemma gate_deny:
  assumes "deny svc why err s1 = (r, s')" "trail s1 = trail s" "owed (Inl err :: invocation_error + 'a) 1"
  shows "\<exists>n. steps is_gate_effect n s s' \<and> owed (r :: invocation_error + 'a) n"
  using assms by (auto simp: deny_def intro!: gate_row)

lemma validate_input_ok: "gate_ok (validate_input svc)"
  by (rule gate_okI)
     (auto simp: validate_input_def Let_def gate_quiet
       split: option.splits if_splits resolution_authority.splits elim!: gate_deny)

lemma extract_facts_ok: "gate_ok (extract_facts svc)"
  by (rule gate_okI) (auto simp: extract_facts_def gate_quiet split: option.splits)

text \<open>A row after other effects of the gate.\<close>

lemma gate_row_after:
  assumes "trail s1 = trail s @ t" "list_all is_gate_effect t" "failures t = 0"
    "\<And>e. ev_outcome (build e) = ev_outcome e" "failing oc = 1" "owed r 1"
  shows "\<exists>n. steps is_gate_effect n s (record_row svc oc build s1) \<and> owed r n"
proof -
  have "steps is_gate_effect 0 s s1" using assms(1-3) by (auto simp: steps_def)
  from steps_trans[OF this row_steps_after[of s1 s1 build oc 1 svc]] assms(4-6) show ?thesis
    by auto
qed

lemma gate_effects:
  "trail s' = trail s @ t \<Longrightarrow> list_all is_gate_effect t \<Longrightarrow> failures t = n \<Longrightarrow> steps is_gate_effect n s s'"
  by (auto simp: steps_def)

lemma authorize_ok: "gate_ok (authorize svc)"
  by (rule gate_okI)
     (auto simp: authorize_def Let_def effect_kinds
       split: option.splits prod.splits authz_verdict.splits
       intro!: gate_effects gate_row_after)

lemma check_profile_restrictions_ok: "gate_ok (check_profile_restrictions svc)"
  by (rule gate_okI)
     (auto simp: check_profile_restrictions_def evaluate_profile_restrictions_def Let_def
       intro!: gate_quiet elim!: gate_deny split: option.splits if_splits)

lemma prepare_output_validation_ok: "gate_ok (prepare_output_validation svc)"
  by (rule gate_okI)
     (auto simp: prepare_output_validation_def intro!: gate_quiet elim!: gate_deny
       split: option.splits resolution_authority.splits)

lemma refuse_continuation_ok: "gate_ok refuse_continuation_inputs_when_approval_gated"
  by (rule gate_okI)
     (auto simp: refuse_continuation_inputs_when_approval_gated_def intro!: gate_quiet gate_quiet_arguments
       split: if_splits)

lemma verify_continuation_ok: "gate_ok (verify_continuation svc)"
  by (rule gate_okI)
     (auto simp: verify_continuation_def Let_def intro!: gate_quiet gate_quiet_arguments
       split: option.splits sum.splits prod.splits)

lemma admit_file_inputs_ok: "gate_ok (admit_file_inputs svc)"
  by (rule gate_okI)
     (auto simp: admit_file_inputs_def Let_def intro!: gate_quiet elim!: gate_deny
       split: option.splits if_splits)

lemma prepare_task_origin_ok: "gate_ok (prepare_task_origin svc)"
  by (rule gate_okI) (auto simp: prepare_task_origin_def)

lemma check_quota_ok: "gate_ok (check_quota svc)"
  by (rule gate_okI)
     (auto simp: check_quota_def deny_def Let_def effect_kinds
       split: option.splits prod.splits sum.splits quota_error.splits
       intro!: gate_effects gate_row_after)

lemma retain_request_steps:
  "steps is_gate_effect 0 s (notify_approver svc (retain_request svc p tid behavior s))"
  by (auto simp: notify_approver_def retain_request_def Let_def steps_def effect_kinds split: option.splits)

lemma claim_approval_steps:
  assumes "claim_approval svc claim p tid behavior s = (r, s')"
  shows "steps is_gate_effect 0 s s' \<and> (\<forall>e. r = Inl e \<longrightarrow> (\<exists>tn why sat. e = ApprovalRequired tn why sat))"
proof -
  have quiet: "steps is_gate_effect 0 s (notify_approver svc (retain_request svc p tid behavior (s\<lparr>world := w\<rparr>)))"
    for w
    using retain_request_steps[of "s\<lparr>world := w\<rparr>" svc p tid behavior] by (simp add: steps_def)
  show ?thesis
    using assms quiet
    by (auto simp: claim_approval_def Let_def effect_kinds split: prod.splits sum.splits option.splits
        intro: gate_effects)
qed

lemma check_approval_inner_steps:
  assumes "check_approval_inner svc s = (r, s')"
  shows "steps is_gate_effect 0 s s' \<and> (\<forall>e. r = Inl e \<longrightarrow> (\<exists>tn why sat. e = ApprovalRequired tn why sat))"
  using assms
  by (auto simp: check_approval_inner_def Let_def
      split: resolution_authority.splits bool.splits if_splits option.splits dest: claim_approval_steps)

lemma check_approval_ok: "gate_ok (check_approval svc)"
proof (rule gate_okI)
  fix s r s' assume g: "check_approval svc s = (r, s')"
  obtain r1 s1 where inner: "check_approval_inner svc s = (r1, s1)" by force
  from check_approval_inner_steps[OF this] obtain t where
    t: "trail s1 = trail s @ t" "list_all is_gate_effect t" "failures t = 0"
    and r1: "\<forall>e. r1 = Inl e \<longrightarrow> (\<exists>tn why sat. e = ApprovalRequired tn why sat)"
    by (auto simp: steps_def)
  show "\<exists>n. steps is_gate_effect n s s' \<and> owed r n"
  proof (cases r1)
    case (Inl e)
    with r1 obtain tn why sat where "e = ApprovalRequired tn why sat" by blast
    with g inner Inl t show ?thesis
      by (auto simp: check_approval_def intro!: gate_row_after)
  next
    case (Inr u)
    with g inner t show ?thesis by (auto simp: check_approval_def steps_def)
  qed
qed

lemma record_pre_call_ok: "gate_ok (record_pre_call svc)"
  by (rule gate_okI)
     (auto simp: record_pre_call_def Let_def effect_kinds intro!: gate_effects
       split: if_splits prod.splits)

section \<open>From the gates to the response\<close>

text \<open>The errors whose row is written by the outcome stage; every other late error was recorded where it
  arose.\<close>

fun outcome_logged :: "invocation_error \<Rightarrow> bool" where
  "outcome_logged (Upstream _) \<longleftrightarrow> True"
| "outcome_logged (ResponseMaterializationLimit _ _ _) \<longleftrightarrow> True"
| "outcome_logged _ \<longleftrightarrow> False"

fun settled :: "invocation_error + 'a \<Rightarrow> nat \<Rightarrow> bool" where
  "settled (Inr _) n \<longleftrightarrow> n = 0"
| "settled (Inl e) n \<longleftrightarrow> n = (if outcome_logged e then 0 else 1)"

lemma settled_exists: "\<exists>n. settled r n"
  by (cases r) auto

definition late_ok :: "('w, 'a) stage \<Rightarrow> bool" where
  "late_ok g \<longleftrightarrow>
     (\<forall>s r s'. g s = (r, s') \<longrightarrow> core s' = core s \<and> (\<exists>n. steps is_gate_effect n s s' \<and> settled r n))"

lemma late_okI:
  assumes "\<And>s r s'. g s = (r, s') \<Longrightarrow> core s' = core s \<and> (\<exists>n. steps is_gate_effect n s s' \<and> settled r n)"
  shows "late_ok g"
  using assms by (auto simp: late_ok_def)

lemma late_okD:
  assumes "late_ok g" and "g s = (r, s')"
  shows "core s' = core s \<and> (\<exists>n. steps is_gate_effect n s s' \<and> settled r n)"
  using assms unfolding late_ok_def by blast

lemma late_deny:
  assumes "deny svc why err s1 = (r, s')" "trail s1 = trail s" "settled (Inl err :: invocation_error + 'a) 1"
  shows "\<exists>n. steps is_gate_effect n s s' \<and> settled (r :: invocation_error + 'a) n"
proof -
  have "steps is_gate_effect 1 s (record_row svc OutDenied (classified_row s1 why) s1)"
    by (rule row_steps_after) (use assms(2) in auto)
  with assms(1,3) show ?thesis by (auto simp: deny_def)
qed

lemma deny_core: "deny svc why err s = (r, s') \<Longrightarrow> core s' = core s"
  by (auto simp: deny_def)

lemma validate_input_late: "late_ok (validate_input svc)"
proof (rule late_okI)
  fix s r s' assume "validate_input svc s = (r, s')"
  then show "core s' = core s \<and> (\<exists>n. steps is_gate_effect n s s' \<and> settled r n)"
    by (auto simp: validate_input_def Let_def
        split: option.splits if_splits resolution_authority.splits elim!: late_deny dest: deny_core)
qed

lemma block_response_late: "late_ok (block_response svc name why)"
  by (rule late_okI) (auto simp: block_response_def elim!: late_deny dest: deny_core)

lemma enforce_trust_late: "late_ok (enforce_trust svc x anticipated)"
proof (rule late_okI)
  fix s r s' assume "enforce_trust svc x anticipated s = (r, s')"
  then show "core s' = core s \<and> (\<exists>n. steps is_gate_effect n s s' \<and> settled r n)"
    by (auto simp: enforce_trust_def split: sum.splits if_splits dest: late_okD[OF block_response_late])
qed

lemma settled_shift:
  "steps is_gate_effect 0 s s1 \<Longrightarrow> core s1 = core s \<Longrightarrow>
   core s' = core s1 \<and> (\<exists>n. steps is_gate_effect n s1 s' \<and> settled r n) \<Longrightarrow>
   core s' = core s \<and> (\<exists>n. steps is_gate_effect n s s' \<and> settled r n)"
  by (metis steps_trans add_0)

lemma late_seq:
  assumes "core s1 = core s \<and> (\<exists>n. steps is_gate_effect n s s1 \<and> settled r1 n)"
    and "(case r1 of Inl e \<Rightarrow> (Inl e, s1) | Inr u \<Rightarrow> h u s1) = (r, s')" and "\<And>u. late_ok (h u)"
  shows "core s' = core s \<and> (\<exists>n. steps is_gate_effect n s s' \<and> settled r n)"
proof (cases r1)
  case (Inr u)
  with assms(2) have "h u s1 = (r, s')" by simp
  from late_okD[OF assms(3) this] Inr assms(1) settled_shift[of s s1 s' r] show ?thesis by auto
qed (use assms(1,2) in auto)

lemma run_inspectors_late: "late_ok (run_inspectors svc is x)"
proof (rule late_okI)
  fix s r s' assume "run_inspectors svc is x s = (r, s')"
  then show "core s' = core s \<and> (\<exists>n. steps is_gate_effect n s s' \<and> settled r n)"
  proof (induction svc "is" x s rule: run_inspectors.induct)
    case (2 svc name inspect "is" working s)
    show ?case
    proof (cases "inspect (inspection_context_of s) working")
      case (Redact redacted n)
      show ?thesis
        by (rule settled_shift[of _ "s\<lparr>c_pending_redactions := c_pending_redactions s @ [(name, n)]\<rparr>"])
           (use 2 Redact in auto)
    qed (use 2 in \<open>auto dest: late_okD[OF block_response_late]\<close>)
  qed auto
qed

lemma scan_pause_late: "late_ok (scan_pause svc is x)"
proof (rule late_okI)
  fix s r s' assume "scan_pause svc is x s = (r, s')"
  then show "core s' = core s \<and> (\<exists>n. steps is_gate_effect n s s' \<and> settled r n)"
    by (induction svc "is" x s rule: scan_pause.induct)
       (auto split: inspection_decision.splits dest: late_okD[OF block_response_late])
qed

lemma inspect_pause_late: "late_ok (inspect_pause svc ps)"
proof (rule late_okI)
  fix s r s' assume a: "inspect_pause svc ps s = (r, s')"
  show "core s' = core s \<and> (\<exists>n. steps is_gate_effect n s s' \<and> settled r n)"
  proof (cases "sv_pause_value svc ps")
    case None
    with a show ?thesis by (auto simp: inspect_pause_def split: if_splits)
  next
    case (Some v)
    obtain r1 s1 where trust: "(if sn_annotation_claims_enforced (tool_snapshot s)
          then enforce_trust svc ((sv_structured_result svc v)\<lparr>r_meta := ps_meta ps\<rparr>)
                 (sn_anticipated_sensitive_output (tool_snapshot s)) s
          else (Inr (), s)) = (r1, s1)" by force
    have s1: "core s1 = core s \<and> (\<exists>n. steps is_gate_effect n s s1 \<and> settled r1 n)"
      using trust by (auto split: if_splits dest: late_okD[OF enforce_trust_late])
    show ?thesis
    proof (cases "\<not> sn_annotation_claims_enforced (tool_snapshot s) \<and> sv_inspectors svc = []")
      case False
      with a Some trust have "(case r1 of Inl e \<Rightarrow> (Inl e, s1)
          | Inr u \<Rightarrow> scan_pause svc (sv_inspectors svc) ((sv_structured_result svc v)\<lparr>r_meta := ps_meta ps\<rparr>) s1) = (r, s')"
        by (simp add: inspect_pause_def Let_def)
      from late_seq[OF s1 this scan_pause_late] show ?thesis .
    qed (use a in \<open>auto simp: inspect_pause_def\<close>)
  qed
qed

lemma seal_pause_state_late: "late_ok (seal_pause_state svc ps)"
  by (rule late_okI) (auto simp: seal_pause_state_def split: option.splits)

lemma admit_pause_late: "late_ok (admit_pause svc ps)"
proof (rule late_okI)
  fix s r s' assume a: "admit_pause svc ps s = (r, s')"
  obtain r1 s1 where i: "inspect_pause svc ps s = (r1, s1)" by force
  note s1 = late_okD[OF inspect_pause_late i]
  show "core s' = core s \<and> (\<exists>n. steps is_gate_effect n s s' \<and> settled r n)"
  proof (cases "(r, s') = (case r1 of Inl e \<Rightarrow> (Inl e, s1) | Inr u \<Rightarrow> seal_pause_state svc ps s1)")
    case True
    from late_seq[OF s1 True[symmetric] seal_pause_state_late] show ?thesis .
  next
    case False
    with a i show ?thesis by (auto simp: admit_pause_def split: if_splits option.splits)
  qed
qed

lemma inspect_response_late:
  assumes "inspect_response svc result s = (r, s')" and "settled result n"
  shows "core s' = core s \<and> (\<exists>m. steps is_gate_effect m s s' \<and> settled r (n + m))"
proof (cases result)
  case (Inl e)
  with assms show ?thesis by (auto simp: inspect_response_def)
next
  case (Inr working)
  obtain r1 s1 where trust: "(if sn_annotation_claims_enforced (tool_snapshot s)
        then enforce_trust svc working (sn_anticipated_sensitive_output (tool_snapshot s)) s
        else (Inr (), s)) = (r1, s1)" by force
  have s1: "core s1 = core s \<and> (\<exists>n. steps is_gate_effect n s s1 \<and> settled r1 n)"
    using trust by (auto split: if_splits dest: late_okD[OF enforce_trust_late])
  from assms(1) Inr trust have "(case r1 of Inl e \<Rightarrow> (Inl e, s1)
      | Inr u \<Rightarrow> run_inspectors svc (sv_inspectors svc) working s1) = (r, s')"
    by (simp add: inspect_response_def)
  from late_seq[OF s1 this run_inspectors_late] assms(2) Inr show ?thesis by simp
qed

lemma prepare_continuation_files_late: "late_ok (prepare_continuation_files fi)"
  by (rule late_okI)
     (auto simp: prepare_continuation_files_def core_def split: option.splits if_splits prod.splits sum.splits)

lemma prepare_and_validate_file_inputs_late: "late_ok (prepare_and_validate_file_inputs svc)"
proof (rule late_okI)
  fix s r s' assume a: "prepare_and_validate_file_inputs svc s = (r, s')"
  show "core s' = core s \<and> (\<exists>n. steps is_gate_effect n s s' \<and> settled r n)"
  proof (cases "sv_file_input svc")
    case None
    with a show ?thesis by (auto simp: prepare_and_validate_file_inputs_def)
  next
    case (Some fi)
    obtain w p where prep: "fi_prepare fi (sn_input_schema (tool_snapshot s)) (c_arguments s) (world s) = (w, p)"
      by force
    show ?thesis
    proof (cases p)
      case (Inl err)
      with a Some prep show ?thesis
        by (auto simp: prepare_and_validate_file_inputs_def effect_kinds intro!: gate_effects)
    next
      case (Inr q)
      obtain args rewritten where q: "q = (args, rewritten)" by force
      define s1 where "s1 = emit FilesPrepared (s\<lparr>world := w, c_arguments := args\<rparr>)"
      have s1: "core s1 = core s" "steps is_gate_effect 0 s s1"
        by (auto simp: s1_def core_def emit_def steps_def effect_kinds)
      obtain r2 s2 where v: "(if rewritten then validate_input svc s1 else (Inr (), s1)) = (r2, s2)" by force
      have s2: "core s2 = core s \<and> (\<exists>n. steps is_gate_effect n s s2 \<and> settled r2 n)"
        by (rule settled_shift[OF s1(2,1)]) (use v in \<open>auto split: if_splits dest: late_okD[OF validate_input_late]\<close>)
      from a Some prep Inr q v[unfolded s1_def] have "(case r2 of Inl e \<Rightarrow> (Inl e, s2)
          | Inr u \<Rightarrow> prepare_continuation_files fi s2) = (r, s')"
        by (simp add: prepare_and_validate_file_inputs_def)
      from late_seq[OF s2 this prepare_continuation_files_late] show ?thesis .
    qed
  qed
qed

lemma validate_output_late: "late_ok (validate_output svc result)"
  by (rule late_okI)
     (auto simp: validate_output_def split: sum.splits option.splits elim!: late_deny dest: deny_core)

lemma discard_batch_steps [simp]:
  "steps is_gate_effect 0 s (discard_batch svc b s)" "core (discard_batch svc b s) = core s"
  by (auto simp: discard_batch_def steps_def effect_kinds split: option.splits)

lemma publish_batch_steps:
  assumes "publish_batch svc b result s = (r, s')" and "settled result n" and "b \<noteq> None \<longrightarrow> \<not> isl result"
  shows "core s' = core s \<and> steps is_gate_effect 0 s s' \<and> settled r n"
proof -
  have discard: "steps is_gate_effect 0 s (discard_batch svc b' (s\<lparr>world := w\<rparr>))" for b' w
    using discard_batch_steps(1)[of "s\<lparr>world := w\<rparr>" svc b'] by (simp add: steps_def)
  show ?thesis
    using assms
    by (cases result)
       (auto simp: publish_batch_def effect_kinds discard split: option.splits prod.splits intro: gate_effects)
qed

lemma flush_redactions_steps:
  "steps is_gate_effect 0 s (flush_redactions svc rs s) \<and> core (flush_redactions svc rs s) = core s"
proof (induction rs arbitrary: s)
  case (Cons r rs)
  obtain name n where r: "r = (name, n)" by force
  have "steps is_gate_effect 0 s (record_row svc OutSuccess (redaction_row s name n) s)"
    by (rule row_steps_after) auto
  from steps_trans[OF this] Cons[of "record_row svc OutSuccess (redaction_row s name n) s"] r
  show ?case by auto
qed auto

lemma flush_pending_redactions_steps:
  "steps is_gate_effect 0 s (flush_pending_redactions svc s)"
  "core (flush_pending_redactions svc s) = core s"
  using flush_redactions_steps[of "s\<lparr>c_pending_redactions := []\<rparr>" svc "c_pending_redactions s"]
  by (auto simp: flush_pending_redactions_def steps_def)

lemma record_outcome_core [simp]: "core (record_outcome svc result s) = core s"
  by (auto simp: record_outcome_def Let_def split: sum.splits invocation_error.splits)

lemma record_outcome_steps:
  assumes "settled result n"
  shows "\<exists>m. steps is_gate_effect m s (record_outcome svc result s) \<and> owed result (n + m)"
proof (cases result)
  case (Inr r)
  have "steps is_gate_effect 0 s (record_outcome svc result s)"
    unfolding Inr record_outcome_def by (simp, rule row_steps_after) auto
  with assms Inr show ?thesis by auto
next
  case (Inl e)
  show ?thesis
  proof (cases "outcome_logged e")
    case True
    from True consider (up) err where "e = Upstream err"
      | (lim) tn a b where "e = ResponseMaterializationLimit tn a b"
      by (cases e) auto
    then have "steps is_gate_effect 1 s (record_outcome svc result s)"
    proof cases
      case up
      show ?thesis unfolding Inl up record_outcome_def Let_def sum.case invocation_error.case
        by (rule row_steps_after) auto
    next
      case lim
      show ?thesis unfolding Inl lim record_outcome_def Let_def sum.case invocation_error.case
        by (rule row_steps_after) auto
    qed
    with assms Inl True show ?thesis by (cases e) auto
  next
    case False
    with Inl have "record_outcome svc result s = s" by (cases e) (auto simp: record_outcome_def)
    with assms Inl False show ?thesis by (cases e) auto
  qed
qed

lemma steps_then_stage:
  assumes "steps is_gate_effect n s s1" shows "steps (\<lambda>x. \<not> is_dispatch x) n s (emit (Entered st) s1)"
    and "stages_of (trail (emit (Entered st) s1)) = stages_of (trail s) @ [st]"
proof -
  obtain t where t: "trail s1 = trail s @ t" "list_all is_gate_effect t" "failures t = n"
    using assms by (auto simp: steps_def)
  have "list_all (\<lambda>x. \<not> is_dispatch x) t" using t(2) by (auto simp: list_all_iff is_gate_effect_def)
  with t show "steps (\<lambda>x. \<not> is_dispatch x) n s (emit (Entered st) s1)"
    by (auto simp: steps_def effect_kinds)
  have "stages_of t = []" using t(2) by (induction t) (auto simp: is_gate_effect_def)
  with t show "stages_of (trail (emit (Entered st) s1)) = stages_of (trail s) @ [st]"
    by (simp add: stage_of_def)
qed

lemma steps_stages:
  assumes "steps is_gate_effect n s s'" shows "stages_of (trail s') = stages_of (trail s)"
  using steps_then_stage(2)[OF assms, of ResolveTool] by (simp add: stage_of_def)

lemma steps_no_dispatch: "steps is_gate_effect n s s' \<Longrightarrow> steps (\<lambda>x. \<not> is_dispatch x) n s s'"
  by (erule steps_mono) (simp add: is_gate_effect_def)

lemma prepare_file_outputs_steps:
  assumes "prepare_file_outputs svc result s = (r, b, s')" and "settled result n"
  shows "core s' = core s \<and> steps is_gate_effect 0 s s' \<and> settled r n \<and> (b \<noteq> None \<longrightarrow> \<not> isl r)"
  using assms
  by (auto simp: prepare_file_outputs_def split: option.splits sum.splits prod.splits)

lemma prepare_files_and_validate_output_late:
  assumes "prepare_files_and_validate_output svc result s = (r, s')" and "settled result n"
  shows "core s' = core s \<and>
    stages_of (trail s') = stages_of (trail s) @ [PrepareFileOutputs, ValidateOutput] \<and>
    (\<exists>m. steps (\<lambda>x. \<not> is_dispatch x) m s s' \<and>
       (case r of Inl e \<Rightarrow> owed (Inl e) (n + m) | Inr result' \<Rightarrow> settled result' (n + m)))"
proof -
  let ?P = "\<lambda>x. \<not> is_dispatch x"
  obtain result1 b s1 where p: "prepare_file_outputs svc result (emit (Entered PrepareFileOutputs) s) = (result1, b, s1)"
    using prod_cases3 by blast
  note p1 = prepare_file_outputs_steps[OF p assms(2)]
  obtain v s2 where v: "validate_output svc result1 (emit (Entered ValidateOutput) s1) = (v, s2)" by force
  note v1 = late_okD[OF validate_output_late v]
  have e0: "steps ?P 0 s (emit (Entered PrepareFileOutputs) s)"
    by (rule steps_then_stage) simp
  have e1: "steps ?P 0 s (emit (Entered ValidateOutput) s1)"
    using steps_trans[OF e0 steps_then_stage(1)[of 0 _ s1]] p1 by auto
  have st1: "stages_of (trail (emit (Entered ValidateOutput) s1)) =
      stages_of (trail s) @ [PrepareFileOutputs, ValidateOutput]"
    using steps_then_stage(2)[of 0 "emit (Entered PrepareFileOutputs) s" s1 ValidateOutput] p1
      steps_then_stage(2)[of 0 s s PrepareFileOutputs] by simp
  from v1 obtain k where k: "steps is_gate_effect k (emit (Entered ValidateOutput) s1) s2" "settled v k"
    by blast
  have s2: "steps ?P k s s2" "stages_of (trail s2) = stages_of (trail s) @ [PrepareFileOutputs, ValidateOutput]"
    using steps_trans[OF e1 steps_no_dispatch[OF k(1)]] steps_stages[OF k(1)] st1 by auto
  have c2: "core s2 = core s" using v1 p1 by simp
  show ?thesis
  proof (cases v)
    case (Inl e)
    with v obtain why where e: "e = OutputSchemaViolation (call_fq (emit (Entered ValidateOutput) s1)) why"
      "\<not> isl result1"
      by (auto simp: validate_output_def deny_def split: sum.splits option.splits)
    with k Inl p1 have "k = 1" "n = 0" by (cases result1; auto)+
    moreover have "steps ?P (k + 0) s (discard_batch svc b s2)"
      by (rule steps_trans[OF s2(1) steps_no_dispatch]) simp
    moreover have "(r, s') = (Inl e, discard_batch svc b s2)"
      using assms(1) p v Inl by (simp add: prepare_files_and_validate_output_def)
    ultimately show ?thesis
      using c2 s2(2) e steps_stages[OF discard_batch_steps(1)[of s2 svc b]] by auto
  next
    case (Inr u)
    obtain r2 s3 where pub: "publish_batch svc b result1 s2 = (r2, s3)" by force
    have "(r, s') = (Inr r2, s3)"
      using assms(1) p v Inr pub by (simp add: prepare_files_and_validate_output_def)
    moreover note publish_batch_steps[OF pub, of n] p1
    moreover have "k = 0" using k(2) Inr by simp
    ultimately show ?thesis
      using c2 s2 steps_trans[OF s2(1) steps_no_dispatch, of 0 s3] steps_stages[of 0 s2 s3] by auto
  qed
qed

text \<open>The stages a response goes through; an output that violates its schema ends before the outcome.\<close>

definition response_stages :: "invocation_stage list" where
  "response_stages = [InspectResponse, PrepareFileOutputs, ValidateOutput]"

lemma attach_count_steps:
  assumes "attach_count result s = (r, s')"
  shows "core s' = core s \<and> trail s' = trail s \<and> (settled result n \<longrightarrow> settled r n)"
  using assms by (auto simp: attach_count_def split: sum.splits option.splits)

lemma deliver_late:
  assumes "deliver svc result s = (r, s')" and "settled result n"
  shows "core s' = core s \<and>
    (\<exists>m. steps (\<lambda>x. \<not> is_dispatch x) m s s' \<and> owed r (n + m)) \<and>
    (\<exists>tail. stages_of (trail s') = stages_of (trail s) @ response_stages @ tail \<and>
       (tail = [RecordOutcome] \<or> tail = [] \<and> isl r))"
proof -
  let ?P = "\<lambda>x. \<not> is_dispatch x"
  obtain r1 s1 where a: "attach_count result s = (r1, s1)" by force
  note a1 = attach_count_steps[OF a, of n]
  obtain r2 s2 where i: "inspect_response svc r1 (emit (Entered InspectResponse) s1) = (r2, s2)" by force
  have set1: "settled r1 n" using a1 assms(2) by blast
  from inspect_response_late[OF i set1] obtain k where
    k: "steps is_gate_effect k (emit (Entered InspectResponse) s1) s2" "settled r2 (n + k)" and
    c2: "core s2 = core s"
    using a1 by auto
  have "steps is_gate_effect 0 s s1" using a1 by simp
  note st = steps_then_stage[OF this, of InspectResponse]
  have s2: "steps ?P k s s2" "stages_of (trail s2) = stages_of (trail s) @ [InspectResponse]"
    using steps_trans[OF st(1) steps_no_dispatch[OF k(1)]] st(2) steps_stages[OF k(1)] by auto
  obtain r3 s3 where p: "prepare_files_and_validate_output svc r2 s2 = (r3, s3)" by force
  from prepare_files_and_validate_output_late[OF p k(2)] obtain m where
    m: "steps ?P m s2 s3" "case r3 of Inl e \<Rightarrow> owed (Inl e :: invocation_error + tool_result) (n + k + m)
         | Inr result' \<Rightarrow> settled result' (n + k + m)" and
    c3: "core s3 = core s" and
    st3: "stages_of (trail s3) = stages_of (trail s) @ response_stages"
    using c2 s2 by (auto simp: response_stages_def)
  have s3: "steps ?P (k + m) s s3" by (rule steps_trans[OF s2(1) m(1)])
  show ?thesis
  proof (cases r3)
    case (Inl e)
    with assms(1) a i p have "(r, s') = (Inl e, s3)" by (simp add: deliver_def)
    moreover have "owed (Inl e :: invocation_error + invocation_response) (n + (k + m))"
      using m(2) Inl by (cases e) auto
    ultimately show ?thesis using c3 s3 st3 by auto
  next
    case (Inr result3)
    define s4 where "s4 = (case result3 of Inr _ \<Rightarrow> flush_pending_redactions svc s3 | Inl _ \<Rightarrow> s3)"
    have s4: "steps is_gate_effect 0 s3 s4" "core s4 = core s3"
      by (auto simp: s4_def flush_pending_redactions_steps split: sum.splits)
    from m(2) Inr have set3: "settled result3 (n + k + m)" by simp
    define s5 where "s5 = record_outcome svc result3 (emit (Entered RecordOutcome) s4)"
    from record_outcome_steps[OF set3, of "emit (Entered RecordOutcome) s4" svc] obtain j where
      j: "steps is_gate_effect j (emit (Entered RecordOutcome) s4) s5" "owed result3 (n + k + m + j)"
      by (auto simp: s5_def)
    have s5: "steps ?P (k + m + 0 + j) s s5"
      by (rule steps_trans[OF steps_trans[OF s3 steps_then_stage(1)[OF s4(1)]] steps_no_dispatch[OF j(1)]])
    have st5: "stages_of (trail s5) = stages_of (trail s) @ response_stages @ [RecordOutcome]"
      using steps_stages[OF j(1)] steps_then_stage(2)[OF s4(1), of RecordOutcome] st3 by simp
    have rs: "(r, s') = (map_sum id Unary result3, s5)"
      using assms(1) a i p Inr by (simp add: deliver_def s4_def s5_def Let_def)
    have "owed r (n + (k + m + 0 + j))"
      using j(2) rs by (cases result3; cases "projl result3") (auto simp: add.assoc)
    with s5 st5 rs s4 c3 show ?thesis by (auto simp: s5_def)
  qed
qed

section \<open>The outside world\<close>

text \<open>The documented error contract of the two callbacks that can fail late: the catalog maps a failed
  dispatch to \<open>Upstream\<close> (or the materialisation limit), and a caller-owned admission refuses with
  \<open>Upstream\<close>.\<close>

definition upstream_errors_ok :: "'w service \<Rightarrow> bool" where
  "upstream_errors_ok svc \<longleftrightarrow>
     (\<forall>sv tn a p k m w w' e. sv_call_tool svc sv tn a p k m w = (w', Inl e) \<longrightarrow> outcome_logged e)"

definition admission_errors_ok :: "'w request \<Rightarrow> bool" where
  "admission_errors_ok rq \<longleftrightarrow>
     (\<forall>admit b k w w' e. rq_dispatch_admission rq = Some admit \<longrightarrow> admit b k w = (w', Some e) \<longrightarrow> outcome_logged e)"

lemma dispatch_effect:
  assumes "dispatch svc s = (r, s')"
  obtains a m where "trail s' = trail s @ [Dispatched a (contract_of svc s) m]" "core s' = core s"
  using assms by (auto simp: dispatch_def Let_def core_def emit_def split: prod.splits)

lemma dispatch_settled:
  assumes "dispatch svc s = (r, s')" "upstream_errors_ok svc" shows "settled r 0"
  using assms
  by (cases r) (auto simp: dispatch_def upstream_errors_ok_def Let_def split: prod.splits)

end
