(* ===== verification/Invocation_Properties.thy ===== *)
theory Invocation_Properties
  imports Invocation_Effects
begin

text \<open>
  What the tool-call pipeline guarantees: what has happened before a call reaches the upstream, the order
  of the stages, the rows every outcome leaves, what a released response has passed, and the binding of
  continuation envelopes.
\<close>

section \<open>Running the gates\<close>

text \<open>A gate list with the stages it announces.\<close>

fun gate_as :: "invocation_stage option \<Rightarrow> ('w, unit) stage \<Rightarrow> bool" where
  "gate_as (Some st) g \<longleftrightarrow> g = enter_stage st"
| "gate_as None g \<longleftrightarrow> gate_ok g"

lemma gates_trace:
  assumes "list_all2 gate_as lbls gs" and "gates gs s = (r, s')"
  shows "(\<exists>n. steps (\<lambda>x. \<not> is_dispatch x) n s s' \<and> owed r n) \<and>
    (\<exists>k. stages_of (trail s') = stages_of (trail s) @ take k (List.map_filter id lbls)) \<and>
    (\<not> isl r \<longrightarrow> stages_of (trail s') = stages_of (trail s) @ List.map_filter id lbls)"
  using assms
proof (induction lbls gs arbitrary: s rule: list_all2_induct)
  case Nil
  then show ?case by (auto simp: List.map_filter_def)
next
  case (Cons l lbls g gs)
  obtain r1 s1 where g: "g s = (r1, s1)" by force
  show ?case
  proof (cases l)
    case (Some st)
    with Cons.hyps have s1: "s1 = emit (Entered st) s" and r1: "r1 = Inr ()"
      using g by (auto simp: enter_stage_def)
    have e: "steps (\<lambda>x. \<not> is_dispatch x) 0 s s1" "stages_of (trail s1) = stages_of (trail s) @ [st]"
      using steps_then_stage[of 0 s s st] s1 by auto
    have "gates gs s1 = (r, s')" using Cons.prems g r1 by simp
    from Cons.IH[OF this] obtain n k where
      "steps (\<lambda>x. \<not> is_dispatch x) n s1 s'" "owed r n"
      "stages_of (trail s') = stages_of (trail s1) @ take k (List.map_filter id lbls)"
      "\<not> isl r \<longrightarrow> stages_of (trail s') = stages_of (trail s1) @ List.map_filter id lbls"
      by blast
    moreover have lbls: "List.map_filter id (l # lbls) = st # List.map_filter id lbls"
      using Some by (simp add: List.map_filter_def)
    moreover have "stages_of (trail s) @ take (Suc k) (List.map_filter id (l # lbls)) =
        stages_of (trail s1) @ take k (List.map_filter id lbls)"
      using e(2) lbls by simp
    ultimately show ?thesis
      using e(2) steps_trans[OF e(1)] by (metis add_0 append.assoc append_Cons append_Nil)
  next
    case None
    with Cons.hyps have "gate_ok g" by simp
    from gate_okD[OF this g] obtain n where n: "steps is_gate_effect n s s1" "owed r1 n" by blast
    note st = steps_stages[OF n(1)] and d = steps_no_dispatch[OF n(1)]
    have lbls: "List.map_filter id (l # lbls) = List.map_filter id lbls"
      using None by (simp add: List.map_filter_def)
    show ?thesis
    proof (cases r1)
      case (Inl e)
      then have "(r, s') = (Inl e, s1)" using Cons.prems g by simp
      moreover have "owed (Inl e :: invocation_error + unit) n" using n(2) Inl by (cases e) auto
      ultimately show ?thesis using d st by (auto intro: exI[of _ 0])
    next
      case (Inr u)
      then have gs: "gates gs s1 = (r, s')" and "n = 0" using Cons.prems g n(2) by auto
      with steps_trans[OF d] Cons.IH[OF gs] st show ?thesis unfolding lbls by (metis add_0)
    qed
  qed
qed

definition admission_labels :: "invocation_stage option list" where
  "admission_labels =
     [Some ResolveTool, None, None, None, Some ValidateInput, None, Some ExtractFacts, None,
      Some Authorize, None, Some CheckProfileRestrictions, None, Some PrepareOutputValidation, None,
      None, None, None, None, Some CheckQuota, None, Some CheckApproval, None, Some RecordPreCall, None]"

lemma admission_gates_as: "list_all2 gate_as admission_labels (admission_gates svc rq)"
  by (simp add: admission_labels_def admission_gates_def resolve_tool_ok check_expected_contract_ok
      check_mode_ok validate_input_ok extract_facts_ok authorize_ok check_profile_restrictions_ok
      prepare_output_validation_ok refuse_continuation_ok verify_continuation_ok admit_file_inputs_ok
      prepare_task_origin_ok check_quota_ok check_approval_ok record_pre_call_ok)

lemma admission_labels_stages: "List.map_filter id admission_labels = take 9 all_stages"
  by (simp add: admission_labels_def all_stages_def List.map_filter_def)

lemmas admission_trace = gates_trace[OF admission_gates_as, unfolded admission_labels_stages]

section \<open>What has been cleared before a dispatch\<close>

text \<open>The verdicts that let a call go on; the approval verdict leaves its policies with the call.\<close>

fun verdict_passes :: "bytes list option \<Rightarrow> authz_verdict \<Rightarrow> bool" where
  "verdict_passes gate (Allow _) \<longleftrightarrow> True"
| "verdict_passes gate (NeedsApproval _ ids) \<longleftrightarrow> gate = Some ids"
| "verdict_passes gate _ \<longleftrightarrow> False"

definition authorised :: "'w call \<Rightarrow> effect set \<Rightarrow> bool" where
  "authorised s T \<longleftrightarrow>
     (c_principal s \<noteq> None \<longrightarrow> (\<exists>v. Decided v \<in> T \<and> verdict_passes (c_cedar_approval_policies s) v))"

definition profile_allows :: "'w call \<Rightarrow> bool" where
  "profile_allows s \<longleftrightarrow>
     (\<forall>p r. c_principal s = Some p \<longrightarrow> pr_restrictions p = Some r \<longrightarrow>
        list_admits (allowed_servers r) (c_server s) \<and> list_admits (allowed_tools r) (call_fq s))"

definition quota_granted :: "'w service \<Rightarrow> 'w call \<Rightarrow> effect set \<Rightarrow> bool" where
  "quota_granted svc s T \<longleftrightarrow>
     (sv_quota svc \<noteq> None \<longrightarrow> c_principal s \<noteq> None \<longrightarrow>
        QuotaAnswer (quota_actions (facts s)) (Inr ()) \<in> T \<or> QuotaAnswer (quota_actions (facts s)) (Inl Sqlx) \<in> T)"

definition grant_for :: "'w service \<Rightarrow> 'w call \<Rightarrow> grant_lookup \<Rightarrow> bool" where
  "grant_for svc s gl \<longleftrightarrow>
     (\<exists>p tid behavior. c_principal s = Some p \<and> sn_authority (tool_snapshot s) = Catalog tid behavior \<and>
        gl_tenant_id gl = pr_tenant p \<and> gl_principal_sub gl = pr_sub p \<and> gl_principal_issuer gl = pr_issuer p \<and>
        gl_tool_id gl = tid \<and> gl_argument_hash gl = approval_binding_hash (sv_sha256 svc) behavior (c_digest s))"

definition approved :: "'w service \<Rightarrow> 'w call \<Rightarrow> effect set \<Rightarrow> bool" where
  "approved svc s T \<longleftrightarrow> (approval_needed s \<longrightarrow> (\<exists>gl. GrantClaimed gl \<in> T \<and> grant_for svc s gl))"

definition evidenced :: "'w service \<Rightarrow> 'w call \<Rightarrow> effect set \<Rightarrow> bool" where
  "evidenced svc s T \<longleftrightarrow>
     (sv_audit_mode svc = FailClosed \<longrightarrow> tf_side_effects (facts s) \<longrightarrow>
        (\<exists>e. RequiredRecord e True \<in> T \<and> ev_reason e = Some ''pre_call'' \<and>
             ev_server e = Some (c_server s) \<and> ev_tool e = Some (c_tool s) \<and>
             ev_tenant e = tenant_or_default (c_principal s)))"

definition cleared :: "'w service \<Rightarrow> 'w call \<Rightarrow> effect set \<Rightarrow> bool" where
  "cleared svc s T \<longleftrightarrow>
     authorised s T \<and> profile_allows s \<and> quota_granted svc s T \<and> approved svc s T \<and> evidenced svc s T"

lemmas cleared_defs = authorised_def profile_allows_def quota_granted_def approved_def evidenced_def grant_for_def

lemma cleared_core:
  assumes "core s' = core s" "T \<subseteq> T'" "cleared svc s T" shows "cleared svc s' T'"
proof -
  have eqs: "c_principal s' = c_principal s" "c_server s' = c_server s" "c_tool s' = c_tool s"
    "facts s' = facts s" "tool_snapshot s' = tool_snapshot s"
    "c_cedar_approval_policies s' = c_cedar_approval_policies s" "c_digest s' = c_digest s"
    "call_fq s' = call_fq s" "approval_needed s' = approval_needed s"
    using assms(1) by (simp_all add: core_def facts_def tool_snapshot_def call_fq_def approval_needed_def)
  have "grant_for svc s' gl = grant_for svc s gl" for gl by (simp add: grant_for_def eqs)
  with assms(2,3) show ?thesis
    unfolding cleared_def authorised_def profile_allows_def quota_granted_def approved_def evidenced_def eqs
    by blast
qed

text \<open>The context as the later gates leave it, and the trail they add to.\<close>

definition identity :: "'w call \<Rightarrow> principal option \<times> bytes \<times> bytes \<times> tool_facts option \<times> bytes list option" where
  "identity s = (c_principal s, c_server s, c_tool s, c_effective_facts s, c_cedar_approval_policies s)"

lemma core_identity: "core s' = core s \<Longrightarrow> identity s' = identity s"
  by (simp add: core_def identity_def)

lemma gates_Inr:
  "gates (g # gs) s = (Inr u, s') \<longleftrightarrow> (\<exists>s1. g s = (Inr (), s1) \<and> gates gs s1 = (Inr (), s'))"
  by (auto split: prod.splits sum.splits)

lemma authorize_passed:
  assumes "authorize svc s = (Inr (), s')" shows "authorised s' (set (trail s'))"
proof (cases "c_principal s")
  case (Some p)
  obtain w v where v: "sv_authorize svc (the (c_pip_facts s)) (world s) = (w, v)" by force
  have "Decided v \<in> set (trail s') \<and> verdict_passes (c_cedar_approval_policies s') v"
    using assms Some v by (cases v) (auto simp: authorize_def Let_def)
  then show ?thesis by (auto simp: authorised_def)
qed (use assms in \<open>auto simp: authorize_def authorised_def\<close>)

lemma check_profile_passed:
  assumes "check_profile_restrictions svc s = (Inr (), s')" shows "s' = s \<and> profile_allows s"
  using assms
  by (auto simp: check_profile_restrictions_def profile_allows_def evaluate_profile_restrictions_def
      call_fq_def deny_def Let_def split: option.splits if_splits)

lemma prepare_output_passed:
  assumes "prepare_output_validation svc s = (Inr (), s')"
  shows "identity s' = identity s \<and> trail s' = trail s"
  using assms
  by (auto simp: prepare_output_validation_def identity_def deny_def
      split: option.splits resolution_authority.splits)

lemma refuse_continuation_passed:
  "refuse_continuation_inputs_when_approval_gated s = (Inr (), s') \<Longrightarrow> s' = s"
  by (auto simp: refuse_continuation_inputs_when_approval_gated_def split: if_splits)

lemma verify_continuation_passed:
  assumes "verify_continuation svc s = (Inr (), s')"
  shows "identity s' = identity s \<and> trail s' = trail s \<and> c_snapshot s' = c_snapshot s \<and>
         c_arguments s' = c_arguments s \<and> c_digest s' = sv_argument_hash svc (c_arguments s')"
  using assms
  by (auto simp: verify_continuation_def identity_def Let_def split: option.splits sum.splits)

lemma admit_file_inputs_passed: "admit_file_inputs svc s = (Inr (), s') \<Longrightarrow> s' = s"
  by (auto simp: admit_file_inputs_def deny_def Let_def split: option.splits if_splits)

lemma prepare_task_origin_passed:
  "prepare_task_origin svc s = (Inr (), s') \<Longrightarrow>
     core s' = core s \<and> trail s' = trail s \<and> c_arguments s' = c_arguments s"
  by (auto simp: prepare_task_origin_def)

lemma check_quota_passed:
  assumes "check_quota svc s = (Inr (), s')"
  shows "core s' = core s \<and> c_arguments s' = c_arguments s \<and> set (trail s) \<subseteq> set (trail s') \<and>
         quota_granted svc s' (set (trail s'))"
  using assms
  by (auto simp: check_quota_def quota_granted_def core_def facts_def emit_def deny_def Let_def
      split: option.splits prod.splits sum.splits quota_error.splits)

lemma claim_approval_passed:
  assumes "claim_approval svc claim p tid behavior s = (Inr (), s')"
  shows "core s' = core s \<and> trail s' = trail s @ [GrantClaimed (grant_lookup_of svc p tid behavior s)]"
  using assms by (auto simp: claim_approval_def Let_def split: prod.splits sum.splits option.splits)

lemma check_approval_passed:
  assumes "check_approval svc s = (Inr (), s')" and "c_digest s = sv_argument_hash svc (c_arguments s)"
  shows "core s' = core s \<and> set (trail s) \<subseteq> set (trail s') \<and> approved svc s' (set (trail s'))"
proof -
  have inner: "check_approval_inner svc s = (Inr (), s')"
    using assms(1) by (auto simp: check_approval_def split: prod.splits sum.splits invocation_error.splits)
  show ?thesis
  proof (cases "approval_needed s")
    case False
    with inner have "s' = s"
      by (auto simp: check_approval_inner_def Let_def split: resolution_authority.splits bool.splits)
    with False show ?thesis by (simp add: approved_def)
  next
    case True
    with inner obtain p claim tid behavior where
      c: "c_principal s = Some p" "sn_authority (tool_snapshot s) = Catalog tid behavior"
        "claim_approval svc claim p tid behavior s = (Inr (), s')"
      by (auto simp: check_approval_inner_def Let_def
          split: resolution_authority.splits bool.splits option.splits)
    from claim_approval_passed[OF c(3)] have s': "core s' = core s"
      "GrantClaimed (grant_lookup_of svc p tid behavior s) \<in> set (trail s')" "set (trail s) \<subseteq> set (trail s')"
      by auto
    then have "c_principal s' = c_principal s" "tool_snapshot s' = tool_snapshot s" "c_digest s' = c_digest s"
      by (auto simp: core_def tool_snapshot_def)
    with c s' assms(2) have "grant_for svc s' (grant_lookup_of svc p tid behavior s)"
      by (simp add: grant_for_def grant_lookup_of_def)
    with s' show ?thesis by (auto simp: approved_def)
  qed
qed

lemma decision_row_fields:
  "ev_reason (decision_row s ids why e) = Some why"
  "ev_server (decision_row s ids why e) = Some (c_server s)"
  "ev_tool (decision_row s ids why e) = Some (c_tool s)"
  "ev_tenant (decision_row s ids why (context_event s eid t oc)) = tenant_or_default (c_principal s)"
  by (auto simp: decision_row_def context_event_def event_builders tenant_or_default_def split: option.splits)

lemma record_pre_call_passed:
  assumes "record_pre_call svc s = (Inr (), s')"
  shows "core s' = core s \<and> set (trail s) \<subseteq> set (trail s') \<and> evidenced svc s' (set (trail s'))"
proof (cases "sv_audit_mode svc = FailClosed \<and> tf_side_effects (facts s)")
  case False
  with assms show ?thesis by (auto simp: record_pre_call_def evidenced_def split: if_splits)
next
  case True
  with assms obtain e w where
    s': "s' = emit (RequiredRecord e True) (s\<lparr>world := w\<rparr>)" and
    e: "\<exists>eid t. e = decision_row s (c_authz_policy_ids s) ''pre_call'' (context_event s eid t OutSuccess)"
    by (auto simp: record_pre_call_def Let_def split: prod.splits if_splits)
  then have "core s' = core s" "RequiredRecord e True \<in> set (trail s')" "set (trail s) \<subseteq> set (trail s')"
    "c_server s' = c_server s" "c_tool s' = c_tool s" "c_principal s' = c_principal s"
    by (auto simp: emit_def core_def)
  with e decision_row_fields show ?thesis unfolding evidenced_def by metis
qed

lemma identity_fields:
  assumes "identity s' = identity s"
  shows "c_principal s' = c_principal s" "c_server s' = c_server s" "c_tool s' = c_tool s"
    "facts s' = facts s" "c_cedar_approval_policies s' = c_cedar_approval_policies s" "call_fq s' = call_fq s"
  using assms by (simp_all add: identity_def facts_def call_fq_def)

lemma passed_identity:
  assumes "identity s' = identity s" "T \<subseteq> T'"
  shows "authorised s T \<Longrightarrow> authorised s' T'" "profile_allows s \<Longrightarrow> profile_allows s'"
    "quota_granted svc s T \<Longrightarrow> quota_granted svc s' T'"
  unfolding authorised_def profile_allows_def quota_granted_def identity_fields[OF assms(1)]
  using assms(2) by blast+

lemma approved_core:
  assumes "core s' = core s" "T \<subseteq> T'" "approved svc s T" shows "approved svc s' T'"
proof -
  have "approval_needed s' = approval_needed s" "grant_for svc s' gl = grant_for svc s gl" for gl
    using assms(1) by (simp_all add: core_def facts_def approval_needed_def grant_for_def tool_snapshot_def)
  with assms(2,3) show ?thesis unfolding approved_def by blast
qed

lemma core_emit_identity [simp]: "identity (emit x s) = identity s"
  by (simp add: identity_def emit_def)

lemma gates_cleared:
  assumes "gates (admission_gates svc rq) s = (Inr (), s')"
  shows "cleared svc s' (set (trail s'))"
proof -
  from assms obtain s1 s2 s3 s4 s5 s6 s7 s8 s9 s10 where
    g: "authorize svc s1 = (Inr (), s2)"
      "check_profile_restrictions svc (emit (Entered CheckProfileRestrictions) s2) = (Inr (), s3)"
      "prepare_output_validation svc (emit (Entered PrepareOutputValidation) s3) = (Inr (), s4)"
      "refuse_continuation_inputs_when_approval_gated s4 = (Inr (), s5)"
      "verify_continuation svc s5 = (Inr (), s6)" "admit_file_inputs svc s6 = (Inr (), s7)"
      "prepare_task_origin svc s7 = (Inr (), s8)"
      "check_quota svc (emit (Entered CheckQuota) s8) = (Inr (), s9)"
      "check_approval svc (emit (Entered CheckApproval) s9) = (Inr (), s10)"
      "record_pre_call svc (emit (Entered RecordPreCall) s10) = (Inr (), s')"
    unfolding admission_gates_def gates_Inr enter_stage_def by auto
  note p = authorize_passed[OF g(1)] check_profile_passed[OF g(2)] prepare_output_passed[OF g(3)]
    refuse_continuation_passed[OF g(4)] verify_continuation_passed[OF g(5)] admit_file_inputs_passed[OF g(6)]
    prepare_task_origin_passed[OF g(7)] check_quota_passed[OF g(8)]
  have id8: "identity s8 = identity s2" and T8: "set (trail s2) \<subseteq> set (trail s8)"
    using p core_identity[of s8 s7] by auto
  have id9: "identity s9 = identity s8" and T9: "set (trail s8) \<subseteq> set (trail s9)"
    using p(8) core_identity[of s9 "emit (Entered CheckQuota) s8"] by auto
  have digest: "c_digest (emit (Entered CheckApproval) s9) =
      sv_argument_hash svc (c_arguments (emit (Entered CheckApproval) s9))"
    using p(5-8) by (auto simp: core_def emit_def)
  note a = check_approval_passed[OF g(9) digest] and r = record_pre_call_passed[OF g(10)]
  have id10: "identity s' = identity s9" and T10: "set (trail s9) \<subseteq> set (trail s')"
    using a r core_identity[of s10 "emit (Entered CheckApproval) s9"]
      core_identity[of s' "emit (Entered RecordPreCall) s10"] by auto
  have prof: "profile_allows s2" using p(2) by (auto simp: profile_allows_def call_fq_def emit_def)
  have "authorised s' (set (trail s'))"
    by (rule passed_identity(1)[OF _ _ p(1)]) (use id8 id9 id10 T8 T9 T10 in auto)
  moreover have "profile_allows s'"
    by (rule passed_identity(2)[OF _ _ prof]) (use id8 id9 id10 in auto)
  moreover have "quota_granted svc s' (set (trail s'))"
    by (rule passed_identity(3)[OF id10 T10]) (use p(8) in blast)
  moreover have "approved svc s' (set (trail s'))"
    by (rule approved_core[of _ s10 "set (trail s10)"]) (use a r in auto)
  ultimately show ?thesis using r by (simp add: cleared_def)
qed

section \<open>The whole call\<close>

lemma stepsE:
  assumes "steps K n s s'" obtains t where "trail s' = trail s @ t" "list_all K t" "failures t = n"
  using assms by (auto simp: steps_def)

text \<open>What follows the dispatch in the trail.\<close>

definition response_trace ::
  "'w service \<Rightarrow> 'w call \<Rightarrow> invocation_error + invocation_response \<Rightarrow> 'w call \<Rightarrow> effect list \<Rightarrow> bool" where
  "response_trace svc s r s' post \<longleftrightarrow>
     (\<exists>a m. trail s' = trail s @ Dispatched a (contract_of svc s) m # post) \<and>
     list_all (\<lambda>x. \<not> is_dispatch x) post \<and> core s' = core s \<and>
     (upstream_errors_ok svc \<longrightarrow> owed r (failures post)) \<and>
     (case r of
        Inl _ \<Rightarrow> stages_of post \<in> {[], response_stages, response_stages @ [RecordOutcome]}
      | Inr (Unary _) \<Rightarrow> stages_of post = response_stages @ [RecordOutcome]
      | Inr (PauseRelayed _) \<Rightarrow> stages_of post = [RecordOutcome])"

lemma response_traceI:
  assumes d: "trail s1 = trail s @ [Dispatched a (contract_of svc s) m]" "core s1 = core s"
    and t: "steps (\<lambda>x. \<not> is_dispatch x) n s1 s'" "core s' = core s1"
    and "upstream_errors_ok svc \<longrightarrow> owed r n"
    and st: "stages_of (trail s') = stages_of (trail s1) @ st"
    and "case r of
        Inl _ \<Rightarrow> st \<in> {[], response_stages, response_stages @ [RecordOutcome]}
      | Inr (Unary _) \<Rightarrow> st = response_stages @ [RecordOutcome]
      | Inr (PauseRelayed _) \<Rightarrow> st = [RecordOutcome]"
  shows "\<exists>post. response_trace svc s r s' post"
proof -
  from t(1) obtain u where u: "trail s' = trail s1 @ u" "list_all (\<lambda>x. \<not> is_dispatch x) u" "failures u = n"
    by (rule stepsE)
  have "stages_of u = st" using st u(1) by simp
  with u d t(2) assms(5,7) show ?thesis
    unfolding response_trace_def by (intro exI[of _ u]) auto
qed

lemma deliver_trace:
  assumes d: "trail s1 = trail s @ [Dispatched a (contract_of svc s) m]" "core s1 = core s"
    and pre: "steps is_gate_effect n s1 s2" "core s2 = core s1"
    and set: "upstream_errors_ok svc \<longrightarrow> settled result n"
    and del: "deliver svc result s2 = (r, s')"
  shows "\<exists>post. response_trace svc s r s' post"
proof -
  obtain k where k: "settled result k" "upstream_errors_ok svc \<longrightarrow> k = n"
    using settled_exists set by blast
  from deliver_late[OF del k(1)] obtain j tail where
    j: "core s' = core s2" "steps (\<lambda>x. \<not> is_dispatch x) j s2 s'" "owed r (k + j)"
      "stages_of (trail s') = stages_of (trail s2) @ response_stages @ tail"
      "tail = [RecordOutcome] \<or> tail = [] \<and> isl r"
    by blast
  have np: "r \<noteq> Inr (PauseRelayed ps)" for ps
    using del by (auto simp: deliver_def Let_def map_sum_def split: prod.splits sum.splits)
  show ?thesis
  proof (rule response_traceI[OF d steps_trans[OF steps_no_dispatch[OF pre(1)] j(2)]])
    show "core s' = core s1" using j(1) pre(2) by simp
    show "upstream_errors_ok svc \<longrightarrow> owed r (n + j)" using k(2) j(3) by auto
    show "stages_of (trail s') = stages_of (trail s1) @ (response_stages @ tail)"
      using j(4) steps_stages[OF pre(1)] by simp
    show "case r of
        Inl _ \<Rightarrow> response_stages @ tail \<in> {[], response_stages, response_stages @ [RecordOutcome]}
      | Inr (Unary _) \<Rightarrow> response_stages @ tail = response_stages @ [RecordOutcome]
      | Inr (PauseRelayed _) \<Rightarrow> response_stages @ tail = [RecordOutcome]"
      using j(5) np by (auto split: sum.splits invocation_response.splits)
  qed
qed

lemma respond_trace:
  assumes "respond svc s = (r, s')" shows "\<exists>post. response_trace svc s r s' post"
proof -
  obtain d s1 where disp: "dispatch svc s = (d, s1)" by force
  from dispatch_effect[OF this] obtain a m where
    d: "trail s1 = trail s @ [Dispatched a (contract_of svc s) m]" "core s1 = core s" by metis
  show ?thesis
  proof (cases d)
    case (Inl e)
    have "upstream_errors_ok svc \<longrightarrow> settled (Inl e :: invocation_error + tool_result) 0"
      using dispatch_settled[OF disp] Inl by (cases e) auto
    with deliver_trace[OF d, of 0 s1 "Inl e"] assms disp Inl show ?thesis by (simp add: respond_def)
  next
    case (Inr resp)
    show ?thesis
    proof (cases resp)
      case (Complete x)
      with deliver_trace[OF d, of 0 s1 "Inr x"] assms disp Inr show ?thesis by (simp add: respond_def)
    next
      case (InputRequired ps)
      obtain q s2 where ap: "admit_pause svc ps s1 = (q, s2)" by force
      from late_okD[OF admit_pause_late this] obtain n where
        n: "core s2 = core s1" "steps is_gate_effect n s1 s2" "settled q n" by blast
      show ?thesis
      proof (cases q)
        case (Inl e)
        then have "settled (Inl e :: invocation_error + tool_result) n" using n(3) by simp
        with deliver_trace[OF d n(2,1), of "Inl e"] assms disp Inr InputRequired ap Inl show ?thesis
          by (simp add: respond_def)
      next
        case (Inr ps')
        define s3 where "s3 = emit (Entered RecordOutcome) s2"
        have res: "r = Inr (PauseRelayed ps')" "s' = record_pause_relay svc s3"
          using assms disp \<open>d = Inr resp\<close> InputRequired ap Inr by (auto simp: respond_def s3_def)
        have row: "steps is_gate_effect 0 s3 s'"
          unfolding res(2) record_pause_relay_def by (rule row_steps_after) auto
        have "n = 0" using n(3) Inr by simp
        note st = steps_then_stage[OF n(2), of RecordOutcome, folded s3_def]
        show ?thesis
          by (rule response_traceI[OF d steps_trans[OF st(1) steps_no_dispatch[OF row]], of r "[RecordOutcome]"])
             (use res row st steps_stages[OF row] n \<open>n = 0\<close> in \<open>auto simp: record_pause_relay_def s3_def\<close>)
      qed
    next
      case (TaskCreated t)
      have res: "r = Inl unsupported_task" "s' = record_outcome svc (Inl unsupported_task) s1"
        using assms disp Inr TaskCreated by (auto simp: respond_def)
      have "settled (Inl unsupported_task :: invocation_error + tool_result) 0"
        by (simp add: unsupported_task_def)
      from record_outcome_steps[OF this, of s1 svc] obtain n where
        n: "steps is_gate_effect n s1 s'" "owed (Inl unsupported_task :: invocation_error + tool_result) n"
        using res by auto
      have o: "owed r n" using n(2) res(1) by (simp add: unsupported_task_def)
      show ?thesis
        by (rule response_traceI[OF d steps_no_dispatch[OF n(1)], of r "[]"])
           (use res steps_stages[OF n(1)] o in auto)
    next
      case OtherResponse
      with assms disp Inr obtain e where del: "deliver svc (Inl (Upstream e)) s1 = (r, s')"
        by (auto simp: respond_def)
      show ?thesis by (rule deliver_trace[OF d _ _ _ del, of 0]) auto
    qed
  qed
qed

text \<open>The three shapes of a call: stopped by a gate, stopped between the gates and the dispatch, and
  dispatched.\<close>

definition call_trace ::
  "'w service \<Rightarrow> 'w request \<Rightarrow> invocation_error + invocation_response \<Rightarrow> 'w call \<Rightarrow> bool" where
  "call_trace svc rq r s \<longleftrightarrow>
     (isl r \<and> owed r (failures (trail s)) \<and> list_all (\<lambda>x. \<not> is_dispatch x) (trail s) \<and>
        (\<exists>k. stages_of (trail s) = take k all_stages)) \<or>
     (isl r \<and> (admission_errors_ok rq \<longrightarrow> owed r (failures (trail s))) \<and>
        list_all (\<lambda>x. \<not> is_dispatch x) (trail s) \<and>
        (\<exists>k. stages_of (trail s) = take k all_stages @ [RecordOutcome])) \<or>
     (\<exists>s0 post. response_trace svc s0 r s post \<and> cleared svc s0 (set (trail s0)) \<and>
        list_all (\<lambda>x. \<not> is_dispatch x) (trail s0) \<and> failures (trail s0) = 0 \<and>
        stages_of (trail s0) = take 11 all_stages)"

lemma fail_with_outcome_trace:
  assumes "fail_with_outcome svc e s = (r, s')"
    and "stages_of (trail s) = take k all_stages" "list_all (\<lambda>x. \<not> is_dispatch x) (trail s)"
    and "admission_errors_ok rq \<longrightarrow> settled (Inl e :: invocation_error + tool_result) (failures (trail s))"
  shows "call_trace svc rq r s'"
proof -
  have res: "r = Inl e" "s' = record_outcome svc (Inl e) (emit (Entered RecordOutcome) s)"
    using assms(1) by (auto simp: fail_with_outcome_def)
  obtain n where n: "settled (Inl e :: invocation_error + tool_result) n" using settled_exists by blast
  from record_outcome_steps[OF this, of "emit (Entered RecordOutcome) s" svc] obtain j where
    j: "steps is_gate_effect j (emit (Entered RecordOutcome) s) s'"
      "owed (Inl e :: invocation_error + tool_result) (n + j)"
    using res by auto
  from stepsE[OF j(1)] obtain t where t: "trail s' = (trail s @ [Entered RecordOutcome]) @ t"
    "list_all is_gate_effect t" "failures t = j" by auto
  have "failures (trail s') = failures (trail s) + j" using t by (simp add: is_failure_def)
  moreover have "owed r (n + j)" using j(2) res(1) by (cases e) auto
  moreover have "admission_errors_ok rq \<Longrightarrow> failures (trail s) = n" using assms(4) n by simp
  moreover have "stages_of (trail s') = take k all_stages @ [RecordOutcome]"
    using steps_stages[OF j(1)] assms(2) by (simp add: stage_of_def)
  moreover have "list_all (\<lambda>x. \<not> is_dispatch x) (trail s')"
    using t assms(3) by (auto simp: list_all_iff is_gate_effect_def is_dispatch_def)
  ultimately show ?thesis using res unfolding call_trace_def by auto
qed

lemma admit_dispatch_quiet:
  "admit_dispatch svc rq s = (r, s') \<Longrightarrow> trail s' = trail s \<and> core s' = core s \<and>
     (admission_errors_ok rq \<longrightarrow> settled r 0)"
  by (auto simp: admit_dispatch_def admission_errors_ok_def split: option.splits prod.splits)

lemma run_call_trace:
  assumes "run_call svc rq s = (r, s')" "trail s = []" shows "call_trace svc rq r s'"
proof -
  obtain g s1 where g: "gates (admission_gates svc rq) s = (g, s1)" by force
  from admission_trace[OF g] assms(2) obtain n k where
    n: "steps (\<lambda>x. \<not> is_dispatch x) n s s1" "owed g n" "stages_of (trail s1) = take k (take 9 all_stages)"
      "\<not> isl g \<longrightarrow> stages_of (trail s1) = take 9 all_stages"
    by auto
  then have t1: "list_all (\<lambda>x. \<not> is_dispatch x) (trail s1)" "failures (trail s1) = n"
    using assms(2) by (auto simp: steps_def)
  show ?thesis
  proof (cases g)
    case (Inl e)
    with assms(1) g have "r = Inl e" "s' = s1" by (auto simp: run_call_def)
    moreover have "owed r n" using n(2) Inl \<open>r = Inl e\<close> by (cases e) auto
    moreover have "stages_of (trail s1) = take (min k 9) all_stages" using n(3) by (simp add: min.commute)
    ultimately show ?thesis using t1 unfolding call_trace_def by auto
  next
    case (Inr u)
    then have f0: "failures (trail s1) = 0" and st1: "stages_of (trail s1) = take 9 all_stages"
      using n t1 by auto
    have clr: "cleared svc s1 (set (trail s1))" using gates_cleared g Inr by (metis old.unit.exhaust)
    obtain a s2 where a: "admit_dispatch svc rq s1 = (a, s2)" by force
    note a1 = admit_dispatch_quiet[OF a]
    show ?thesis
    proof (cases a)
      case (Inl e)
      with assms(1) g Inr a have f: "fail_with_outcome svc e s2 = (r, s')" by (simp add: run_call_def)
      show ?thesis
        by (rule fail_with_outcome_trace[OF f, of 9]) (use a1 Inl st1 t1 f0 in auto)
    next
      case ok: (Inr u')
      obtain b s3 where b: "prepare_and_validate_file_inputs svc (emit (Entered PrepareFileInputs) s2) = (b, s3)"
        by force
      from late_okD[OF prepare_and_validate_file_inputs_late b] obtain k' where
        k': "core s3 = core s1" "steps is_gate_effect k' (emit (Entered PrepareFileInputs) s2) s3" "settled b k'"
        using a1 by auto
      from stepsE[OF k'(2)] obtain t where
        t: "trail s3 = (trail s1 @ [Entered PrepareFileInputs]) @ t" "list_all is_gate_effect t" "failures t = k'"
        using a1 by auto
      have t3: "list_all (\<lambda>x. \<not> is_dispatch x) (trail s3)" "failures (trail s3) = k'"
        using t t1(1) f0 by (auto simp: list_all_iff is_gate_effect_def is_dispatch_def is_failure_def)
      have st3: "stages_of (trail s3) = take 10 all_stages"
        using steps_stages[OF k'(2)] a1 st1 by (simp add: stage_of_def all_stages_def)
      show ?thesis
      proof (cases b)
        case (Inl e)
        with assms(1) g Inr a ok b have f: "fail_with_outcome svc e s3 = (r, s')" by (simp add: run_call_def)
        show ?thesis
          by (rule fail_with_outcome_trace[OF f st3 t3(1)]) (use k'(3) t3(2) Inl in simp)
      next
        case fin: (Inr u'')
        let ?s4 = "emit (Entered Dispatch) s3"
        from assms(1) g Inr a ok b fin have "respond svc ?s4 = (r, s')" by (simp add: run_call_def)
        from respond_trace[OF this] obtain post where post: "response_trace svc ?s4 r s' post" by blast
        have "cleared svc ?s4 (set (trail ?s4))"
          by (rule cleared_core[OF _ _ clr]) (use k'(1) t in auto)
        moreover have "stages_of (trail ?s4) = take 11 all_stages"
          using st3 by (simp add: stage_of_def all_stages_def)
        moreover have "failures (trail ?s4) = 0" "list_all (\<lambda>x. \<not> is_dispatch x) (trail ?s4)"
          using t3 k'(3) fin by (auto simp: is_failure_def is_dispatch_def)
        ultimately show ?thesis using post unfolding call_trace_def by blast
      qed
    qed
  qed
qed

lemma invoke_trace:
  assumes "invoke svc p iid rq w = (r, s)" shows "call_trace svc rq r s"
proof (cases "check_binding rq")
  case None
  with assms show ?thesis by (auto simp: invoke_def new_call_def intro: run_call_trace)
next
  case (Some e)
  then have "\<exists>m. e = InvalidArguments m"
    by (auto simp: check_binding_def split: option.splits prod.splits if_splits)
  with assms Some show ?thesis
    by (auto simp: invoke_def new_call_def call_trace_def intro: exI[of _ 0])
qed

section \<open>What a released response has passed\<close>














lemma core_contract: "core s' = core s \<Longrightarrow> contract_of svc s' = contract_of svc s"
  by (simp add: contract_of_def core_def tool_snapshot_def)

text \<open>A list has one split at its only element with a property.\<close>

lemma unique_split:
  assumes "xs @ x # ys = us @ v # vs" "\<forall>z\<in>set xs. \<not> P z" "\<forall>z\<in>set ys. \<not> P z" "P v"
  shows "us = xs \<and> v = x \<and> vs = ys"
  using assms
proof (induction xs arbitrary: us)
  case Nil
  then show ?case by (cases us) auto
next
  case (Cons a xs)
  then show ?case by (cases us) auto
qed

section \<open>The guarantees\<close>

text \<open>C1: A call reaches the upstream only when it is cleared, and at most once. At the moment of the
  dispatch the trail already shows a passing verdict of the policy decision point for an authenticated
  caller, the quota service has granted the call (or its store failed, which lets a call through), a
  grant bound to this caller, this tool, its reviewed behaviour and these arguments has been claimed
  whenever the policy or the classification asks for approval, and under the fail-closed posture the
  pre-call record of a side-effecting call is durable; the caller's profile admits the server and the
  tool. The contract sent along is the one the gates admitted.\<close>

theorem dispatch_only_when_cleared:
  assumes "invoke svc p iid rq w = (r, s)" and "trail s = pre @ Dispatched args k m # post"
  shows "cleared svc s (set pre) \<and> k = contract_of svc s \<and> \<not> (\<exists>x\<in>set (pre @ post). is_dispatch x)"
proof -
  have "\<exists>x\<in>set (trail s). is_dispatch x" using assms(2) by (auto simp: is_dispatch_def)
  with invoke_trace[OF assms(1)] obtain s0 post0 a m0 where
    c: "cleared svc s0 (set (trail s0))" "list_all (\<lambda>x. \<not> is_dispatch x) (trail s0)" and
    t: "trail s = trail s0 @ Dispatched a (contract_of svc s0) m0 # post0"
      "list_all (\<lambda>x. \<not> is_dispatch x) post0" "core s = core s0"
    unfolding call_trace_def response_trace_def by (auto simp: list_all_iff)
  have "pre = trail s0 \<and> Dispatched args k m = Dispatched a (contract_of svc s0) m0 \<and> post = post0"
    by (rule unique_split[where P = is_dispatch])
       (use t(1,2) c(2) assms(2) in \<open>auto simp: list_all_iff is_dispatch_def\<close>)
  with c t cleared_core[OF t(3) subset_refl c(1)] core_contract[OF t(3)] show ?thesis
    by (auto simp: list_all_iff)
qed

text \<open>C17: The stages a call enters follow the documented order of \<open>InvocationStage::ALL\<close>: a refused call
  enters a prefix of it, possibly followed by the outcome stage, and a call that returns a result has
  entered all fifteen stages, each once.\<close>

theorem stages_follow_documented_order:
  assumes "invoke svc p iid rq w = (r, s)"
  shows "(\<exists>n. stages_of (trail s) = take n all_stages \<or> stages_of (trail s) = take n all_stages @ [RecordOutcome]) \<and>
         (\<forall>x. r = Inr (Unary x) \<longrightarrow> stages_of (trail s) = all_stages)"
proof -
  have order: "take 11 all_stages @ response_stages = take 14 all_stages"
    "take 11 all_stages @ response_stages @ [RecordOutcome] = all_stages" "take 15 all_stages = all_stages"
    by (simp_all add: all_stages_def response_stages_def)
  from invoke_trace[OF assms] consider "isl r" "\<exists>n. stages_of (trail s) = take n all_stages"
    | "isl r" "\<exists>n. stages_of (trail s) = take n all_stages @ [RecordOutcome]"
    | s0 post where "response_trace svc s0 r s post" "stages_of (trail s0) = take 11 all_stages"
    unfolding call_trace_def by blast
  then show ?thesis
  proof cases
    case 3
    then have st: "stages_of (trail s) = take 11 all_stages @ stages_of post"
      by (auto simp: response_trace_def stage_of_def)
    show ?thesis
    proof (cases r)
      case (Inl e)
      with 3 have "stages_of post \<in> {[], response_stages, response_stages @ [RecordOutcome]}"
        by (simp add: response_trace_def)
      with st order Inl show ?thesis by (metis append_Nil2 insert_iff singletonD sum.simps(4))
    next
      case (Inr x)
      with 3 st order show ?thesis
        by (cases x) (auto simp: response_trace_def intro: exI[of _ 15] exI[of _ 11])
    qed
  qed auto
qed



text \<open>C16: A sealed continuation is accepted for exactly the retry it was issued for. Opening an envelope
  succeeds if and only if it has not expired (30 minutes), the caller's subject, issuer and tenant are
  those it was sealed for, the server, tool, argument digest and admitted contract are those of the
  paused call, and the retry answers only keys the pause issued; then it yields the upstream's own state
  unchanged and, as keys under which a file may be delivered, exactly the elicitation keys. The
  hypothesis says that the authenticated box returns the claims that were sealed.\<close>

theorem continuation_opens_only_for_its_call:
  assumes "aead_open sealed = Some (seal_claims t p c requests upstream_state)"
  shows "open_continuation aead_open t' p' c' sealed answered =
     (if t + 30 * 60 < t' then Inl Unverifiable
      else if pr_sub p' = pr_sub p \<and> pr_issuer p' = pr_issuer p \<and> pr_tenant p' = pr_tenant p \<and> c' = c \<and>
              set answered \<subseteq> fst ` set (case requests of None \<Rightarrow> [] | Some rs \<Rightarrow> rs)
      then Inr (upstream_state,
                map fst (filter (\<lambda>(_, r). is_elicitation r) (case requests of None \<Rightarrow> [] | Some rs \<Rightarrow> rs)))
      else Inl NotForThisRequest)"
proof -
  have "bound_to p' c' (seal_claims t p c requests upstream_state) \<longleftrightarrow>
      pr_sub p' = pr_sub p \<and> pr_issuer p' = pr_issuer p \<and> pr_tenant p' = pr_tenant p \<and> c' = c"
    by (cases c; cases c') (auto simp: bound_to_def seal_claims_def)
  then show ?thesis
    using assms
    by (auto simp: open_continuation_def session_decrypt_def seal_claims_def continuation_ttl_seconds_def
        issued_keys_def split: option.splits)
qed

section \<open>A concrete call\<close>

text \<open>A fail-closed gateway with a quota service and a grant store, and a side-effecting catalog tool that
  needs approval, called by an API-key principal whose profile admits the server.\<close>

definition sample_facts :: tool_facts where
  "sample_facts =
     \<lparr>tf_server = ''mail'', tf_name = ''send'', tf_risk = High, tf_side_effects = True, tf_pii = False,
      tf_requires_approval = True, tf_requires_approval_known = True\<rparr>"

definition sample_schema :: json where
  "sample_schema = JObj [(''type'', JStr ''object'')]"

definition sample_snapshot :: snapshot where
  "sample_snapshot =
     \<lparr>sn_facts = sample_facts, sn_authority = Catalog 5 ''b1'', sn_description = None,
      sn_input_schema = Some sample_schema, sn_input_schema_hash = Some ''i'', sn_input_schema_unavailable = False,
      sn_output_schema = Some sample_schema, sn_output_schema_hash = Some ''o'', sn_tool_annotations = None,
      sn_action_metadata = None, sn_annotation_claims_enforced = False, sn_anticipated_sensitive_output = False,
      sn_output_validator = None, sn_discriminator = None, sn_operations = []\<rparr>"

definition sample_result :: tool_result where
  "sample_result =
     \<lparr>r_content = [], r_structured = Some (JObj [(''ok'', JBool True)]), r_is_error = None, r_meta = None\<rparr>"

definition sample_service :: "unit service" where
  "sample_service =
     \<lparr>sv_resolve = (\<lambda>_ _ _ _. Ready sample_snapshot),
      sv_may_discover = (\<lambda>_ _ _. True),
      sv_authorize = (\<lambda>_ w. (w, NeedsApproval ''approval'' [''p1''])),
      sv_quota = Some (\<lambda>_ _ w. (w, Inr ())),
      sv_claim_grant = Some (\<lambda>_ w. (w, Inr (Some ''approver''))),
      sv_retain_request = None, sv_notifier = False, sv_audit_mode = FailClosed,
      sv_record_required = (\<lambda>_ w. (w, True)), sv_record_chained = (\<lambda>_ w. w),
      sv_call_tool = (\<lambda>_ _ _ _ _ _ w. (w, Inr (Complete sample_result))),
      sv_inspectors = [], sv_file_input = None, sv_file_output = None, sv_sealer = None,
      sv_argument_hash = (\<lambda>_. ''a''), sv_schema_hash = (\<lambda>_. ''h''), sv_sha256 = (\<lambda>x. x),
      sv_compile = (\<lambda>_. Some (\<lambda>_. None)), sv_object_root = (\<lambda>_. True), sv_root_properties = (\<lambda>_. []),
      sv_clamp_count = (\<lambda>_ a. (a, None)), sv_error_text = (\<lambda>_. ''error''), sv_contract_text = (\<lambda>_. ''c''),
      sv_pause_value = (\<lambda>_. None), sv_structured_result = (\<lambda>_. sample_result),
      sv_missing_capability_code = 0, sv_tasks_extension = ''tasks'',
      sv_fresh = (\<lambda>w. ((1, 0), w)), sv_trace_id = (\<lambda>w. (''t'', w)), sv_elapsed_ms = (\<lambda>_ _. 3)\<rparr>"

definition sample_caller :: principal where
  "sample_caller =
     \<lparr>pr_sub = ''alice'', pr_email = None, pr_groups = [], pr_issuer = ''idp'', pr_scopes = [],
      pr_tenant = ''t1'', pr_auth_method = ApiKey, pr_scim = None, pr_roles = [],
      pr_restrictions = Some \<lparr>profile_id = ''1'', profile_name = ''mailers'',
        allowed_servers = Some [''mail''], allowed_tools = None\<rparr>\<rparr>"

definition sample_request :: "unit request" where
  "sample_request =
     \<lparr>rq_server = ''mail'', rq_tool = ''send'', rq_arguments = Some [(''to'', JStr ''bob@example.com'')],
      rq_mode = Unrestricted, rq_expected_contract = None, rq_approval_binding = None, rq_hierarchy = None,
      rq_acting_agent = None, rq_input_responses = None, rq_request_state = None, rq_capabilities = None,
      rq_dispatch_admission = None\<rparr>"

definition sample_call :: "(invocation_error + invocation_response) \<times> unit call" where
  "sample_call = invoke sample_service (Some sample_caller) 7 sample_request ()"

definition has_result :: "invocation_error + invocation_response \<Rightarrow> bool" where
  "has_result r \<longleftrightarrow> (case r of Inr (Unary _) \<Rightarrow> True | _ \<Rightarrow> False)"

lemma sample_call_facts: "case sample_call of (r, s) \<Rightarrow> has_result r \<and> list_ex is_dispatch (trail s)"
  by code_simp

lemma sample_call_split:
  obtains x s pre args k m post where
    "invoke sample_service (Some sample_caller) 7 sample_request () = (Inr (Unary x), s)"
    "trail s = pre @ Dispatched args k m # post"
proof -
  obtain r s where c: "sample_call = (r, s)" by force
  have f: "has_result r" "list_ex is_dispatch (trail s)"
    using sample_call_facts[unfolded c] by simp_all
  from f(1) obtain x where "r = Inr (Unary x)"
    by (auto simp: has_result_def split: sum.splits invocation_response.splits)
  moreover from f(2) obtain e where e: "e \<in> set (trail s)" "is_dispatch e" by (auto simp: list_ex_iff)
  from split_list[OF e(1)] obtain pre post where t: "trail s = pre @ e # post" by blast
  moreover from e(2) obtain args k m where "e = Dispatched args k m"
    by (auto simp: is_dispatch_def split: effect.splits)
  ultimately show thesis using that c by (auto simp: sample_call_def)
qed

theorem dispatch_only_when_cleared_witness:
  "\<exists>r s pre args k m post.
     invoke sample_service (Some sample_caller) 7 sample_request () = (r, s) \<and>
     trail s = pre @ Dispatched args k m # post \<and> cleared sample_service s (set pre)"
  by (rule sample_call_split) (metis dispatch_only_when_cleared)

theorem stages_follow_documented_order_witness:
  "\<exists>x s. invoke sample_service (Some sample_caller) 7 sample_request () = (Inr (Unary x), s) \<and>
     stages_of (trail s) = all_stages"
  by (rule sample_call_split) (metis stages_follow_documented_order)





theorem continuation_opens_only_for_its_call_witness:
  "open_continuation
     (\<lambda>_. Some (seal_claims 0 sample_caller \<lparr>id_server = ''s'', id_tool = ''t'', id_digest = ''d'', id_contract = ''c''\<rparr>
                  (Some [(''k'', Elicitation JNull)]) (Some ''state'')))
     60 sample_caller \<lparr>id_server = ''s'', id_tool = ''t'', id_digest = ''d'', id_contract = ''c''\<rparr> ''box'' [''k''] =
   Inr (Some ''state'', [''k''])"
  using continuation_opens_only_for_its_call
    [of "\<lambda>_. Some (seal_claims 0 sample_caller
           \<lparr>id_server = ''s'', id_tool = ''t'', id_digest = ''d'', id_contract = ''c''\<rparr>
           (Some [(''k'', Elicitation JNull)]) (Some ''state''))" "''box''" 0 sample_caller
       "\<lparr>id_server = ''s'', id_tool = ''t'', id_digest = ''d'', id_contract = ''c''\<rparr>"
       "Some [(''k'', Elicitation JNull)]" "Some ''state''" 60 sample_caller
       "\<lparr>id_server = ''s'', id_tool = ''t'', id_digest = ''d'', id_contract = ''c''\<rparr>" "[''k'']"]
  by (simp add: is_elicitation_def)

end
