(* ===== verification/Invocation_Frame.thy ===== *)
theory Invocation_Frame
  imports Invocation_Effects
begin

text \<open>
  What an invocation can do to the world outside the call. Every stage moves the world only through the
  functions of the service record, so a relation between the world and the trail that each of those
  functions keeps is kept by a whole call. The interface is the locale \<open>call_frame\<close>, without the quota
  service, and its extension \<open>call_invariant\<close>; \<open>Gateway\<close> interprets both on the wired gateway.
\<close>

section \<open>Moves of the world\<close>

text \<open>The services that are neither the evidence recorder nor the quota service.\<close>

inductive service_move :: "'w service \<Rightarrow> 'w request \<Rightarrow> 'w \<Rightarrow> 'w \<Rightarrow> bool" for svc rq where
  by_fresh: "sv_fresh svc w = (x, w') \<Longrightarrow> service_move svc rq w w'"
| by_trace_id: "sv_trace_id svc w = (y, w') \<Longrightarrow> service_move svc rq w w'"
| by_policy: "sv_authorize svc f w = (w', v) \<Longrightarrow> service_move svc rq w w'"
| by_grant: "sv_claim_grant svc = Some claim \<Longrightarrow> claim gl w = (w', a) \<Longrightarrow> service_move svc rq w w'"
| by_retain: "sv_retain_request svc = Some retain \<Longrightarrow> retain ar w = (w', b) \<Longrightarrow> service_move svc rq w w'"
| by_upstream: "sv_call_tool svc sv tn args p k m w = (w', res) \<Longrightarrow> service_move svc rq w w'"
| by_files: "sv_file_input svc = Some fi \<Longrightarrow> fi_prepare fi schema args w = (w', pf) \<Longrightarrow> service_move svc rq w w'"
| by_answers: "sv_file_input svc = Some fi \<Longrightarrow> fi_prepare_continuation fi rs ks w = (w', pc) \<Longrightarrow>
    service_move svc rq w w'"
| by_outputs: "sv_file_output svc = Some fo \<Longrightarrow> fo_prepare fo r w = (w', po) \<Longrightarrow> service_move svc rq w w'"
| by_publish: "sv_file_output svc = Some fo \<Longrightarrow> fo_publish fo batch w = (w', e) \<Longrightarrow> service_move svc rq w w'"
| by_discard: "sv_file_output svc = Some fo \<Longrightarrow> fo_discard fo batch w = w' \<Longrightarrow> service_move svc rq w w'"
| by_admission: "rq_dispatch_admission rq = Some admit \<Longrightarrow> admit se k w = (w', o') \<Longrightarrow> service_move svc rq w w'"

inductive_cases service_moveE: "service_move svc rq w w'"

text \<open>The trail entries that come from those services, and from the pipeline itself.\<close>

fun neutral :: "effect \<Rightarrow> bool" where
  "neutral (Recorded _) \<longleftrightarrow> False"
| "neutral (RequiredRecord _ _) \<longleftrightarrow> False"
| "neutral (QuotaAnswer _ _) \<longleftrightarrow> False"
| "neutral _ \<longleftrightarrow> True"

text \<open>Who calls what: fixed when the call is made.\<close>

type_synonym caller_and_tool = "principal option \<times> bytes \<times> bytes"

definition who :: "'w call \<Rightarrow> caller_and_tool" where
  "who s = (c_principal s, c_server s, c_tool s)"

definition kept :: "(caller_and_tool \<Rightarrow> 'w \<Rightarrow> effect list \<Rightarrow> bool) \<Rightarrow> 'w call \<Rightarrow> bool" where
  "kept J s \<longleftrightarrow> J (who s) (world s) (trail s)"

lemma emit_frame [simp]: "world (emit x s) = world s" "who (emit x s) = who s" "who (s\<lparr>world := w\<rparr>) = who s"
  by (simp_all add: emit_def who_def)

lemma kept_updates [simp]:
  "kept J (s\<lparr>c_arguments := a\<rparr>) = kept J s"
  "kept J (s\<lparr>c_snapshot := sn\<rparr>) = kept J s"
  "kept J (s\<lparr>c_pip_facts := pf\<rparr>) = kept J s"
  "kept J (s\<lparr>c_compiled_input := v\<rparr>) = kept J s"
  "kept J (s\<lparr>c_request_state := rs\<rparr>) = kept J s"
  "kept J (s\<lparr>c_deliverable_keys := dk\<rparr>) = kept J s"
  "kept J (s\<lparr>c_input_responses := ir\<rparr>) = kept J s"
  "kept J (s\<lparr>c_capabilities := cp\<rparr>) = kept J s"
  "kept J (s\<lparr>c_digest := dg\<rparr>) = kept J s"
  "kept J (s\<lparr>c_authz_policy_ids := ids\<rparr>) = kept J s"
  "kept J (s\<lparr>c_cedar_approval_policies := cpol\<rparr>) = kept J s"
  "kept J (s\<lparr>c_policy_gated_grant_consumed := b\<rparr>) = kept J s"
  "kept J (s\<lparr>c_pending_redactions := pr\<rparr>) = kept J s"
  "kept J (s\<lparr>c_count_adjustment := ca\<rparr>) = kept J s"
  "kept J (s\<lparr>c_latency_ms := ms\<rparr>) = kept J s"
  "kept J (s\<lparr>c_operation := op'\<rparr>) = kept J s"
  "kept J (s\<lparr>c_operation_classified := oc\<rparr>) = kept J s"
  "kept J (s\<lparr>c_effective_facts := ef\<rparr>) = kept J s"
  by (simp_all add: kept_def who_def)

section \<open>Stages keep what the services keep\<close>

locale call_frame =
  fixes svc :: "'w service" and rq :: "'w request" and J :: "caller_and_tool \<Rightarrow> 'w \<Rightarrow> effect list \<Rightarrow> bool"
  assumes move: "service_move svc rq w w' \<Longrightarrow> J i w t \<Longrightarrow> J i w' t"
    and neutral: "neutral x \<Longrightarrow> J i w t \<Longrightarrow> J i w (t @ [x])"
    and chained: "J i w t \<Longrightarrow> J i (sv_record_chained svc e w) (t @ [Recorded e])"
    and required: "sv_record_required svc e w = (w', b) \<Longrightarrow> J i w t \<Longrightarrow> J i w' (t @ [RequiredRecord e b])"
begin

lemma kept_emit [simp, intro!]: "neutral x \<Longrightarrow> kept J s \<Longrightarrow> kept J (emit x s)"
  by (simp add: kept_def neutral)

lemma kept_move: "service_move svc rq (world s) w' \<Longrightarrow> kept J s \<Longrightarrow> kept J (s\<lparr>world := w'\<rparr>)"
  using move by (simp add: kept_def)

lemmas kept_moves = kept_move[OF by_fresh] kept_move[OF by_trace_id] kept_move[OF by_policy]
  kept_move[OF by_grant] kept_move[OF by_retain] kept_move[OF by_upstream] kept_move[OF by_files]
  kept_move[OF by_answers] kept_move[OF by_outputs] kept_move[OF by_publish] kept_move[OF by_discard]
  kept_move[OF by_admission]

lemma kept_row [simp, intro!]: "kept J s \<Longrightarrow> kept J (record_row svc oc build s)"
  using move[OF by_fresh[of svc "world s"], where i = "who s"] chained[where i = "who s"]
  by (auto simp: kept_def record_row_def Let_def split: prod.splits)

lemma kept_deny: "deny svc why err s = (r, s') \<Longrightarrow> kept J s \<Longrightarrow> kept J s'"
  by (auto simp: deny_def)

lemma kept_resolve_tool: "resolve_tool svc s = (r, s') \<Longrightarrow> kept J s \<Longrightarrow> kept J s'"
  by (auto simp: resolve_tool_def admit_snapshot_def refusal_error_def catalog_unavailable_error_def Let_def
      intro: kept_moves split: resolved_tool.splits sum.splits option.splits prod.splits if_splits)

lemma kept_contract: "check_expected_contract svc expected s = (r, s') \<Longrightarrow> kept J s \<Longrightarrow> kept J s'"
  by (auto simp: check_expected_contract_def Let_def split: option.splits if_splits)

lemma kept_mode: "check_mode svc mode s = (r, s') \<Longrightarrow> kept J s \<Longrightarrow> kept J s'"
  by (auto simp: check_mode_def Let_def split: option.splits if_splits invocation_error.splits)

lemma kept_validate_input: "validate_input svc s = (r, s') \<Longrightarrow> kept J s \<Longrightarrow> kept J s'"
  by (auto simp: validate_input_def Let_def elim!: kept_deny
      split: option.splits if_splits resolution_authority.splits)

lemma kept_extract_facts: "extract_facts svc s = (r, s') \<Longrightarrow> kept J s \<Longrightarrow> kept J s'"
  by (auto simp: extract_facts_def split: option.splits)

lemma kept_authorize: "authorize svc s = (r, s') \<Longrightarrow> kept J s \<Longrightarrow> kept J s'"
  by (auto simp: authorize_def Let_def intro: kept_moves split: option.splits prod.splits authz_verdict.splits)

lemma kept_profile: "check_profile_restrictions svc s = (r, s') \<Longrightarrow> kept J s \<Longrightarrow> kept J s'"
  by (auto simp: check_profile_restrictions_def Let_def elim!: kept_deny split: option.splits prod.splits)

lemma kept_output_preparation: "prepare_output_validation svc s = (r, s') \<Longrightarrow> kept J s \<Longrightarrow> kept J s'"
  by (auto simp: prepare_output_validation_def elim!: kept_deny
      split: option.splits resolution_authority.splits)

lemma kept_continuation:
  "refuse_continuation_inputs_when_approval_gated s = (r, s') \<Longrightarrow> kept J s \<Longrightarrow> kept J s'"
  "verify_continuation svc s = (r, s') \<Longrightarrow> kept J s \<Longrightarrow> kept J s'"
  "prepare_task_origin svc s = (r, s') \<Longrightarrow> kept J s \<Longrightarrow> kept J s'"
  by (auto simp: refuse_continuation_inputs_when_approval_gated_def verify_continuation_def
      prepare_task_origin_def Let_def split: if_splits option.splits sum.splits)

lemma kept_file_admission: "admit_file_inputs svc s = (r, s') \<Longrightarrow> kept J s \<Longrightarrow> kept J s'"
  by (auto simp: admit_file_inputs_def Let_def elim!: kept_deny split: option.splits if_splits)

lemma kept_retain: "kept J s \<Longrightarrow> kept J (notify_approver svc (retain_request svc p tid behavior s))"
  by (auto simp: notify_approver_def retain_request_def Let_def split: option.splits
      intro!: kept_emit intro: kept_moves prod.collapse[symmetric])

lemma kept_claim:
  "sv_claim_grant svc = Some claim \<Longrightarrow> claim_approval svc claim p tid behavior s = (r, s') \<Longrightarrow>
   kept J s \<Longrightarrow> kept J s'"
  by (auto simp: claim_approval_def Let_def intro!: kept_retain kept_emit intro: kept_moves
      split: prod.splits sum.splits option.splits)

lemma kept_approval_inner: "check_approval_inner svc s = (r, s') \<Longrightarrow> kept J s \<Longrightarrow> kept J s'"
  by (auto simp: check_approval_inner_def Let_def elim: kept_claim
      split: resolution_authority.splits bool.splits option.splits if_splits)

lemma kept_approval: "check_approval svc s = (r, s') \<Longrightarrow> kept J s \<Longrightarrow> kept J s'"
  by (auto simp: check_approval_def dest: kept_approval_inner
      split: prod.splits sum.splits invocation_error.splits)

lemma kept_pre_call: "record_pre_call svc s = (r, s') \<Longrightarrow> kept J s \<Longrightarrow> kept J s'"
  using move[OF by_fresh[of svc "world s"], where i = "who s"] required[where i = "who s"]
  by (auto simp: record_pre_call_def kept_def Let_def split: prod.splits if_splits)

lemma kept_file_inputs: "prepare_and_validate_file_inputs svc s = (r, s') \<Longrightarrow> kept J s \<Longrightarrow> kept J s'"
proof -
  have c: "kept J s'" if "prepare_continuation_files fi s = (r, s')" "kept J s" "sv_file_input svc = Some fi"
    for fi s and r :: "invocation_error + unit" and s'
    using that by (auto simp: prepare_continuation_files_def intro: kept_moves
        split: option.splits prod.splits sum.splits if_splits)
  have e: "kept J (emit FilesPrepared (s\<lparr>world := w'\<rparr>))"
    if "sv_file_input svc = Some fi" "fi_prepare fi schema args (world s) = (w', x)" "kept J s"
    for fi schema args x w'
    using that by (auto intro!: kept_emit intro: kept_moves)
  assume a: "prepare_and_validate_file_inputs svc s = (r, s')" and k: "kept J s"
  show "kept J s'"
  proof (cases "sv_file_input svc")
    case (Some fi)
    obtain w' x where x: "fi_prepare fi (sn_input_schema (tool_snapshot s)) (c_arguments s) (world s) = (w', x)"
      by force
    note k1 = e[OF Some x k]
    show ?thesis
    proof (cases x)
      case (Inr y)
      obtain args rewritten where y: "y = (args, rewritten)" by force
      let ?s1 = "emit FilesPrepared (s\<lparr>world := w', c_arguments := args\<rparr>)"
      have k2: "kept J ?s1" using k1 by (simp add: kept_def who_def emit_def)
      obtain r2 s2 where v: "(if rewritten then validate_input svc ?s1 else (Inr (), ?s1)) = (r2, s2)" by force
      have k3: "kept J s2" using v k2 kept_validate_input by (auto split: if_splits)
      then show ?thesis using a Some x Inr y v c[OF _ _ Some]
        by (auto simp: prepare_and_validate_file_inputs_def Let_def split: sum.splits)
    qed (use a Some x k1 in \<open>auto simp: prepare_and_validate_file_inputs_def\<close>)
  qed (use a k in \<open>auto simp: prepare_and_validate_file_inputs_def\<close>)
qed

lemma kept_dispatch: "dispatch svc s = (r, s') \<Longrightarrow> kept J s \<Longrightarrow> kept J s'"
proof -
  assume a: "dispatch svc s = (r, s')" and k: "kept J s"
  have "who s' = who s \<and> (\<exists>x. neutral x \<and> trail s' = trail s @ [x]) \<and> service_move svc rq (world s) (world s')"
    using a by (auto simp: dispatch_def who_def emit_def Let_def intro: by_upstream split: prod.splits)
  then obtain x where x: "who s' = who s" "neutral x" "trail s' = trail s @ [x]"
    "service_move svc rq (world s) (world s')" by blast
  from k have "J (who s) (world s') (trail s @ [x])"
    unfolding kept_def by (intro neutral[OF x(2)] move[OF x(4)])
  then show "kept J s'" by (simp add: kept_def x(1,3))
qed

end

section \<open>Responses and whole calls\<close>

definition before_quota :: "'w service \<Rightarrow> 'w request \<Rightarrow> ('w, unit) stage list" where
  "before_quota svc rq = take 19 (admission_gates svc rq)"

definition after_quota :: "'w service \<Rightarrow> ('w, unit) stage list" where
  "after_quota svc =
     [enter_stage CheckApproval, check_approval svc, enter_stage RecordPreCall, record_pre_call svc]"

lemma admission_gates_split: "admission_gates svc rq = before_quota svc rq @ check_quota svc # after_quota svc"
  by (simp add: admission_gates_def before_quota_def after_quota_def)

lemma gates_append:
  "gates (gs @ hs) s = (case gates gs s of (Inl e, s') \<Rightarrow> (Inl e, s') | (Inr _, s') \<Rightarrow> gates hs s')"
  by (induction gs arbitrary: s) (auto split: prod.splits sum.splits)

lemma gates_kept:
  assumes "\<And>g s r s'. g \<in> set gs \<Longrightarrow> g s = (r, s') \<Longrightarrow> kept J s \<Longrightarrow> kept J s'"
    and "gates gs s = (r, s')" and "kept J s"
  shows "kept J s'"
  using assms
proof (induction gs arbitrary: s)
  case (Cons g gs)
  obtain r1 s1 where g: "g s = (r1, s1)" by force
  then have "kept J s1" using Cons.prems by (metis list.set_intros(1))
  with Cons g show ?case by (cases r1) (auto, metis)
qed simp

context call_frame
begin

lemma kept_before_quota: "gates (before_quota svc rq) s = (r, s') \<Longrightarrow> kept J s \<Longrightarrow> kept J s'"
proof (rule gates_kept[of "before_quota svc rq"])
  fix g s r s'
  assume "g \<in> set (before_quota svc rq)" "g s = (r, s')" "kept J s"
  then show "kept J s'"
    by (auto simp: before_quota_def admission_gates_def enter_stage_def dest: kept_resolve_tool kept_contract
        kept_mode kept_validate_input kept_extract_facts kept_authorize kept_profile kept_output_preparation
        kept_continuation kept_file_admission)
qed

lemma kept_after_quota:
  assumes "gates (after_quota svc) s = (r, s')" "kept J (emit (Entered CheckApproval) s)"
  shows "kept J s'"
proof (rule gates_kept[of "tl (after_quota svc)"])
  show "gates (tl (after_quota svc)) (emit (Entered CheckApproval) s) = (r, s')"
    using assms(1) by (simp add: after_quota_def enter_stage_def)
qed (use assms(2) in \<open>auto simp: after_quota_def enter_stage_def dest: kept_approval kept_pre_call\<close>)

lemma kept_block: "block_response svc name why s = (r, s') \<Longrightarrow> kept J s \<Longrightarrow> kept J s'"
  by (auto simp: block_response_def elim: kept_deny)

lemma kept_trust: "enforce_trust svc x b s = (r, s') \<Longrightarrow> kept J s \<Longrightarrow> kept J s'"
  by (auto simp: enforce_trust_def elim: kept_block split: sum.splits if_splits)

lemma kept_inspectors: "run_inspectors svc is x s = (r, s') \<Longrightarrow> kept J s \<Longrightarrow> kept J s'"
  by (induction "is" arbitrary: x s)
     (auto elim: kept_block split: inspection_decision.splits)

lemma kept_scan: "scan_pause svc is x s = (r, s') \<Longrightarrow> kept J s \<Longrightarrow> kept J s'"
  by (induction "is" arbitrary: s)
     (auto elim: kept_block split: inspection_decision.splits)

lemma kept_inspect_response: "inspect_response svc x s = (r, s') \<Longrightarrow> kept J s \<Longrightarrow> kept J s'"
  by (auto simp: inspect_response_def dest: kept_trust kept_inspectors
      split: sum.splits if_splits prod.splits)

lemma kept_inspect_pause: "inspect_pause svc ps s = (r, s') \<Longrightarrow> kept J s \<Longrightarrow> kept J s'"
  by (auto simp: inspect_pause_def Let_def dest: kept_trust kept_scan
      split: sum.splits if_splits prod.splits option.splits)

lemma kept_seal: "seal_pause_state svc ps s = (r, s') \<Longrightarrow> kept J s \<Longrightarrow> kept J s'"
  by (auto simp: seal_pause_state_def split: option.splits)

lemma kept_admit_pause: "admit_pause svc ps s = (r, s') \<Longrightarrow> kept J s \<Longrightarrow> kept J s'"
  unfolding admit_pause_def
  by (auto dest: kept_inspect_pause kept_seal split: if_splits option.splits prod.splits sum.splits)

lemma kept_validate_output: "validate_output svc x s = (r, s') \<Longrightarrow> kept J s \<Longrightarrow> kept J s'"
  by (auto simp: validate_output_def elim!: kept_deny split: sum.splits option.splits)

lemma kept_discard [intro!]: "kept J s \<Longrightarrow> kept J (discard_batch svc batch s)"
  by (auto simp: discard_batch_def intro: kept_moves split: option.splits)

lemma kept_publish: "publish_batch svc batch x s = (r, s') \<Longrightarrow> kept J s \<Longrightarrow> kept J s'"
  by (auto simp: publish_batch_def intro: kept_moves split: option.splits prod.splits)

lemma kept_file_outputs: "prepare_file_outputs svc x s = (r, batch, s') \<Longrightarrow> kept J s \<Longrightarrow> kept J s'"
  by (auto simp: prepare_file_outputs_def intro: kept_moves split: option.splits prod.splits sum.splits)

lemma kept_outputs: "prepare_files_and_validate_output svc x s = (r, s') \<Longrightarrow> kept J s \<Longrightarrow> kept J s'"
  by (auto simp: prepare_files_and_validate_output_def
      dest!: kept_file_outputs kept_validate_output kept_publish split: prod.splits sum.splits)

lemma kept_flush: "kept J s \<Longrightarrow> kept J (flush_pending_redactions svc s)"
proof -
  have "kept J s \<Longrightarrow> kept J (flush_redactions svc rs s)" for rs s
    by (induction rs arbitrary: s) auto
  then show "kept J s \<Longrightarrow> kept J (flush_pending_redactions svc s)" by (simp add: flush_pending_redactions_def)
qed

lemma kept_outcome [intro!]: "kept J s \<Longrightarrow> kept J (record_outcome svc x s)"
  unfolding record_outcome_def by (auto simp: Let_def split: sum.splits invocation_error.splits)

lemma kept_deliver: "deliver svc x s = (r, s') \<Longrightarrow> kept J s \<Longrightarrow> kept J s'"
  by (auto simp: deliver_def attach_count_def Let_def dest!: kept_inspect_response kept_outputs
      intro: kept_flush split: prod.splits sum.splits option.splits)

lemma kept_respond: "respond svc s = (r, s') \<Longrightarrow> kept J s \<Longrightarrow> kept J s'"
  by (auto simp: respond_def record_pause_relay_def dest!: kept_dispatch kept_admit_pause kept_deliver
      split: prod.splits sum.splits tool_response.splits)

lemma kept_run_call:
  assumes "run_call svc rq s = (r, s')" "gates (admission_gates svc rq) s = (r1, s1)" "kept J s1"
  shows "kept J s'"
proof -
  have "kept J s2" if "admit_dispatch svc rq s1 = (r2, s2)" for r2 s2
    using that assms(3)
    by (auto simp: admit_dispatch_def intro: kept_moves split: option.splits prod.splits)
  with assms show ?thesis
    by (auto simp: run_call_def fail_with_outcome_def dest!: kept_file_inputs kept_respond
        split: prod.splits sum.splits)
qed

end

text \<open>With a quota service that keeps the relation too.\<close>

locale call_invariant = call_frame +
  assumes quota: "sv_quota svc = Some check \<Longrightarrow> check ctx actions w = (w', a) \<Longrightarrow> J i w t \<Longrightarrow>
    J i w' (t @ [QuotaAnswer actions a])"
begin

lemma kept_check_quota: "check_quota svc s = (r, s') \<Longrightarrow> kept J s \<Longrightarrow> kept J s'"
proof -
  assume a: "check_quota svc s = (r, s')" and k: "kept J s"
  show "kept J s'"
  proof (cases "\<exists>check p. sv_quota svc = Some check \<and> c_principal s = Some p")
    case True
    then obtain check p where c: "sv_quota svc = Some check" "c_principal s = Some p" by blast
    obtain w' ans where q: "check (quota_context_of p s) (quota_actions (facts s)) (world s) = (w', ans)" by force
    let ?s1 = "emit (QuotaAnswer (quota_actions (facts s)) ans) (s\<lparr>world := w'\<rparr>)"
    have k1: "kept J ?s1" using quota[OF c(1) q] k by (simp add: kept_def)
    have "s' = ?s1 \<or> (\<exists>why err. deny svc why err ?s1 = (r, s'))"
      using a c q by (auto simp: check_quota_def Let_def split: sum.splits quota_error.splits)
    with k1 show ?thesis using kept_deny by blast
  qed (use a k in \<open>auto simp: check_quota_def split: option.splits\<close>)
qed

lemma kept_admission: "gates (admission_gates svc rq) s = (r, s') \<Longrightarrow> kept J s \<Longrightarrow> kept J s'"
  unfolding admission_gates_split gates_append
  by (auto dest!: kept_before_quota kept_check_quota intro: kept_after_quota split: prod.splits sum.splits)

lemma invoke_kept:
  assumes "invoke svc p iid rq w = (r, s)" "J (p, rq_server rq, rq_tool rq) w []"
  shows "J (who s) (world s) (trail s)"
proof -
  have new: "kept J (new_call p iid rq w)" using assms(2) by (simp add: kept_def new_call_def who_def)
  obtain r1 s1 where g: "gates (admission_gates svc rq) (new_call p iid rq w) = (r1, s1)" by force
  have "kept J s" if "run_call svc rq (new_call p iid rq w) = (r, s)"
    using kept_run_call[OF that g kept_admission[OF g new]] .
  with assms(1) new have "kept J s" by (auto simp: invoke_def split: option.splits)
  then show ?thesis by (simp add: kept_def)
qed

end

end
