(* ===== verification/Gateway.thy ===== *)
theory Gateway
  imports Invocation_Properties Invocation_Frame
begin

text \<open>
  The gateway as the server wires it: the invocation pipeline over the Postgres evidence log, behind the
  recorder that stamps trace ids, and the Postgres quota service. The remaining services act on a part of
  the world of their own, so the two databases change only through \<open>Audit_Log\<close> and \<open>Quota\<close>. The theorems
  hold for histories of calls by any callers.
\<close>

section \<open>The wiring\<close>

record 'x gateway =
  gw_audit :: audit_db
  gw_quota :: quota_db
  gw_rest :: 'x

text \<open>What the process and the databases decide: the fate of each write, the exporters, the clocks of the
  host and of the database, the trace of the current span, whether a quota service is wired and whether
  its database answers.\<close>

record 'x platform =
  pf_sha256 :: "bytes \<Rightarrow> bytes"
  pf_env :: "'x \<Rightarrow> write_env"
  pf_targets :: "bytes list"
  pf_clock :: "'x \<Rightarrow> rat \<times> rat"
  pf_trace :: "'x \<Rightarrow> bytes option"
  pf_quota :: bool
  pf_quota_down :: "'x \<Rightarrow> bool"

definition stamp :: "bytes option \<Rightarrow> audit_event \<Rightarrow> audit_event" where
  "stamp current e = (if ev_trace_id e = None then e\<lparr>ev_trace_id := current\<rparr> else e)"

definition stamped_required :: "'x platform \<Rightarrow> audit_event \<Rightarrow> 'x gateway \<Rightarrow> 'x gateway \<times> bool" where
  "stamped_required pf e g =
     (let x = gw_rest g in
      case record_required (pf_sha256 pf) (pf_env pf x) (pf_targets pf) (stamp (pf_trace pf x) e) (gw_audit g) of
        (db, res) \<Rightarrow> (g\<lparr>gw_audit := db\<rparr>, \<not> isl res))"

definition stamped_chained :: "'x platform \<Rightarrow> audit_event \<Rightarrow> 'x gateway \<Rightarrow> 'x gateway" where
  "stamped_chained pf e g =
     (let x = gw_rest g in
      g\<lparr>gw_audit := record_chained_best_effort (pf_sha256 pf) (pf_env pf x) (pf_targets pf)
                      (stamp (pf_trace pf x) e) (gw_audit g)\<rparr>)"

definition quota_service ::
  "'x platform \<Rightarrow> quota_context \<Rightarrow> quota_action list \<Rightarrow> 'x gateway \<Rightarrow> 'x gateway \<times> (quota_error + unit)" where
  "quota_service pf ctx actions g =
     (if pf_quota_down pf (gw_rest g) then (g, Inl Sqlx)
      else case pf_clock pf (gw_rest g) of
             (host_now, db_now) \<Rightarrow>
               (case check_and_consume host_now db_now ctx actions (gw_quota g) of
                  (q, answer) \<Rightarrow> (g\<lparr>gw_quota := q\<rparr>, answer)))"

text \<open>A service of the rest of the world.\<close>

definition in_rest :: "('x \<Rightarrow> 'x \<times> 'a) \<Rightarrow> 'x gateway \<Rightarrow> 'x gateway \<times> 'a" where
  "in_rest f g = (case f (gw_rest g) of (x, a) \<Rightarrow> (g\<lparr>gw_rest := x\<rparr>, a))"

definition rest_first :: "('x \<Rightarrow> 'a \<times> 'x) \<Rightarrow> 'x gateway \<Rightarrow> 'a \<times> 'x gateway" where
  "rest_first f g = (case f (gw_rest g) of (a, x) \<Rightarrow> (a, g\<lparr>gw_rest := x\<rparr>))"

definition lift_file_input :: "'x file_input \<Rightarrow> 'x gateway file_input" where
  "lift_file_input fi =
     \<lparr>fi_admit = fi_admit fi, fi_prepare = \<lambda>schema args. in_rest (fi_prepare fi schema args),
      fi_prepare_continuation = \<lambda>rs ks. in_rest (fi_prepare_continuation fi rs ks)\<rparr>"

definition lift_file_output :: "'x file_output \<Rightarrow> 'x gateway file_output" where
  "lift_file_output fo =
     \<lparr>fo_prepare = \<lambda>r. in_rest (fo_prepare fo r), fo_publish = \<lambda>b. in_rest (fo_publish fo b),
      fo_discard = \<lambda>b g. g\<lparr>gw_rest := fo_discard fo b (gw_rest g)\<rparr>\<rparr>"

definition lift_sealer :: "'x sealer \<Rightarrow> 'x gateway sealer" where
  "lift_sealer sl =
     \<lparr>sl_seal = \<lambda>k g. sl_seal sl k (gw_rest g), sl_open = sl_open sl, sl_now = \<lambda>g. sl_now sl (gw_rest g)\<rparr>"

definition lift_request :: "'x request \<Rightarrow> 'x gateway request" where
  "lift_request rq =
     \<lparr>rq_server = rq_server rq, rq_tool = rq_tool rq, rq_arguments = rq_arguments rq, rq_mode = rq_mode rq,
      rq_expected_contract = rq_expected_contract rq, rq_approval_binding = rq_approval_binding rq,
      rq_hierarchy = rq_hierarchy rq, rq_acting_agent = rq_acting_agent rq,
      rq_input_responses = rq_input_responses rq, rq_request_state = rq_request_state rq,
      rq_capabilities = rq_capabilities rq,
      rq_dispatch_admission = map_option (\<lambda>admit se k. in_rest (admit se k)) (rq_dispatch_admission rq)\<rparr>"

definition gateway_service :: "'x platform \<Rightarrow> 'x service \<Rightarrow> 'x gateway service" where
  "gateway_service pf base =
     \<lparr>sv_resolve = \<lambda>tid sv tn g. sv_resolve base tid sv tn (gw_rest g),
      sv_may_discover = \<lambda>p sv g. sv_may_discover base p sv (gw_rest g),
      sv_authorize = \<lambda>f. in_rest (sv_authorize base f),
      sv_quota = (if pf_quota pf then Some (quota_service pf) else None),
      sv_claim_grant = map_option (\<lambda>claim gl. in_rest (claim gl)) (sv_claim_grant base),
      sv_retain_request = map_option (\<lambda>retain ar. in_rest (retain ar)) (sv_retain_request base),
      sv_notifier = sv_notifier base,
      sv_audit_mode = sv_audit_mode base,
      sv_record_required = stamped_required pf,
      sv_record_chained = stamped_chained pf,
      sv_call_tool = \<lambda>sv tn args p k m. in_rest (sv_call_tool base sv tn args p k m),
      sv_inspectors = sv_inspectors base,
      sv_file_input = map_option lift_file_input (sv_file_input base),
      sv_file_output = map_option lift_file_output (sv_file_output base),
      sv_sealer = map_option lift_sealer (sv_sealer base),
      sv_argument_hash = sv_argument_hash base, sv_schema_hash = sv_schema_hash base,
      sv_sha256 = sv_sha256 base, sv_compile = sv_compile base, sv_object_root = sv_object_root base,
      sv_root_properties = sv_root_properties base, sv_clamp_count = sv_clamp_count base,
      sv_error_text = sv_error_text base, sv_contract_text = sv_contract_text base,
      sv_pause_value = sv_pause_value base, sv_structured_result = sv_structured_result base,
      sv_missing_capability_code = sv_missing_capability_code base,
      sv_tasks_extension = sv_tasks_extension base,
      sv_fresh = rest_first (sv_fresh base), sv_trace_id = rest_first (sv_trace_id base),
      sv_elapsed_ms = \<lambda>g g'. sv_elapsed_ms base (gw_rest g) (gw_rest g')\<rparr>"

text \<open>A history of calls, each by its caller, with what every one of them returned.\<close>

fun gateway_run ::
  "'w service \<Rightarrow> (principal option \<times> uuid \<times> 'w request) list \<Rightarrow> 'w \<Rightarrow>
   ((invocation_error + invocation_response) \<times> 'w call) list \<times> 'w" where
  "gateway_run svc [] w = ([], w)"
| "gateway_run svc ((p, iid, rq) # calls) w =
     (case invoke svc p iid rq w of
        (r, s) \<Rightarrow> (case gateway_run svc calls (world s) of (outs, w') \<Rightarrow> ((r, s) # outs, w')))"

section \<open>The other services leave the databases alone\<close>

lemma in_rest_frame:
  "in_rest f g = (g', a) \<Longrightarrow> gw_audit g' = gw_audit g \<and> gw_quota g' = gw_quota g"
  "rest_first h g = (b, g') \<Longrightarrow> gw_audit g' = gw_audit g \<and> gw_quota g' = gw_quota g"
  by (auto simp: in_rest_def rest_first_def split: prod.splits)

lemma gateway_move:
  assumes "service_move (gateway_service pf base) (lift_request rq) g g'"
  shows "gw_audit g' = gw_audit g \<and> gw_quota g' = gw_quota g"
  using assms
  by (cases rule: service_move.cases)
     (auto simp: gateway_service_def lift_request_def lift_file_input_def lift_file_output_def dest: in_rest_frame)

lemma stamped_quota:
  "gw_quota (stamped_chained pf e g) = gw_quota g"
  "stamped_required pf e g = (g', b) \<Longrightarrow> gw_quota g' = gw_quota g"
  by (auto simp: stamped_chained_def stamped_required_def Let_def split: prod.splits)

lemma wired [simp]:
  "sv_record_chained (gateway_service pf base) = stamped_chained pf"
  "sv_record_required (gateway_service pf base) = stamped_required pf"
  "sv_quota (gateway_service pf base) = (if pf_quota pf then Some (quota_service pf) else None)"
  "sv_audit_mode (gateway_service pf base) = sv_audit_mode base"
  by (simp_all add: gateway_service_def)

lemma lifted_request [simp]: "rq_server (lift_request rq) = rq_server rq" "rq_tool (lift_request rq) = rq_tool rq"
  by (simp_all add: lift_request_def)

interpretation gw_quota_frame: call_frame "gateway_service pf base" "lift_request rq" "\<lambda>i g t. i = j \<and> gw_quota g = q \<and> X \<subseteq> set t"
  for pf :: "'x platform" and base rq j q X
  by unfold_locales (auto simp: stamped_quota dest: gateway_move)

section \<open>Evidence\<close>

text \<open>The chained row of an event.\<close>

definition row_of :: "audit_event \<Rightarrow> audit_row \<Rightarrow> bool" where
  "row_of e r \<longleftrightarrow> row_id r = ev_id e \<and> tenant r = ev_tenant e \<and> server r = ev_server e \<and> tool r = ev_tool e \<and>
     reason r = ev_reason e \<and> col_row_hash r \<noteq> None"

lemma row_of_stamp: "row_of (stamp current e) r \<longleftrightarrow> row_of e r"
  by (simp add: row_of_def stamp_def)

lemma row_of_new_row: "row_of e (new_row store e p (Some h) n)"
  by (auto simp: row_of_def new_row_def event_columns_def audit_ext5.defs audit_row.defs split: option.splits)

lemma committed_appends:
  assumes "committed sha256 env targets e mode db db'"
  shows "\<exists>r. audit_log db' = audit_log db @ [r] \<and> row_of e r"
proof -
  obtain h db1 where i: "insert_event (store_ts env) e (select_prev db (ev_tenant e)) (Some h) db = Some db1"
    and ob: "outbox_stage env targets e mode db1 = Inr db'"
    using assms by (auto simp: committed_def)
  then have "audit_log db' = audit_log db @ [new_row (store_ts env) e (select_prev db (ev_tenant e)) (Some h) (chain_sequence db)]"
    using outbox_stage_ok[OF ob] by (auto simp: insert_event_alt same_log_def split: if_splits)
  then show ?thesis using row_of_new_row by blast
qed

lemma chained_appends:
  assumes "insert_chained_event sha256 env targets e mode db = (db', res)"
  shows "(\<exists>new. audit_log db' = audit_log db @ new) \<and> (\<not> isl res \<longrightarrow> (\<exists>r\<in>set (audit_log db'). row_of e r))"
  using insert_chained_event_cases[OF assms] committed_appends by fastforce

definition evidence_kept :: "'x platform \<Rightarrow> audit_row list \<Rightarrow> 'x gateway \<Rightarrow> effect list \<Rightarrow> bool" where
  "evidence_kept pf rows g t \<longleftrightarrow>
     (\<forall>x. env_ok (pf_env pf x)) \<longrightarrow>
       log_inv (pf_sha256 pf) (gw_audit g) \<and> (\<exists>new. audit_log (gw_audit g) = rows @ new) \<and>
       (\<forall>e. RequiredRecord e True \<in> set t \<longrightarrow> (\<exists>r\<in>set (audit_log (gw_audit g)). row_of e r))"

lemma evidence_kept_write:
  assumes "insert_chained_event (pf_sha256 pf) (pf_env pf x) targets e mode (gw_audit g) = (db', res)"
    and "evidence_kept pf rows g t" and "gw_audit g' = db'"
    and "\<And>e'. RequiredRecord e' True \<in> set t' \<Longrightarrow>
      RequiredRecord e' True \<in> set t \<or> \<not> isl res \<and> (\<forall>r. row_of e r \<longrightarrow> row_of e' r)"
  shows "evidence_kept pf rows g' t'"
  unfolding evidence_kept_def
proof (intro impI conjI allI)
  assume env: "\<forall>x. env_ok (pf_env pf x)"
  with assms(2) have k: "log_inv (pf_sha256 pf) (gw_audit g)" "\<exists>new. audit_log (gw_audit g) = rows @ new"
    "\<forall>e. RequiredRecord e True \<in> set t \<longrightarrow> (\<exists>r\<in>set (audit_log (gw_audit g)). row_of e r)"
    by (auto simp: evidence_kept_def)
  note app = chained_appends[OF assms(1)]
  show "log_inv (pf_sha256 pf) (gw_audit g')"
    using log_inv_chained[OF k(1), of "pf_env pf x" targets e mode] env assms(1,3) by simp
  show "\<exists>new. audit_log (gw_audit g') = rows @ new"
    using k(2) app assms(3) by (metis append.assoc)
  fix e' assume "RequiredRecord e' True \<in> set t'"
  from assms(4)[OF this] show "\<exists>r\<in>set (audit_log (gw_audit g')). row_of e' r"
    using k(3) app assms(3) by fastforce
qed

lemma evidence_kept_chained:
  "evidence_kept pf rows g t \<Longrightarrow> evidence_kept pf rows (stamped_chained pf e g) (t @ [Recorded e])"
  by (rule evidence_kept_write[OF prod.collapse[symmetric]])
     (auto simp: stamped_chained_def record_chained_best_effort_def Let_def)

lemma evidence_kept_required:
  assumes "stamped_required pf e g = (g', b)" "evidence_kept pf rows g t"
  shows "evidence_kept pf rows g' (t @ [RequiredRecord e b])"
proof -
  obtain db res where ins: "insert_chained_event (pf_sha256 pf) (pf_env pf (gw_rest g)) (pf_targets pf)
      (stamp (pf_trace pf (gw_rest g)) e) RequiredExport (gw_audit g) = (db, res)" by force
  show ?thesis
    by (rule evidence_kept_write[OF ins assms(2)])
       (use assms(1) ins in \<open>auto simp: stamped_required_def record_required_def Let_def row_of_stamp
          split: sum.splits\<close>)
qed

lemma evidence_kept_same:
  "evidence_kept pf rows g t \<Longrightarrow> gw_audit g' = gw_audit g \<Longrightarrow> (\<And>e. RequiredRecord e True \<in> set t' \<Longrightarrow>
     RequiredRecord e True \<in> set t) \<Longrightarrow> evidence_kept pf rows g' t'"
  unfolding evidence_kept_def by metis

lemma quota_service_audit: "quota_service pf ctx actions g = (g', a) \<Longrightarrow> gw_audit g' = gw_audit g"
  by (auto simp: quota_service_def split: if_splits prod.splits)

interpretation gw_evidence: call_invariant "gateway_service pf base" "lift_request rq" "\<lambda>i. evidence_kept pf rows"
  for pf :: "'x platform" and base rq rows
proof unfold_locales
  fix w t x assume "neutral x" "evidence_kept pf rows w t"
  then show "evidence_kept pf rows w (t @ [x])" by (elim evidence_kept_same) auto
qed (auto simp: evidence_kept_chained evidence_kept_required split: if_splits
      dest: gateway_move quota_service_audit elim!: evidence_kept_same)

text \<open>A dispatched call was cleared, with what is in its trail.\<close>

lemma dispatched_cleared:
  assumes "invoke svc p iid rq w = (r, s)" "\<exists>x\<in>set (trail s). is_dispatch x"
  shows "cleared svc s (set (trail s))"
proof -
  from invoke_trace[OF assms(1)] assms(2) obtain s0 post where
    c: "cleared svc s0 (set (trail s0))" and t: "response_trace svc s0 r s post"
    unfolding call_trace_def by (auto simp: list_all_iff)
  show ?thesis by (rule cleared_core[OF _ _ c]) (use t in \<open>auto simp: response_trace_def\<close>)
qed

abbreviation on_gateway :: "(principal option \<times> uuid \<times> 'x request) list \<Rightarrow> (principal option \<times> uuid \<times> 'x gateway request) list" where
  "on_gateway calls \<equiv> map (\<lambda>(p, iid, rq). (p, iid, lift_request rq)) calls"

lemma gateway_run_evidence:
  assumes "\<forall>x. env_ok (pf_env pf x)" "log_inv (pf_sha256 pf) (gw_audit w)"
    and "gateway_run (gateway_service pf base) (on_gateway calls) w = (outs, w')"
  shows "log_inv (pf_sha256 pf) (gw_audit w') \<and> (\<exists>new. audit_log (gw_audit w') = audit_log (gw_audit w) @ new) \<and>
    (\<forall>(r, s)\<in>set outs. \<forall>e. RequiredRecord e True \<in> set (trail s) \<longrightarrow>
       (\<exists>row\<in>set (audit_log (gw_audit w')). row_of e row))"
  using assms(2,3)
proof (induction calls arbitrary: w outs)
  case (Cons call calls)
  obtain p iid rq where call: "call = (p, iid, rq)" by (cases call)
  obtain r s where i: "invoke (gateway_service pf base) p iid (lift_request rq) w = (r, s)" by force
  obtain outs' w1 where g: "gateway_run (gateway_service pf base) (on_gateway calls) (world s) = (outs', w1)" by force
  have res: "outs = (r, s) # outs'" "w1 = w'" using Cons.prems(2) call i g by auto
  have "evidence_kept pf (audit_log (gw_audit w)) w []" using Cons.prems(1) by (simp add: evidence_kept_def)
  from gw_evidence.invoke_kept[OF i this] assms(1)
  have s: "log_inv (pf_sha256 pf) (gw_audit (world s))"
    "\<exists>new. audit_log (gw_audit (world s)) = audit_log (gw_audit w) @ new"
    "\<forall>e. RequiredRecord e True \<in> set (trail s) \<longrightarrow> (\<exists>r\<in>set (audit_log (gw_audit (world s))). row_of e r)"
    by (auto simp: evidence_kept_def)
  note IH = Cons.IH[OF s(1) g[unfolded res(2)]]
  note tail = IH[THEN conjunct2, THEN conjunct1]
  then have app: "\<exists>new. audit_log (gw_audit w') = audit_log (gw_audit w) @ new" using s(2) by force
  have "\<exists>row\<in>set (audit_log (gw_audit w')). row_of e row" if "RequiredRecord e True \<in> set (trail s)" for e
    using tail s(3) that by fastforce
  then have "\<forall>(r, s)\<in>set outs. \<forall>e. RequiredRecord e True \<in> set (trail s) \<longrightarrow>
      (\<exists>row\<in>set (audit_log (gw_audit w')). row_of e row)"
    using IH[THEN conjunct2, THEN conjunct2] unfolding res(1) list.set ball_simps prod.case by blast
  with app IH[THEN conjunct1] show ?case by (intro conjI)
qed simp

text \<open>The trail of a call made in a history, as that call left it.\<close>

lemma gateway_run_calls:
  assumes "gateway_run svc calls w = (outs, w')" "(r, s) \<in> set outs"
  shows "\<exists>p iid rq w0. (p, iid, rq) \<in> set calls \<and> invoke svc p iid rq w0 = (r, s)"
  using assms
proof (induction calls arbitrary: w outs)
  case (Cons call calls)
  obtain p iid rq where call: "call = (p, iid, rq)" by (cases call)
  obtain r1 s1 where i: "invoke svc p iid rq w = (r1, s1)" by force
  obtain outs' w1 where g: "gateway_run svc calls (world s1) = (outs', w1)" by force
  have "outs = (r1, s1) # outs'" "w1 = w'" using Cons.prems(1) call i g by auto
  with Cons.prems(2) consider "(r, s) = (r1, s1)" | "(r, s) \<in> set outs'" by auto
  then show ?case
  proof cases
    case 1
    with i call show ?thesis by auto
  next
    case 2
    from Cons.IH[OF g[unfolded \<open>w1 = w'\<close>] this] show ?thesis by auto
  qed
qed simp

text \<open>C2: Any history of calls through the wired gateway, by any callers and with any failures of the
  databases, leaves every tenant's audit chain accepted by the verifier; and when the gateway is
  fail-closed, each side-effecting call of the history that reached the upstream still has its pre-call
  row, chained, with its server, tool and tenant, in the audit log at the end.\<close>

theorem gateway_history_keeps_evidence:
  assumes "\<forall>x. env_ok (pf_env pf x)" and "log_init (gw_audit w)"
    and "gateway_run (gateway_service pf base) (on_gateway calls) w = (outs, w')"
  shows "(\<forall>tid. chain_rows (gw_audit w') tid \<noteq> [] \<longrightarrow>
      status (verify_chain_rows_with_bridges (pf_sha256 pf) tid None None None (chain_rows (gw_audit w') tid) []) = Ok) \<and>
    (sv_audit_mode base = FailClosed \<longrightarrow>
      (\<forall>(r, s)\<in>set outs. tf_side_effects (facts s) \<longrightarrow> (\<exists>x\<in>set (trail s). is_dispatch x) \<longrightarrow>
        (\<exists>row\<in>set (audit_log (gw_audit w')). reason row = Some ''pre_call'' \<and> server row = Some (c_server s) \<and>
           tool row = Some (c_tool s) \<and> tenant row = tenant_or_default (c_principal s) \<and> col_row_hash row \<noteq> None)))"
proof (intro conjI impI allI ballI)
  have "log_inv (pf_sha256 pf) (gw_audit w)" using assms(2) log_sys.init_inv by blast
  note ev = gateway_run_evidence[OF assms(1) this assms(3)]
  show "status (verify_chain_rows_with_bridges (pf_sha256 pf) tid None None None (chain_rows (gw_audit w') tid) []) = Ok"
    if "chain_rows (gw_audit w') tid \<noteq> []" for tid
    using ev chain_ok_iff_verify[OF that] by (simp add: log_inv_def)
  fix out assume mode: "sv_audit_mode base = FailClosed" and out: "out \<in> set outs"
  obtain r s where rs: "out = (r, s)" by force
  have "\<exists>row\<in>set (audit_log (gw_audit w')). reason row = Some ''pre_call'' \<and> server row = Some (c_server s) \<and>
      tool row = Some (c_tool s) \<and> tenant row = tenant_or_default (c_principal s) \<and> col_row_hash row \<noteq> None"
    if "tf_side_effects (facts s)" "\<exists>x\<in>set (trail s). is_dispatch x"
  proof -
    from gateway_run_calls[OF assms(3)] out rs dispatched_cleared that(2)
    have "cleared (gateway_service pf base) s (set (trail s))" by metis
    with mode that(1) obtain e where e: "RequiredRecord e True \<in> set (trail s)" "ev_reason e = Some ''pre_call''"
      "ev_server e = Some (c_server s)" "ev_tool e = Some (c_tool s)" "ev_tenant e = tenant_or_default (c_principal s)"
      by (auto simp: cleared_def evidenced_def)
    with ev out rs obtain row where "row \<in> set (audit_log (gw_audit w'))" "row_of e row" by fastforce
    with e show ?thesis by (auto simp: row_of_def)
  qed
  then show "case out of (r, s) \<Rightarrow> tf_side_effects (facts s) \<longrightarrow> (\<exists>x\<in>set (trail s). is_dispatch x) \<longrightarrow>
      (\<exists>row\<in>set (audit_log (gw_audit w')). reason row = Some ''pre_call'' \<and> server row = Some (c_server s) \<and>
         tool row = Some (c_tool s) \<and> tenant row = tenant_or_default (c_principal s) \<and> col_row_hash row \<noteq> None)"
    using rs by simp
qed

section \<open>Quota\<close>

definition charged :: "'x platform \<Rightarrow> principal option \<Rightarrow> bytes \<Rightarrow> bytes \<Rightarrow> quota_action list \<Rightarrow> quota_db \<Rightarrow> quota_db \<Rightarrow> bool" where
  "charged pf p sv tn actions q q' \<longleftrightarrow>
     (\<exists>c x. p = Some c \<and>
        check_and_consume (fst (pf_clock pf x)) (snd (pf_clock pf x))
          \<lparr>q_tenant_id = pr_tenant c, q_principal_sub = Some (pr_sub c), q_client_id = None, q_server = sv,
           q_fq_tool = fq sv tn\<rparr> actions q = (q', Inr ()))"

text \<open>The quota stage on the wired gateway: it charges a call it lets through, once, or finds nothing to
  charge; a call it refuses leaves the tables alone.\<close>

definition quota_step :: "'x platform \<Rightarrow> 'x gateway call \<Rightarrow> invocation_error + unit \<Rightarrow> 'x gateway call \<Rightarrow> bool" where
  "quota_step pf s r s' \<longleftrightarrow>
     (case r of
        Inl _ \<Rightarrow> gw_quota (world s') = gw_quota (world s)
      | Inr _ \<Rightarrow> core s' = core s \<and>
          (charged pf (c_principal s) (c_server s) (c_tool s) (quota_actions (facts s))
             (gw_quota (world s)) (gw_quota (world s')) \<or>
           gw_quota (world s') = gw_quota (world s) \<and>
             (\<not> pf_quota pf \<or> c_principal s = None \<or> QuotaAnswer (quota_actions (facts s)) (Inl Sqlx) \<in> set (trail s'))))"

lemma quota_service_charges:
  assumes "quota_service pf (quota_context_of c s) actions g = (g', a)"
  shows "case a of Inl _ \<Rightarrow> gw_quota g' = gw_quota g
    | Inr _ \<Rightarrow> charged pf (Some c) (c_server s) (c_tool s) actions (gw_quota g) (gw_quota g')"
  using assms
  by (auto simp: quota_service_def charged_def quota_context_of_def call_fq_def check_and_consume_def Let_def
      split: if_splits prod.splits sum.splits intro!: exI[of _ "gw_rest g"])

lemma quota_stage:
  assumes "check_quota (gateway_service pf base) s = (r, s')"
  shows "quota_step pf s r s'"
proof (cases "pf_quota pf \<and> c_principal s \<noteq> None")
  case False
  with assms show ?thesis by (auto simp: check_quota_def quota_step_def split: if_splits)
next
  case True
  then obtain c where c: "pf_quota pf" "c_principal s = Some c" by blast
  obtain g a where q: "quota_service pf (quota_context_of c s) (quota_actions (facts s)) (world s) = (g, a)" by force
  let ?s1 = "emit (QuotaAnswer (quota_actions (facts s)) a) (s\<lparr>world := g\<rparr>)"
  note g = quota_service_charges[OF q]
  show ?thesis
  proof (cases a)
    case (Inr u)
    with assms c q have "r = Inr ()" "s' = ?s1" by (auto simp: check_quota_def Let_def)
    with g Inr c show ?thesis by (simp add: quota_step_def)
  next
    case (Inl e)
    show ?thesis
    proof (cases e)
      case Sqlx
      with assms c q Inl have "r = Inr ()" "s' = ?s1" by (auto simp: check_quota_def Let_def)
      with g Inl Sqlx show ?thesis by (simp add: quota_step_def)
    next
      case (RateLimited pid name retry)
      with assms c q Inl obtain why err where d: "deny (gateway_service pf base) why err ?s1 = (r, s')"
        by (auto simp: check_quota_def Let_def)
      have "kept (\<lambda>i w t. i = who ?s1 \<and> gw_quota w = gw_quota g \<and> {} \<subseteq> set t) ?s1" by (simp add: kept_def)
      from gw_quota_frame.kept_deny[OF d this] have "gw_quota (world s') = gw_quota g" by (simp add: kept_def)
      moreover have "isl r" using d by (auto simp: deny_def)
      ultimately show ?thesis using g Inl by (auto simp: quota_step_def split: sum.splits)
    qed
  qed
qed

text \<open>Nothing after the quota stage touches the context that it charged.\<close>

lemma check_approval_core: "check_approval svc s = (r, s') \<Longrightarrow> core s' = core s"
proof -
  have c: "core s' = core s" if "claim_approval svc claim p tid behavior s = (r, s')" for claim p tid behavior s' and r :: "invocation_error + unit"
    using that
    by (auto simp: claim_approval_def notify_approver_def retain_request_def Let_def split: prod.splits sum.splits option.splits)
  have "core s' = core s" if "check_approval_inner svc s = (r, s')" for s' and r :: "invocation_error + unit"
    using that
    by (auto simp: check_approval_inner_def Let_def elim: c split: resolution_authority.splits bool.splits option.splits if_splits)
  then show "check_approval svc s = (r, s') \<Longrightarrow> core s' = core s"
    by (auto simp: check_approval_def split: prod.splits sum.splits invocation_error.splits)
qed

lemma record_pre_call_core: "record_pre_call svc s = (r, s') \<Longrightarrow> core s' = core s"
  by (auto simp: record_pre_call_def Let_def split: prod.splits if_splits)

lemma after_quota_core: "gates (after_quota svc) s = (r, s') \<Longrightarrow> core s' = core s"
  by (auto simp: after_quota_def enter_stage_def dest!: check_approval_core record_pre_call_core
      split: prod.splits sum.splits)

lemma run_call_core:
  assumes "run_call svc rq s = (r, s')" "gates (admission_gates svc rq) s = (g, s1)"
  shows "core s' = core s1"
proof -
  have f: "core s' = core s" if "fail_with_outcome svc e s = (r, s')" for e s s' and r :: "invocation_error + invocation_response"
    using that by (auto simp: fail_with_outcome_def record_outcome_core)
  have p: "core s' = core s" if "respond svc s = (r, s')" for s r s'
    using respond_trace[OF that] by (auto simp: response_trace_def)
  show ?thesis
    using assms
    by (auto simp: run_call_def dest!: f p admit_dispatch_quiet dest: late_okD[OF prepare_and_validate_file_inputs_late]
        split: prod.splits sum.splits)
qed

lemma run_after_quota:
  assumes "run_call (gateway_service pf base) (lift_request rq) s0 = (r, s)"
    and "gates (admission_gates (gateway_service pf base) (lift_request rq)) s0 = (r3, s3)"
    and "gates (after_quota (gateway_service pf base)) s2 = (r3, s3)"
  shows "gw_quota (world s) = gw_quota (world s2)" "set (trail s2) \<subseteq> set (trail s)"
    "CheckApproval \<in> set (stages_of (trail s))" "core s = core s2"
proof -
  let ?X = "set (trail s2) \<union> {Entered CheckApproval}"
  have "kept (\<lambda>i g t. i = who s2 \<and> gw_quota g = gw_quota (world s2) \<and> ?X \<subseteq> set t) (emit (Entered CheckApproval) s2)"
    by (auto simp: kept_def)
  from gw_quota_frame.kept_run_call[OF assms(1,2) gw_quota_frame.kept_after_quota[OF assms(3) this]]
  have s: "gw_quota (world s) = gw_quota (world s2)" "?X \<subseteq> set (trail s)" by (simp_all add: kept_def)
  then show "gw_quota (world s) = gw_quota (world s2)" "set (trail s2) \<subseteq> set (trail s)" by simp_all
  show "CheckApproval \<in> set (stages_of (trail s))"
    using s(2) by (force simp: stages_of_def List.map_filter_def stage_of_def)
  show "core s = core s2" using run_call_core[OF assms(1,2)] after_quota_core[OF assms(3)] by simp
qed

text \<open>C6: A call through the wired gateway is charged at most once, under the policies that govern its
  caller, server and tool and with the side-effect action exactly when its facts say so; a call that does
  not get past the quota stage is not charged at all; and a call of an authenticated caller that reaches
  the upstream has been charged, unless the quota database failed to answer.\<close>

theorem quota_charged_at_most_once:
  assumes "invoke (gateway_service pf base) p iid (lift_request rq) w = (r, s)"
  shows "(gw_quota (world s) = gw_quota w \<or>
       charged pf p (rq_server rq) (rq_tool rq) (quota_actions (facts s)) (gw_quota w) (gw_quota (world s))) \<and>
    (CheckApproval \<notin> set (stages_of (trail s)) \<longrightarrow> gw_quota (world s) = gw_quota w) \<and>
    ((\<exists>x\<in>set (trail s). is_dispatch x) \<longrightarrow> pf_quota pf \<longrightarrow> p \<noteq> None \<longrightarrow>
       charged pf p (rq_server rq) (rq_tool rq) (quota_actions (facts s)) (gw_quota w) (gw_quota (world s)) \<or>
       QuotaAnswer (quota_actions (facts s)) (Inl Sqlx) \<in> set (trail s))"
proof (cases "check_binding (lift_request rq)")
  case (Some e)
  with assms have "s = new_call p iid (lift_request rq) w" by (simp add: invoke_def)
  then show ?thesis by (simp add: new_call_def)
next
  case None
  let ?svc = "gateway_service pf base" and ?rq = "lift_request rq" and ?q = "gw_quota w"
  let ?s0 = "new_call p iid ?rq w" and ?who = "(p, rq_server rq, rq_tool rq)"
  have run: "run_call ?svc ?rq ?s0 = (r, s)" using assms None by (simp add: invoke_def)
  obtain r3 s3 where all: "gates (admission_gates ?svc ?rq) ?s0 = (r3, s3)" by force
  obtain r1 s1 where before: "gates (before_quota ?svc ?rq) ?s0 = (r1, s1)" by force
  obtain r2 s2 where quota: "check_quota ?svc s1 = (r2, s2)" by force
  have "kept (\<lambda>i g t. i = ?who \<and> gw_quota g = ?q \<and> {} \<subseteq> set t) ?s0"
    by (simp add: kept_def new_call_def who_def)
  from gw_quota_frame.kept_before_quota[OF before this]
  have s1: "c_principal s1 = p" "c_server s1 = rq_server rq" "c_tool s1 = rq_tool rq" "gw_quota (world s1) = ?q"
    by (simp_all add: kept_def who_def)
  note step = quota_stage[OF quota, unfolded quota_step_def s1]
  show ?thesis
  proof (cases "isl r1 \<or> isl r2")
    case True
    then have refused: "isl r3" "s3 = (if isl r1 then s1 else s2)"
      using all before quota unfolding admission_gates_split gates_append
      by (auto split: sum.splits)
    then have "s = s3" using run all by (auto simp: run_call_def split: sum.splits)
    moreover have "gw_quota (world s3) = ?q"
      using True step s1(4) refused(2) by (auto split: sum.splits if_splits)
    moreover have "\<not> (\<exists>x\<in>set (trail s3). is_dispatch x)"
      using admission_trace[OF all] by (auto simp: steps_def new_call_def list_all_iff)
    ultimately show ?thesis by blast
  next
    case False
    then have "gates (after_quota ?svc) s2 = (r3, s3)"
      using all before quota unfolding admission_gates_split gates_append
      by (auto split: sum.splits)
    note s = run_after_quota[OF run all this]
    have "facts s = facts s1" using s(4) step False by (auto simp: core_def facts_def split: sum.splits)
    then show ?thesis using step False s(1-3) by (auto split: sum.splits)
  qed
qed

end
