(* ===== verification/Gateway_Samples.thy ===== *)
theory Gateway_Samples
  imports Gateway
begin

text \<open>
  A concrete wired gateway: its databases are empty, a tenant's caller calls a side-effecting tool that needs
  an approval, and the call is dispatched. The properties of \<open>Gateway\<close> are instantiated on it.
\<close>

definition sample_platform :: "unit platform" where
  "sample_platform =
     \<lparr>pf_sha256 = (\<lambda>_. ''d''), pf_env = (\<lambda>_. sample_env), pf_targets = [], pf_clock = (\<lambda>_. (0, 0)),
      pf_trace = (\<lambda>_. Some ''span''), pf_quota = True, pf_quota_down = (\<lambda>_. False)\<rparr>"

definition sample_gateway :: "unit gateway" where
  "sample_gateway =
     \<lparr>gw_audit = empty_db,
      gw_quota = \<lparr>rate_limit_policies = [], rate_limit_counters = []\<rparr>, gw_rest = ()\<rparr>"

abbreviation sample_wired :: "unit gateway service" where
  "sample_wired \<equiv> gateway_service sample_platform sample_service"

lemma sample_required_durable: "snd (stamped_required sample_platform e sample_gateway)"
  by (simp add: stamped_required_def sample_platform_def sample_gateway_def record_required_def Let_def
      insert_chained_event_def sample_env_def empty_db_def insert_event_alt
      outbox_stage_def enqueues_outbox_def is_best_effort_def fetch_tenant_routing_def select_prev_def
      chain_rows_def List.map_filter_def enqueue_def)

lemma sample_quota_passes: "quota_service sample_platform ctx actions sample_gateway = (sample_gateway, Inr ())"
  by (simp add: quota_service_def sample_platform_def sample_gateway_def check_and_consume_def
      applicable_policies_def List.map_filter_def)

lemma in_rest_sample [simp]:
  "in_rest f sample_gateway = (sample_gateway, snd (f ()))"
  "rest_first h sample_gateway = (fst (h ()), sample_gateway)"
  by (auto simp: in_rest_def rest_first_def sample_gateway_def split: prod.splits)

lemma sample_wired_simps [simp]:
  "sv_resolve sample_wired tid sv tn g = Ready sample_snapshot"
  "sv_authorize sample_wired f = in_rest (\<lambda>w. (w, NeedsApproval ''approval'' [''p1'']))"
  "sv_claim_grant sample_wired = Some (\<lambda>gl. in_rest (\<lambda>w. (w, Inr (Some ''approver''))))"
  "sv_file_input sample_wired = None" "sv_sealer sample_wired = None"
  "sv_compile sample_wired j = Some (\<lambda>_. None)" "sv_object_root sample_wired j"
  "sv_root_properties sample_wired j = []" "sv_tasks_extension sample_wired = ''tasks''"
  "sv_fresh sample_wired = rest_first (Pair (1, 0))"
  "pf_quota sample_platform" "sv_audit_mode sample_service = FailClosed"
  by (simp_all add: gateway_service_def sample_service_def sample_platform_def)

lemma sample_snapshot_simps [simp]:
  "sn_facts sample_snapshot = sample_facts" "sn_authority sample_snapshot = Catalog 5 ''b1''"
  "sn_input_schema sample_snapshot = Some sample_schema" "sn_discriminator sample_snapshot = None"
  "sn_output_schema sample_snapshot = Some sample_schema"
  "sn_input_schema_unavailable sample_snapshot = False"
  by (simp_all add: sample_snapshot_def)

lemma sample_facts_simps [simp]:
  "tf_name sample_facts = ''send''" "tf_side_effects sample_facts" "tf_requires_approval sample_facts"
  by (simp_all add: sample_facts_def)

text \<open>Once the tool is resolved every gate up to the required evidence passes and leaves this.\<close>

definition sample_ready :: "unit gateway call \<Rightarrow> bool" where
  "sample_ready s \<longleftrightarrow> world s = sample_gateway \<and> c_principal s = Some sample_caller \<and>
     c_server s = ''mail'' \<and> c_tool s = ''send'' \<and>
     (\<exists>v. c_snapshot s = Some (sample_snapshot\<lparr>sn_output_validator := v\<rparr>)) \<and>
     c_effective_facts s = Some sample_facts \<and> c_input_responses s = None \<and> c_request_state s = None"

lemma sample_resolves:
  "\<exists>s. resolve_tool sample_wired
      (emit (Entered ResolveTool) (new_call (Some sample_caller) 7 (lift_request sample_request) sample_gateway)) =
      (Inr (), s) \<and> sample_ready s"
proof -
  have "sample_snapshot = sample_snapshot\<lparr>sn_output_validator := None\<rparr>" by (simp add: sample_snapshot_def)
  then show ?thesis
    by (auto simp: resolve_tool_def admit_snapshot_def Let_def normalize_arguments_def new_call_def lift_request_def
        sample_request_def emit_def normalize_envelope_arguments_def canonical_selector_def resolve_operation_def
        no_operation_def facts_for_def sample_ready_def)
qed

lemma gates_pass:
  assumes "\<And>g s. g \<in> set gs \<Longrightarrow> P s \<Longrightarrow> \<exists>s'. g s = (Inr (), s') \<and> P s'" and "P s"
  shows "\<exists>s'. gates gs s = (Inr (), s') \<and> P s'"
  using assms
proof (induction gs arbitrary: s)
  case (Cons g gs)
  then obtain s1 where "g s = (Inr (), s1)" "P s1" by (meson list.set_intros(1))
  with Cons show ?case by auto
qed simp

lemma sample_ready_fields:
  assumes "sample_ready s"
  shows "world s = sample_gateway" "c_principal s = Some sample_caller" "facts s = sample_facts"
    "sn_authority (tool_snapshot s) = Catalog 5 ''b1''" "sn_input_schema (tool_snapshot s) = Some sample_schema"
    "\<not> sn_input_schema_unavailable (tool_snapshot s)" "sn_output_schema (tool_snapshot s) = Some sample_schema"
    "c_server s = ''mail''" "c_tool s = ''send''" "c_input_responses s = None" "c_request_state s = None"
  using assms by (auto simp: sample_ready_def facts_def tool_snapshot_def)

lemma sample_ready_updates [simp]:
  assumes "sample_ready s"
  shows "sample_ready (s\<lparr>c_pip_facts := pf\<rparr>)" "sample_ready (s\<lparr>c_compiled_input := v\<rparr>)"
    "sample_ready (s\<lparr>c_authz_policy_ids := ids\<rparr>)" "sample_ready (s\<lparr>c_cedar_approval_policies := ps\<rparr>)"
    "sample_ready (s\<lparr>c_digest := dg\<rparr>)" "sample_ready (s\<lparr>c_capabilities := cs\<rparr>)"
    "sample_ready (s\<lparr>world := sample_gateway\<rparr>)" "sample_ready (emit x s)"
    "sample_ready (s\<lparr>c_policy_gated_grant_consumed := b\<rparr>)"
    "sample_ready (s\<lparr>c_snapshot := Some ((tool_snapshot s)\<lparr>sn_output_validator := v'\<rparr>)\<rparr>)"
  using assms by (auto simp: sample_ready_def emit_def tool_snapshot_def)

abbreviation passes :: "(unit gateway call \<Rightarrow> (invocation_error + unit) \<times> unit gateway call) \<Rightarrow> bool" where
  "passes g \<equiv> \<forall>s. sample_ready s \<longrightarrow> (\<exists>s'. g s = (Inr (), s') \<and> sample_ready s')"

lemma sample_early_gates:
  "passes (check_expected_contract sample_wired None)" "passes (check_mode sample_wired Unrestricted)"
  "passes (validate_input sample_wired)" "passes (extract_facts sample_wired)" "passes (enter_stage st)"
  by (simp_all add: check_expected_contract_def check_mode_def enforce_invocation_mode_def validate_input_def
      extract_facts_def enter_stage_def Let_def sample_ready_fields)

lemma sample_authorize: "passes (authorize sample_wired)"
  by (simp add: authorize_def Let_def sample_ready_fields)

lemma sample_profile: "passes (check_profile_restrictions sample_wired)"
  by (simp add: check_profile_restrictions_def evaluate_profile_restrictions_def sample_ready_fields
      sample_caller_def list_admits_def)

lemma sample_later_gates:
  "passes (prepare_output_validation sample_wired)" "passes (verify_continuation sample_wired)"
  "passes refuse_continuation_inputs_when_approval_gated" "passes (admit_file_inputs sample_wired)"
  "passes (prepare_task_origin sample_wired)"
  by (simp_all add: prepare_output_validation_def verify_continuation_def admit_file_inputs_def
      refuse_continuation_inputs_when_approval_gated_def prepare_task_origin_def Let_def sample_ready_fields)

lemma sample_check_quota: "passes (check_quota sample_wired)"
  by (simp add: check_quota_def Let_def sample_ready_fields sample_quota_passes)

lemma sample_check_approval: "passes (check_approval sample_wired)"
  by (simp add: check_approval_def check_approval_inner_def approval_needed_def claim_approval_def Let_def
      sample_ready_fields)

lemma sample_pre_call: "sample_ready s \<Longrightarrow> \<exists>s'. record_pre_call sample_wired s = (Inr (), s')"
  by (simp add: record_pre_call_def Let_def sample_ready_fields sample_required_durable case_prod_beta)

text \<open>The call passes the gates and is dispatched.\<close>

definition gateway_call :: "(invocation_error + invocation_response) \<times> unit gateway call" where
  "gateway_call = invoke sample_wired (Some sample_caller) 7 (lift_request sample_request) sample_gateway"

lemma sample_gates_pass:
  "\<exists>s. gates (admission_gates sample_wired (lift_request sample_request))
     (new_call (Some sample_caller) 7 (lift_request sample_request) sample_gateway) = (Inr (), s) \<and>
     facts s = sample_facts \<and> c_principal s = Some sample_caller"
proof -
  let ?rq = "lift_request sample_request"
  obtain s1 where s1: "resolve_tool sample_wired (emit (Entered ResolveTool)
      (new_call (Some sample_caller) 7 ?rq sample_gateway)) = (Inr (), s1)" "sample_ready s1"
    using sample_resolves by blast
  have rq: "rq_expected_contract ?rq = None" "rq_mode ?rq = Unrestricted"
    by (simp_all add: lift_request_def sample_request_def)
  have "\<exists>s2. gates (take 21 (drop 2 (admission_gates sample_wired ?rq))) s1 = (Inr (), s2) \<and> sample_ready s2"
  proof (rule gates_pass[where P = sample_ready, OF _ s1(2)])
    fix g :: "(unit gateway, unit) stage" and s
    assume "g \<in> set (take 21 (drop 2 (admission_gates sample_wired ?rq)))" "sample_ready s"
    then show "\<exists>s'. g s = (Inr (), s') \<and> sample_ready s'"
      using sample_early_gates sample_authorize sample_profile sample_later_gates sample_check_quota
        sample_check_approval
      by (auto simp: admission_gates_def rq)
  qed
  then obtain s2 where s2: "gates (take 21 (drop 2 (admission_gates sample_wired ?rq))) s1 = (Inr (), s2)"
    "sample_ready s2" by blast
  obtain s3 where s3: "record_pre_call sample_wired s2 = (Inr (), s3)" using sample_pre_call[OF s2(2)] by blast
  have split: "admission_gates sample_wired ?rq =
      [enter_stage ResolveTool, resolve_tool sample_wired] @
      take 21 (drop 2 (admission_gates sample_wired ?rq)) @ [record_pre_call sample_wired]"
    by (simp add: admission_gates_def)
  have "gates (admission_gates sample_wired ?rq) (new_call (Some sample_caller) 7 ?rq sample_gateway) = (Inr (), s3)"
    by (subst split) (simp add: gates_append enter_stage_def s1 s2 s3)
  moreover have "core s3 = core s2" by (rule record_pre_call_core[OF s3])
  ultimately show ?thesis using s2(2) by (auto simp: core_def facts_def sample_ready_def)
qed

lemma gateway_call_dispatches:
  obtains r s where "gateway_call = (r, s)" "\<exists>x\<in>set (trail s). is_dispatch x" "facts s = sample_facts"
    "c_principal s = Some sample_caller"
proof -
  let ?rq = "lift_request sample_request" and ?s0 = "new_call (Some sample_caller) 7 (lift_request sample_request) sample_gateway"
  obtain s1 where g: "gates (admission_gates sample_wired ?rq) ?s0 = (Inr (), s1)"
    "facts s1 = sample_facts" "c_principal s1 = Some sample_caller" using sample_gates_pass by blast
  obtain r s where run: "run_call sample_wired ?rq ?s0 = (r, s)" by force
  have "respond sample_wired (emit (Entered Dispatch) (emit (Entered PrepareFileInputs) s1)) = (r, s)"
    using run g(1) by (simp add: run_call_def admit_dispatch_def prepare_and_validate_file_inputs_def
        lift_request_def sample_request_def)
  from respond_trace[OF this] have "\<exists>x\<in>set (trail s). is_dispatch x"
    by (auto simp: response_trace_def is_dispatch_def)
  moreover have "facts s = sample_facts" "c_principal s = Some sample_caller"
    using run_call_core[OF run g(1)] g(2,3) by (simp_all add: core_def facts_def)
  moreover have "gateway_call = (r, s)"
    using run by (simp add: gateway_call_def invoke_def check_binding_def lift_request_def sample_request_def)
  ultimately show thesis using that by blast
qed

theorem gateway_history_keeps_evidence_witness:
  "\<exists>outs w'. gateway_run sample_wired (on_gateway [(Some sample_caller, 7, sample_request)]) sample_gateway = (outs, w') \<and>
     (\<exists>row\<in>set (audit_log (gw_audit w')). reason row = Some ''pre_call'' \<and> tenant row = ''t1'' \<and> col_row_hash row \<noteq> None)"
proof -
  obtain r s where c: "gateway_call = (r, s)" "\<exists>x\<in>set (trail s). is_dispatch x" "facts s = sample_facts"
    "c_principal s = Some sample_caller" using gateway_call_dispatches by blast
  have run: "gateway_run sample_wired (on_gateway [(Some sample_caller, 7, sample_request)]) sample_gateway =
      ([(r, s)], world s)"
    using c(1) by (simp add: gateway_call_def)
  have "\<forall>x. env_ok (pf_env sample_platform x)" by (simp add: sample_platform_def sample_env_ok)
  moreover have "log_init (gw_audit sample_gateway)" by (simp add: sample_gateway_def log_init_def empty_db_def)
  ultimately obtain row where "row \<in> set (audit_log (gw_audit (world s)))" "reason row = Some ''pre_call''"
    "tenant row = tenant_or_default (c_principal s)" "col_row_hash row \<noteq> None"
    using gateway_history_keeps_evidence[OF _ _ run] c(2,3) by auto
  moreover have "tenant_or_default (c_principal s) = ''t1''"
    using c(4) by (simp add: tenant_or_default_def sample_caller_def)
  ultimately show ?thesis using run by auto
qed

theorem quota_charged_at_most_once_witness:
  "\<exists>r s. invoke sample_wired (Some sample_caller) 7 (lift_request sample_request) sample_gateway = (r, s) \<and>
     (\<exists>x\<in>set (trail s). is_dispatch x) \<and>
     (charged sample_platform (Some sample_caller) ''mail'' ''send'' [Call, SideEffectingCall]
        (gw_quota sample_gateway) (gw_quota (world s)) \<or>
      QuotaAnswer [Call, SideEffectingCall] (Inl Sqlx) \<in> set (trail s))"
proof -
  obtain r s where c: "gateway_call = (r, s)" "\<exists>x\<in>set (trail s). is_dispatch x" "facts s = sample_facts"
    using gateway_call_dispatches by blast
  have inv: "invoke sample_wired (Some sample_caller) 7 (lift_request sample_request) sample_gateway = (r, s)"
    using c(1) by (simp add: gateway_call_def)
  have "quota_actions (facts s) = [Call, SideEffectingCall]" by (simp add: c(3) quota_actions_def)
  moreover have "rq_server sample_request = ''mail''" "rq_tool sample_request = ''send''"
    by (simp_all add: sample_request_def)
  ultimately show ?thesis using quota_charged_at_most_once[OF inv] c(2) inv by auto
qed

end
