(* ===== verification/Agent_Loop.thy ===== *)
theory Agent_Loop
  imports Prelude Request_Facts
begin

text \<open>
  The bounded agent loop of \<open>waygate-agent\<close> (\<open>run.rs\<close>, \<open>lib.rs\<close>): model turns alternate with governed tool
  calls until an answer or a bound. The model, the tool dispatch and the approval gate are traits there and
  functions of a service record here, over a world of any type; the event sink collects. A ghost trail keeps
  the calls on those services, so that the theorem can speak about what was executed and what was approved.
\<close>

section \<open>Messages, tools and turns\<close>

datatype role = SystemRole | UserRole | AssistantRole | ToolRole

datatype content_part =
    TextPart bytes
  | ImageUrl bytes
  | ToolUse bytes bytes bytes
  | ToolResultPart bytes bytes
  | Reasoning json

record canonical_message =
  msg_role :: role
  msg_content :: "content_part list"

record canonical_tool =
  ct_name :: bytes
  ct_description :: "bytes option"
  ct_parameters :: json
  ct_strict :: "bool option"

record agent_tool_call =
  tc_id :: bytes
  tc_name :: bytes
  tc_arguments :: bytes

record model_turn =
  mt_assistant :: canonical_message
  mt_tool_calls :: "agent_tool_call list"
  mt_usage_tokens :: u64

fun part_text :: "content_part \<Rightarrow> bytes" where
  "part_text (TextPart t) = t"
| "part_text _ = []"

definition turn_text :: "model_turn \<Rightarrow> bytes" where
  "turn_text turn = concat (map part_text (msg_content (mt_assistant turn)))"

record agent_tool =
  at_definition :: canonical_tool
  at_side_effects :: bool

record tool_outcome =
  to_content :: bytes
  to_is_error :: bool

datatype approval_decision = Approved | Rejected bytes

datatype agent_event =
    AssistantText bytes
  | ToolCallEvent bytes bytes
  | ApprovalRequested bytes bytes bytes
  | ApprovalRejected bytes bytes
  | ToolResultEvent bytes bytes bool

datatype agent_error = ModelError bytes | DispatchError bytes

record agent_run_config =
  max_steps :: u32
  max_tool_calls :: u32
  token_budget :: "u64 option"

datatype stop_reason = StepCapReached | ToolCallCapReached | BudgetExceeded

datatype agent_outcome = Done bytes u32 u32 | Stopped stop_reason u32 u32

section \<open>Services and state\<close>

record 'w agent_service =
  as_complete :: "canonical_message list \<Rightarrow> canonical_tool list \<Rightarrow> 'w \<Rightarrow> 'w \<times> (agent_error + model_turn)"
  as_available_tools :: "'w \<Rightarrow> 'w \<times> (agent_error + agent_tool list)"
  as_approval_preview :: "bytes \<Rightarrow> bytes \<Rightarrow> bytes"
  as_call_tool :: "bytes \<Rightarrow> bytes \<Rightarrow> 'w \<Rightarrow> 'w \<times> (agent_error + tool_outcome)"
  as_authorize :: "agent_tool_call \<Rightarrow> 'w \<Rightarrow> 'w \<times> approval_decision"

text \<open>The ghost trail: a completed model turn, a decision of the gate, an execution.\<close>

datatype agent_effect =
    Completed model_turn
  | Asked agent_tool_call approval_decision
  | Executed agent_tool_call

record 'w agent =
  ag_world :: 'w
  ag_transcript :: "canonical_message list"
  ag_events :: "agent_event list"
  ag_trail :: "agent_effect list"

definition log_effect :: "agent_effect \<Rightarrow> 'w agent \<Rightarrow> 'w agent" where
  "log_effect x s = s\<lparr>ag_trail := ag_trail s @ [x]\<rparr>"

definition emit_event :: "agent_event \<Rightarrow> 'w agent \<Rightarrow> 'w agent" where
  "emit_event ev s = s\<lparr>ag_events := ag_events s @ [ev]\<rparr>"

section \<open>The loop\<close>

fun not_executed_label :: "stop_reason \<Rightarrow> bytes" where
  "not_executed_label ToolCallCapReached = ''NOT EXECUTED: tool-call cap reached for this run''"
| "not_executed_label BudgetExceeded = ''NOT EXECUTED: token budget exceeded for this run''"
| "not_executed_label StepCapReached = ''NOT EXECUTED: step cap reached for this run''"

definition tool_result_message :: "agent_tool_call \<Rightarrow> bytes \<Rightarrow> canonical_message" where
  "tool_result_message c content = \<lparr>msg_role = ToolRole, msg_content = [ToolResultPart (tc_id c) content]\<rparr>"

definition push_tool_result :: "agent_tool_call \<Rightarrow> bytes \<Rightarrow> 'w agent \<Rightarrow> 'w agent" where
  "push_tool_result c content s = s\<lparr>ag_transcript := ag_transcript s @ [tool_result_message c content]\<rparr>"

text \<open>A result joins the transcript and the events.\<close>

definition answer_call :: "agent_tool_call \<Rightarrow> bytes \<Rightarrow> bool \<Rightarrow> 'w agent \<Rightarrow> 'w agent" where
  "answer_call c content is_error s =
     emit_event (ToolResultEvent (tc_name c) content is_error) (push_tool_result c content s)"

definition rejected_text :: "bytes \<Rightarrow> bytes" where
  "rejected_text why = ''REJECTED by operator: '' @ why"

definition execute_call :: "'w agent_service \<Rightarrow> agent_tool_call \<Rightarrow> 'w agent \<Rightarrow> (agent_error + unit) \<times> 'w agent" where
  "execute_call svc c s =
     (case as_call_tool svc (tc_name c) (tc_arguments c) (ag_world s) of
        (w, Inl err) \<Rightarrow> (Inl err, log_effect (Executed c) (s\<lparr>ag_world := w\<rparr>))
      | (w, Inr res) \<Rightarrow>
          (Inr (), answer_call c (to_content res) (to_is_error res) (log_effect (Executed c) (s\<lparr>ag_world := w\<rparr>))))"

definition attempt_call ::
  "'w agent_service \<Rightarrow> (bytes \<rightharpoonup> bool) \<Rightarrow> agent_tool_call \<Rightarrow> 'w agent \<Rightarrow> (agent_error + unit) \<times> 'w agent" where
  "attempt_call svc effectful c s =
     (let preview = as_approval_preview svc (tc_name c) (tc_arguments c);
          s1 = emit_event (ToolCallEvent (tc_name c) preview) s
      in if (case effectful (tc_name c) of Some b \<Rightarrow> b | None \<Rightarrow> True)
         then (let s2 = emit_event (ApprovalRequested (tc_id c) (tc_name c) preview) s1 in
               case as_authorize svc c (ag_world s2) of
                 (w, Rejected why) \<Rightarrow>
                   (Inr (), answer_call c (rejected_text why) True
                      (emit_event (ApprovalRejected (tc_name c) why)
                        (log_effect (Asked c (Rejected why)) (s2\<lparr>ag_world := w\<rparr>))))
               | (w, Approved) \<Rightarrow> execute_call svc c (log_effect (Asked c Approved) (s2\<lparr>ag_world := w\<rparr>)))
         else execute_call svc c s1)"

text \<open>The tool calls of one turn, with the stop that has fired and the calls made so far.\<close>

fun process_calls ::
  "'w agent_service \<Rightarrow> agent_run_config \<Rightarrow> (bytes \<rightharpoonup> bool) \<Rightarrow> agent_tool_call list \<Rightarrow> stop_reason option \<Rightarrow> u32 \<Rightarrow>
   'w agent \<Rightarrow> (agent_error + stop_reason option \<times> u32) \<times> 'w agent" where
  "process_calls svc cfg effectful [] stop made s = (Inr (stop, made), s)"
| "process_calls svc cfg effectful (c # cs) stop made s =
     (let stop' = (if stop = None \<and> max_tool_calls cfg \<le> made then Some ToolCallCapReached else stop) in
      case stop' of
        Some reason \<Rightarrow>
          process_calls svc cfg effectful cs stop' made (answer_call c (not_executed_label reason) True s)
      | None \<Rightarrow>
          (case attempt_call svc effectful c s of
             (Inl err, s') \<Rightarrow> (Inl err, s')
           | (Inr _, s') \<Rightarrow> process_calls svc cfg effectful cs None (made + 1) s'))"

definition over_budget :: "agent_run_config \<Rightarrow> u64 \<Rightarrow> bool" where
  "over_budget cfg tokens = (case token_budget cfg of None \<Rightarrow> False | Some budget \<Rightarrow> budget < tokens)"

text \<open>The steps that remain; the first argument counts them down.\<close>

fun agent_steps ::
  "nat \<Rightarrow> 'w agent_service \<Rightarrow> agent_run_config \<Rightarrow> canonical_tool list \<Rightarrow> (bytes \<rightharpoonup> bool) \<Rightarrow> u32 \<Rightarrow> u64 \<Rightarrow> u32 \<Rightarrow>
   'w agent \<Rightarrow> (agent_error + agent_outcome) \<times> 'w agent" where
  "agent_steps 0 svc cfg defs effectful step tokens made s =
     (Inr (Stopped StepCapReached (max (max_steps cfg) 1) made), s)"
| "agent_steps (Suc n) svc cfg defs effectful step tokens made s =
     (case as_complete svc (ag_transcript s) defs (ag_world s) of
        (w, Inl err) \<Rightarrow> (Inl err, s\<lparr>ag_world := w\<rparr>)
      | (w, Inr turn) \<Rightarrow>
          let tokens' = saturating_add tokens (mt_usage_tokens turn);
              s1 = log_effect (Completed turn)
                     (s\<lparr>ag_world := w, ag_transcript := ag_transcript s @ [mt_assistant turn]\<rparr>);
              s2 = (if turn_text turn = [] then s1 else emit_event (AssistantText (turn_text turn)) s1);
              over = over_budget cfg tokens'
          in if mt_tool_calls turn = []
             then (Inr (if over then Stopped BudgetExceeded step made else Done (turn_text turn) step made), s2)
             else case process_calls svc cfg effectful (mt_tool_calls turn)
                         (if over then Some BudgetExceeded else None) made s2 of
                    (Inl err, s3) \<Rightarrow> (Inl err, s3)
                  | (Inr (Some reason, made'), s3) \<Rightarrow> (Inr (Stopped reason step made'), s3)
                  | (Inr (None, made'), s3) \<Rightarrow> agent_steps n svc cfg defs effectful (step + 1) tokens' made' s3)"

text \<open>A later tool of the same name overwrites an earlier one in the map of side effects.\<close>

definition side_effects_of :: "agent_tool list \<Rightarrow> (bytes \<rightharpoonup> bool)" where
  "side_effects_of tools = map_of (rev (map (\<lambda>t. (ct_name (at_definition t), at_side_effects t)) tools))"

definition run_agent ::
  "'w agent_service \<Rightarrow> agent_run_config \<Rightarrow> 'w agent \<Rightarrow> (agent_error + agent_outcome) \<times> 'w agent" where
  "run_agent svc cfg s =
     (case as_available_tools svc (ag_world s) of
        (w, Inl err) \<Rightarrow> (Inl err, s\<lparr>ag_world := w\<rparr>)
      | (w, Inr tools) \<Rightarrow>
          agent_steps (unat (max (max_steps cfg) 1)) svc cfg (map at_definition tools) (side_effects_of tools)
            1 0 0 (s\<lparr>ag_world := w\<rparr>))"

section \<open>What the trail of a run looks like\<close>

definition turns_of :: "agent_effect list \<Rightarrow> model_turn list" where
  "turns_of t = List.map_filter (\<lambda>x. case x of Completed turn \<Rightarrow> Some turn | _ \<Rightarrow> None) t"

definition executions :: "agent_effect list \<Rightarrow> nat" where
  "executions t = length (filter (\<lambda>x. case x of Executed _ \<Rightarrow> True | _ \<Rightarrow> False) t)"

definition tokens_of :: "agent_effect list \<Rightarrow> u64" where
  "tokens_of t = fold (\<lambda>turn used. saturating_add used (mt_usage_tokens turn)) (turns_of t) 0"

text \<open>An execution had no side effects to approve, or was approved just before, and was within the budget.\<close>

definition governed :: "agent_run_config \<Rightarrow> (bytes \<rightharpoonup> bool) \<Rightarrow> agent_effect list \<Rightarrow> bool" where
  "governed cfg effectful t \<longleftrightarrow>
     (\<forall>pre c post. t = pre @ Executed c # post \<longrightarrow>
        (effectful (tc_name c) = Some False \<or> (\<exists>pre'. pre = pre' @ [Asked c Approved])) \<and>
        \<not> over_budget cfg (tokens_of pre))"

lemma trail_simps [simp]:
  "turns_of [] = []" "turns_of (t @ u) = turns_of t @ turns_of u"
  "turns_of (Completed turn # t) = turn # turns_of t" "turns_of (Asked c d # t) = turns_of t"
  "turns_of (Executed c # t) = turns_of t"
  "executions [] = 0" "executions (t @ u) = executions t + executions u"
  "executions (Completed turn # t) = executions t" "executions (Asked c d # t) = executions t"
  "executions (Executed c # t) = executions t + 1"
  "tokens_of [] = 0" "tokens_of (t @ [Completed turn]) = saturating_add (tokens_of t) (mt_usage_tokens turn)"
  "tokens_of (t @ [Asked c d]) = tokens_of t" "tokens_of (t @ [Executed c]) = tokens_of t"
  "tokens_of (t @ [Asked c d, Executed c']) = tokens_of t"
  by (simp_all add: turns_of_def executions_def tokens_of_def List.map_filter_def)

lemma governed_Nil [simp]: "governed cfg effectful []"
  by (simp add: governed_def)

lemma snoc_split:
  "t @ [x] = pre @ y # post \<longleftrightarrow> post = [] \<and> x = y \<and> pre = t \<or> (\<exists>post'. post = post' @ [x] \<and> t = pre @ y # post')"
  by (cases post rule: rev_cases) auto

lemma governed_snoc:
  "governed cfg effectful (t @ [x]) \<longleftrightarrow> governed cfg effectful t \<and>
     (\<forall>c. x = Executed c \<longrightarrow>
        (effectful (tc_name c) = Some False \<or> (\<exists>t'. t = t' @ [Asked c Approved])) \<and> \<not> over_budget cfg (tokens_of t))"
  unfolding governed_def snoc_split by blast

lemma governed_approved:
  "governed cfg effectful t \<Longrightarrow> \<not> over_budget cfg (tokens_of t) \<Longrightarrow>
   governed cfg effectful (t @ [Asked c Approved, Executed c])"
  using governed_snoc[of cfg effectful "t @ [Asked c Approved]" "Executed c"] by (simp add: governed_snoc)

section \<open>One call\<close>

lemma frame_simps [simp]:
  "ag_trail (log_effect x s) = ag_trail s @ [x]" "ag_transcript (log_effect x s) = ag_transcript s"
  "ag_world (log_effect x s) = ag_world s"
  "ag_trail (emit_event ev s) = ag_trail s" "ag_transcript (emit_event ev s) = ag_transcript s"
  "ag_world (emit_event ev s) = ag_world s"
  "ag_trail (answer_call c body b s) = ag_trail s"
  "ag_transcript (answer_call c body b s) = ag_transcript s @ [tool_result_message c body]"
  by (simp_all add: log_effect_def emit_event_def answer_call_def push_tool_result_def)

lemma attempt_call_trail:
  assumes "attempt_call svc effectful c s = (r, s')" "governed cfg effectful (ag_trail s)"
    "\<not> over_budget cfg (tokens_of (ag_trail s))"
  shows "governed cfg effectful (ag_trail s') \<and> turns_of (ag_trail s') = turns_of (ag_trail s) \<and>
    tokens_of (ag_trail s') = tokens_of (ag_trail s) \<and>
    executions (ag_trail s') \<le> executions (ag_trail s) + 1 \<and>
    (\<not> isl r \<longrightarrow> (\<exists>body. ag_transcript s' = ag_transcript s @ [tool_result_message c body]))"
  using assms
  by (auto simp: attempt_call_def execute_call_def Let_def governed_snoc governed_approved
      split: if_splits prod.splits sum.splits approval_decision.splits option.splits)

text \<open>One result for each call, in order.\<close>

definition answers :: "agent_tool_call list \<Rightarrow> 'w agent \<Rightarrow> 'w agent \<Rightarrow> bool" where
  "answers cs s s' \<longleftrightarrow>
     (\<exists>bodies. length bodies = length cs \<and> ag_transcript s' = ag_transcript s @ map2 tool_result_message cs bodies)"

lemma answers_Cons:
  assumes "answers cs s1 s'" "ag_transcript s1 = ag_transcript s @ [tool_result_message c body]"
  shows "answers (c # cs) s s'"
proof -
  obtain bodies where "length bodies = length cs" "ag_transcript s' = ag_transcript s1 @ map2 tool_result_message cs bodies"
    using assms(1) by (auto simp: answers_def)
  with assms(2) have "length (body # bodies) = length (c # cs) \<and>
      ag_transcript s' = ag_transcript s @ map2 tool_result_message (c # cs) (body # bodies)" by simp
  then show ?thesis unfolding answers_def by blast
qed

lemma u32_bound: "unat (n :: u32) < 2 ^ 32"
proof -
  have "unat n < 2 ^ LENGTH(32)" by (rule unsigned_less)
  then show ?thesis by simp
qed

lemma process_calls_trail:
  assumes "process_calls svc cfg effectful cs stop made s = (r, s')" "governed cfg effectful (ag_trail s)"
    "stop = None \<longrightarrow> \<not> over_budget cfg (tokens_of (ag_trail s))"
    "executions (ag_trail s) \<le> unat made" "made \<le> max_tool_calls cfg"
  shows "governed cfg effectful (ag_trail s') \<and> turns_of (ag_trail s') = turns_of (ag_trail s) \<and>
    tokens_of (ag_trail s') = tokens_of (ag_trail s) \<and> executions (ag_trail s') \<le> unat (max_tool_calls cfg) \<and>
    (\<forall>stop' made'. r = Inr (stop', made') \<longrightarrow>
       executions (ag_trail s') \<le> unat made' \<and> made' \<le> max_tool_calls cfg \<and>
       (stop' = None \<longrightarrow> stop = None) \<and> answers cs s s')"
  using assms
proof (induction cs arbitrary: stop made s)
  case Nil
  then show ?case by (auto simp: word_le_nat_alt answers_def)
next
  case (Cons c cs)
  define stop' where "stop' = (if stop = None \<and> max_tool_calls cfg \<le> made then Some ToolCallCapReached else stop)"
  show ?case
  proof (cases stop')
    case (Some reason)
    let ?s1 = "answer_call c (not_executed_label reason) True s"
    have rec: "process_calls svc cfg effectful cs stop' made ?s1 = (r, s')"
      using Cons.prems(1) Some by (simp add: stop'_def[symmetric])
    have "answers cs ?s1 s' \<Longrightarrow> answers (c # cs) s s'" 
      using answers_Cons[of cs ?s1 s' s c "not_executed_label reason"] by simp
    with Cons.IH[OF rec] Cons.prems(2-5) Some show ?thesis by auto
  next
    case None
    then have stop: "stop = None" and room: "made < max_tool_calls cfg"
      by (auto simp: stop'_def not_le split: if_splits)
    have "unat made + 1 < 2 ^ 32"
      using room u32_bound[of "max_tool_calls cfg"] by (simp add: word_less_nat_alt)
    then have inc: "unat (made + 1) = unat made + 1" by (simp add: unat_word_ariths)
    with room have max: "made + 1 \<le> max_tool_calls cfg" by (simp add: word_less_nat_alt word_le_nat_alt)
    obtain r1 s1 where a: "attempt_call svc effectful c s = (r1, s1)" by force
    note t = attempt_call_trail[OF a Cons.prems(2) Cons.prems(3)[rule_format, OF stop]]
    show ?thesis
    proof (cases r1)
      case (Inl e)
      then have "r = Inl e" "s' = s1" using Cons.prems(1) a None by (auto simp: stop'_def[symmetric])
      with t Cons.prems(4) room show ?thesis by (auto simp: word_less_nat_alt)
    next
      case (Inr u)
      then have rec: "process_calls svc cfg effectful cs None (made + 1) s1 = (r, s')"
        using Cons.prems(1) a None by (simp add: stop'_def[symmetric])
      obtain body where body: "ag_transcript s1 = ag_transcript s @ [tool_result_message c body]" using t Inr by auto
      have "executions (ag_trail s1) \<le> unat (made + 1)" using t Cons.prems(4) inc by simp
      moreover have "answers cs s1 s' \<Longrightarrow> answers (c # cs) s s'" by (rule answers_Cons[OF _ body])
      ultimately show ?thesis using Cons.IH[OF rec] t max Cons.prems(3) stop by auto
    qed
  qed
qed

section \<open>The whole run\<close>

fun outcome_steps :: "agent_outcome \<Rightarrow> u32" where
  "outcome_steps (Done _ steps _) = steps"
| "outcome_steps (Stopped _ steps _) = steps"

fun outcome_tool_calls :: "agent_outcome \<Rightarrow> u32" where
  "outcome_tool_calls (Done _ _ made) = made"
| "outcome_tool_calls (Stopped _ _ made) = made"

text \<open>What the turns add to the transcript: each assistant message is followed by one result per call.\<close>

definition answered_turn :: "model_turn \<Rightarrow> bytes list \<Rightarrow> canonical_message list" where
  "answered_turn turn bodies = mt_assistant turn # map2 tool_result_message (mt_tool_calls turn) bodies"

definition transcript_of :: "model_turn list \<Rightarrow> canonical_message list \<Rightarrow> bool" where
  "transcript_of turns ms \<longleftrightarrow>
     (\<exists>bodiess. list_all2 (\<lambda>turn bodies. length bodies = length (mt_tool_calls turn)) turns bodiess \<and>
        ms = concat (map2 answered_turn turns bodiess))"

lemma transcript_of_snoc:
  assumes "transcript_of turns ms" "length bodies = length (mt_tool_calls turn)"
  shows "transcript_of (turns @ [turn]) (ms @ answered_turn turn bodies)"
proof -
  obtain bodiess where t: "list_all2 (\<lambda>turn bodies. length bodies = length (mt_tool_calls turn)) turns bodiess"
    "ms = concat (map2 answered_turn turns bodiess)" using assms(1) by (auto simp: transcript_of_def)
  then have "length turns = length bodiess" by (simp add: list_all2_lengthD)
  with t assms(2) show ?thesis
    unfolding transcript_of_def by (intro exI[of _ "bodiess @ [bodies]"]) (auto intro: list_all2_appendI)
qed

definition run_inv :: "agent_run_config \<Rightarrow> (bytes \<rightharpoonup> bool) \<Rightarrow> canonical_message list \<Rightarrow> u64 \<Rightarrow> u32 \<Rightarrow> 'w agent \<Rightarrow> bool" where
  "run_inv cfg effectful ms0 tokens made s \<longleftrightarrow>
     governed cfg effectful (ag_trail s) \<and> tokens = tokens_of (ag_trail s) \<and>
     executions (ag_trail s) \<le> unat made \<and> made \<le> max_tool_calls cfg \<and>
     (\<exists>ms. ag_transcript s = ms0 @ ms \<and> transcript_of (turns_of (ag_trail s)) ms)"

definition run_post ::
  "agent_run_config \<Rightarrow> (bytes \<rightharpoonup> bool) \<Rightarrow> canonical_message list \<Rightarrow> agent_error + agent_outcome \<Rightarrow> 'w agent \<Rightarrow> bool" where
  "run_post cfg effectful ms0 r s \<longleftrightarrow>
     governed cfg effectful (ag_trail s) \<and> executions (ag_trail s) \<le> unat (max_tool_calls cfg) \<and>
     length (turns_of (ag_trail s)) \<le> unat (max (max_steps cfg) 1) \<and>
     (\<forall>out. r = Inr out \<longrightarrow>
        unat (outcome_steps out) = length (turns_of (ag_trail s)) \<and>
        executions (ag_trail s) \<le> unat (outcome_tool_calls out) \<and> outcome_tool_calls out \<le> max_tool_calls cfg \<and>
        (\<exists>ms. ag_transcript s = ms0 @ ms \<and> transcript_of (turns_of (ag_trail s)) ms))"

lemma run_inv_answered:
  assumes "run_inv cfg effectful ms0 tokens made s" "ag_trail s2 = ag_trail s @ [Completed turn]"
    "ag_transcript s2 = ag_transcript s @ [mt_assistant turn]" "answers (mt_tool_calls turn) s2 s3"
    "turns_of (ag_trail s3) = turns_of (ag_trail s2)"
  shows "\<exists>ms. ag_transcript s3 = ms0 @ ms \<and> transcript_of (turns_of (ag_trail s3)) ms"
proof -
  obtain ms where ms: "ag_transcript s = ms0 @ ms" "transcript_of (turns_of (ag_trail s)) ms"
    using assms(1) by (auto simp: run_inv_def)
  obtain bodies where bodies: "length bodies = length (mt_tool_calls turn)"
    "ag_transcript s3 = ag_transcript s2 @ map2 tool_result_message (mt_tool_calls turn) bodies"
    using assms(4) by (auto simp: answers_def)
  have "ag_transcript s3 = ms0 @ ms @ answered_turn turn bodies"
    using ms(1) bodies(2) assms(3) by (simp add: answered_turn_def)
  with transcript_of_snoc[OF ms(2) bodies(1)] assms(2,5) show ?thesis by auto
qed

lemma agent_steps_post:
  assumes "agent_steps n svc cfg defs effectful step tokens made s = (r, s')"
    "run_inv cfg effectful ms0 tokens made s"
    "length (turns_of (ag_trail s)) + n = unat (max (max_steps cfg) 1)"
    "step = of_nat (length (turns_of (ag_trail s)) + 1)"
  shows "run_post cfg effectful ms0 r s'"
  using assms
proof (induction n arbitrary: step tokens made s)
  case 0
  then show ?case by (auto simp: run_post_def run_inv_def word_le_nat_alt)
next
  case (Suc n)
  let ?M = "unat (max (max_steps cfg) 1)" and ?k = "length (turns_of (ag_trail s))"
  have k: "?k + 1 \<le> ?M" using Suc.prems(3) by simp
  have "?M < 2 ^ 32" using u32_bound[of "max (max_steps cfg) 1"] by simp
  with k have step: "unat step = ?k + 1" unfolding Suc.prems(4) unat_of_nat by simp
  note inv = Suc.prems(2)[unfolded run_inv_def]
  obtain w res where c: "as_complete svc (ag_transcript s) defs (ag_world s) = (w, res)" by force
  show ?case
  proof (cases res)
    case (Inl e)
    with Suc.prems(1) c have "r = Inl e" "s' = s\<lparr>ag_world := w\<rparr>" by auto
    with inv k show ?thesis by (auto simp: run_post_def word_le_nat_alt)
  next
    case (Inr turn)
    define s1 where "s1 = log_effect (Completed turn) (s\<lparr>ag_world := w, ag_transcript := ag_transcript s @ [mt_assistant turn]\<rparr>)"
    define s2 where "s2 = (if turn_text turn = [] then s1 else emit_event (AssistantText (turn_text turn)) s1)"
    define over where "over = over_budget cfg (saturating_add tokens (mt_usage_tokens turn))"
    have t2: "ag_trail s2 = ag_trail s @ [Completed turn]" "ag_transcript s2 = ag_transcript s @ [mt_assistant turn]"
      by (auto simp: s2_def s1_def)
    have g2: "governed cfg effectful (ag_trail s2)" "executions (ag_trail s2) \<le> unat made"
      "tokens_of (ag_trail s2) = saturating_add tokens (mt_usage_tokens turn)"
      "length (turns_of (ag_trail s2)) = ?k + 1"
      using inv by (auto simp: t2 governed_snoc)
    note run = Suc.prems(1)[simplified c Inr agent_steps.simps prod.case sum.case Let_def, folded s1_def s2_def over_def]
    show ?thesis
    proof (cases "mt_tool_calls turn = []")
      case True
      with run have res: "s' = s2" "r = Inr (if over then Stopped BudgetExceeded step made else Done (turn_text turn) step made)"
        by (simp_all add: s1_def s2_def over_def)
      have "answers (mt_tool_calls turn) s2 s2" using True by (simp add: answers_def)
      from run_inv_answered[OF Suc.prems(2) t2 this] g2 inv k step res show ?thesis
        by (auto simp: run_post_def word_le_nat_alt)
    next
      case False
      obtain q s3 where p: "process_calls svc cfg effectful (mt_tool_calls turn)
          (if over then Some BudgetExceeded else None) made s2 = (q, s3)" by force
      have "(if over then Some BudgetExceeded else None) = None \<longrightarrow> \<not> over_budget cfg (tokens_of (ag_trail s2))"
        using g2(3) by (simp add: over_def)
      from process_calls_trail[OF p g2(1) this g2(2)] inv
      have t3: "governed cfg effectful (ag_trail s3)" "turns_of (ag_trail s3) = turns_of (ag_trail s2)"
        "tokens_of (ag_trail s3) = tokens_of (ag_trail s2)" "executions (ag_trail s3) \<le> unat (max_tool_calls cfg)"
        "\<And>stop made'. q = Inr (stop, made') \<Longrightarrow> executions (ag_trail s3) \<le> unat made' \<and> made' \<le> max_tool_calls cfg \<and>
           answers (mt_tool_calls turn) s2 s3"
        by auto
      show ?thesis
      proof (cases q)
        case (Inl e)
        with run p False have "r = Inl e" "s' = s3" by (simp_all add: s1_def s2_def over_def)
        with t3 g2(4) k show ?thesis by (auto simp: run_post_def)
      next
        case q: (Inr sm)
        obtain stop made' where sm: "sm = (stop, made')" by force
        note a = t3(5)[OF q[unfolded sm]]
        note tr = run_inv_answered[OF Suc.prems(2) t2 a[THEN conjunct2, THEN conjunct2] t3(2)]
        show ?thesis
        proof (cases stop)
          case (Some reason)
          with run p False q sm have "r = Inr (Stopped reason step made')" "s' = s3"
            by (simp_all add: s1_def s2_def over_def)
          with tr t3 a g2(4) k step show ?thesis by (auto simp: run_post_def)
        next
          case None
          with run p False q sm have rec: "agent_steps n svc cfg defs effectful (step + 1)
              (saturating_add tokens (mt_usage_tokens turn)) made' s3 = (r, s')"
            by (simp add: s1_def s2_def over_def)
          show ?thesis
          proof (rule Suc.IH[OF rec])
            show "run_inv cfg effectful ms0 (saturating_add tokens (mt_usage_tokens turn)) made' s3"
              using t3(1,3) g2(3) a tr by (simp add: run_inv_def)
            show "length (turns_of (ag_trail s3)) + n = ?M" using t3(2) g2(4) Suc.prems(3) by simp
            show "step + 1 = of_nat (length (turns_of (ag_trail s3)) + 1)"
              using t3(2) g2(4) Suc.prems(4) by simp
          qed
        qed
      qed
    qed
  qed
qed

text \<open>C14: A run ends within its bounds: at most \<open>max_steps\<close> model turns (one when it is zero) and at most
  \<open>max_tool_calls\<close> executions, failed runs included. A call is executed only when the tool is listed without
  side effects or the gate approved that very call just before, and only while the tokens used so far are
  within the budget. When the run returns an outcome, its step count is the number of model turns, its
  tool-call count covers the executions, and every assistant message of the transcript is followed by one
  result for each of its tool calls, in order, executed or not.\<close>

theorem agent_run_governed:
  assumes "run_agent svc cfg s = (r, s')" "as_available_tools svc (ag_world s) = (w, Inr tools)" "ag_trail s = []"
  shows "length (turns_of (ag_trail s')) \<le> max (unat (max_steps cfg)) 1 \<and>
    executions (ag_trail s') \<le> unat (max_tool_calls cfg) \<and>
    (\<forall>pre c post. ag_trail s' = pre @ Executed c # post \<longrightarrow>
       (side_effects_of tools (tc_name c) = Some False \<or> (\<exists>pre'. pre = pre' @ [Asked c Approved])) \<and>
       \<not> over_budget cfg (tokens_of pre)) \<and>
    (\<forall>out. r = Inr out \<longrightarrow>
       unat (outcome_steps out) = length (turns_of (ag_trail s')) \<and>
       executions (ag_trail s') \<le> unat (outcome_tool_calls out) \<and> outcome_tool_calls out \<le> max_tool_calls cfg \<and>
       (\<exists>ms. ag_transcript s' = ag_transcript s @ ms \<and> transcript_of (turns_of (ag_trail s')) ms))"
proof -
  let ?s0 = "s\<lparr>ag_world := w\<rparr>"
  have run: "agent_steps (unat (max (max_steps cfg) 1)) svc cfg (map at_definition tools) (side_effects_of tools)
      1 0 0 ?s0 = (r, s')"
    using assms(1,2) by (simp add: run_agent_def)
  have "run_inv cfg (side_effects_of tools) (ag_transcript s) 0 0 ?s0"
    using assms(3) by (simp add: run_inv_def transcript_of_def)
  from agent_steps_post[OF run this] assms(3)
  have post: "run_post cfg (side_effects_of tools) (ag_transcript s) r s'" by simp
  have "unat (max (max_steps cfg) 1) = max (unat (max_steps cfg)) 1"
    by (simp add: max_def word_le_nat_alt)
  with post show ?thesis unfolding run_post_def governed_def by simp
qed

text \<open>A model that wants to send a mail and then answers, and an operator who approves.\<close>

definition sample_send :: agent_tool_call where
  "sample_send = \<lparr>tc_id = ''1'', tc_name = ''mail.send'', tc_arguments = ''{}''\<rparr>"

definition sample_turn :: "agent_tool_call list \<Rightarrow> model_turn" where
  "sample_turn cs =
     \<lparr>mt_assistant = \<lparr>msg_role = AssistantRole, msg_content = [TextPart ''ok'']\<rparr>, mt_tool_calls = cs,
      mt_usage_tokens = 5\<rparr>"

definition sample_tools :: "agent_tool list" where
  "sample_tools =
     [\<lparr>at_definition = \<lparr>ct_name = ''mail.send'', ct_description = None, ct_parameters = JNull, ct_strict = None\<rparr>,
       at_side_effects = True\<rparr>]"

definition sample_agent_service :: "nat agent_service" where
  "sample_agent_service =
     \<lparr>as_complete = (\<lambda>_ _ w. (w + 1, Inr (sample_turn (if w = 0 then [sample_send] else [])))),
      as_available_tools = (\<lambda>w. (w, Inr sample_tools)), as_approval_preview = (\<lambda>_ a. a),
      as_call_tool = (\<lambda>_ _ w. (w, Inr \<lparr>to_content = ''sent'', to_is_error = False\<rparr>)),
      as_authorize = (\<lambda>_ w. (w, Approved))\<rparr>"

definition sample_cfg :: agent_run_config where
  "sample_cfg = \<lparr>max_steps = 4, max_tool_calls = 1, token_budget = Some 20\<rparr>"

definition sample_agent :: "nat agent" where
  "sample_agent = \<lparr>ag_world = 0, ag_transcript = [], ag_events = [], ag_trail = []\<rparr>"

lemma sample_agent_run:
  "case run_agent sample_agent_service sample_cfg sample_agent of (r, s) \<Rightarrow>
     ag_trail s = [Completed (sample_turn [sample_send]), Asked sample_send Approved] @
       Executed sample_send # [Completed (sample_turn [])] \<and> r = Inr (Done ''ok'' 2 1)"
  by code_simp

theorem agent_run_governed_witness:
  "\<exists>s'. run_agent sample_agent_service sample_cfg sample_agent = (Inr (Done ''ok'' 2 1), s') \<and>
     executions (ag_trail s') \<le> 1 \<and> \<not> over_budget sample_cfg 5 \<and>
     (\<exists>ms. ag_transcript s' = ms \<and> transcript_of [sample_turn [sample_send], sample_turn []] ms)"
proof -
  obtain s' where s': "run_agent sample_agent_service sample_cfg sample_agent = (Inr (Done ''ok'' 2 1), s')"
    and t: "ag_trail s' = [Completed (sample_turn [sample_send]), Asked sample_send Approved] @
      Executed sample_send # [Completed (sample_turn [])]"
    using sample_agent_run by (auto split: prod.splits)
  have tools: "as_available_tools sample_agent_service (ag_world sample_agent) = (0, Inr sample_tools)"
    by (simp add: sample_agent_service_def sample_agent_def)
  have init: "ag_trail sample_agent = []" "ag_transcript sample_agent = []" by (simp_all add: sample_agent_def)
  note all = agent_run_governed[OF s' tools init(1)]
  have "tokens_of [Completed (sample_turn [sample_send]), Asked sample_send Approved] = 5"
    by (simp add: tokens_of_def saturating_add_def sample_turn_def)
  moreover have "\<not> over_budget sample_cfg
      (tokens_of [Completed (sample_turn [sample_send]), Asked sample_send Approved])"
    using all t by blast
  ultimately have "\<not> over_budget sample_cfg 5" by simp
  moreover have "turns_of (ag_trail s') = [sample_turn [sample_send], sample_turn []]" by (simp add: t)
  moreover have "unat (max_tool_calls sample_cfg) = 1" by (simp add: sample_cfg_def)
  ultimately show ?thesis using all init(2) s' by auto
qed

end
