(* ===== verification/Policy_Segment.thy ===== *)
theory Policy_Segment
  imports Prelude Invocation_Data "HOL-Library.Char_ord" "HOL-Library.List_Lexorder"
begin

text \<open>
  The policy-set segmenter of \<open>waygate-authz\<close> (\<open>segment.rs\<close>): it splits Cedar source into statements with a
  byte scanner of its own, cross-checks the result against Cedar's parser, and edits one statement of a
  bundle in place. The parser is a parameter: it refuses a text with a message or returns the \<open>@id\<close>
  annotations of its policies. The theorem states what an edit and a removal do to the statements of the
  bundle.
\<close>

section \<open>Scanning\<close>

abbreviation newline :: char where "newline \<equiv> CHR 0x0A"
abbreviation quote :: char where "quote \<equiv> CHR 0x22"
abbreviation backslash :: char where "backslash \<equiv> CHR 0x5C"
abbreviation slash :: char where "slash \<equiv> CHR 0x2F"
abbreviation semicolon :: char where "semicolon \<equiv> CHR 0x3B"

definition is_ascii_whitespace :: "char \<Rightarrow> bool" where
  "is_ascii_whitespace c \<longleftrightarrow> c \<in> {CHR 0x20, CHR 0x09, newline, CHR 0x0C, CHR 0x0D}"

definition comment_at :: "bytes \<Rightarrow> nat \<Rightarrow> bool" where
  "comment_at bs i \<longleftrightarrow> bs ! i = slash \<and> i + 1 < length bs \<and> bs ! (i + 1) = slash"

function skip_line :: "bytes \<Rightarrow> nat \<Rightarrow> nat" where
  "skip_line bs i = (if i < length bs \<and> bs ! i \<noteq> newline then skip_line bs (i + 1) else i)"
  by pat_completeness auto
termination
  by (relation "measure (\<lambda>(bs, i). length bs - i)") auto

declare skip_line.simps [simp del]

lemma skip_line_ge: "i \<le> skip_line bs i"
  by (induction bs i rule: skip_line.induct) (subst skip_line.simps, auto)

function skip_trivia :: "bytes \<Rightarrow> nat \<Rightarrow> nat" where
  "skip_trivia bs i =
     (if i < length bs
      then if is_ascii_whitespace (bs ! i) then skip_trivia bs (i + 1)
           else if comment_at bs i then skip_trivia bs (skip_line bs (i + 2))
           else i
      else i)"
  by pat_completeness auto
termination
proof (relation "measure (\<lambda>(bs, i). length bs - i)")
  fix bs :: bytes and i
  assume "i < length bs"
  then show "((bs, skip_line bs (i + 2)), bs, i) \<in> measure (\<lambda>(bs, i). length bs - i)"
    using skip_line_ge[of "i + 2" bs] by auto
qed auto

declare skip_trivia.simps [simp del]

function find_statement_end :: "bytes \<Rightarrow> nat \<Rightarrow> bool \<Rightarrow> nat option" where
  "find_statement_end bs i in_string =
     (if i < length bs
      then if in_string
           then if bs ! i = backslash then find_statement_end bs (i + 2) True
                else find_statement_end bs (i + 1) (bs ! i \<noteq> quote)
           else if bs ! i = quote then find_statement_end bs (i + 1) True
           else if comment_at bs i then find_statement_end bs (skip_line bs (i + 2)) False
           else if bs ! i = semicolon then Some i
           else find_statement_end bs (i + 1) False
      else None)"
  by pat_completeness auto
termination
proof (relation "measure (\<lambda>(bs, i, _). length bs - i)")
  fix bs :: bytes and i in_string
  assume "i < length bs"
  then show "((bs, skip_line bs (i + 2), False), bs, i, in_string) \<in> measure (\<lambda>(bs, i, _). length bs - i)"
    using skip_line_ge[of "i + 2" bs] by auto
qed auto

declare find_statement_end.simps [simp del]

text \<open>\<open>str::trim_start\<close> and \<open>str::trim\<close>.\<close>

function trim_start :: "bytes \<Rightarrow> bytes" where
  "trim_start s = (case strip_whitespace s of None \<Rightarrow> s | Some r \<Rightarrow> trim_start r)"
  by pat_completeness auto
termination
  by (relation "measure length") (auto dest: strip_whitespace_shorter)

declare trim_start.simps [simp del]

definition strip_whitespace_end :: "bytes \<Rightarrow> bytes option" where
  "strip_whitespace_end s =
     (case find (\<lambda>w. length w \<le> length s \<and> drop (length s - length w) s = w) utf8_whitespace of
        None \<Rightarrow> None
      | Some w \<Rightarrow> Some (take (length s - length w) s))"

lemma strip_whitespace_end_shorter: "strip_whitespace_end s = Some r \<Longrightarrow> length r < length s"
proof -
  assume "strip_whitespace_end s = Some r"
  then obtain w where w: "w \<in> set utf8_whitespace" "length w \<le> length s" "r = take (length s - length w) s"
    by (auto simp: strip_whitespace_end_def find_Some_iff split: option.splits) (metis nth_mem)
  then show "length r < length s" using utf8_whitespace_nonempty[of w] by (cases s; cases w) auto
qed

function trim_end :: "bytes \<Rightarrow> bytes" where
  "trim_end s = (case strip_whitespace_end s of None \<Rightarrow> s | Some r \<Rightarrow> trim_end r)"
  by pat_completeness auto
termination
  by (relation "measure length") (auto dest: strip_whitespace_end_shorter)

declare trim_end.simps [simp del]

definition trim :: "bytes \<Rightarrow> bytes" where
  "trim s = trim_end (trim_start s)"

text \<open>The annotation value at an \<open>@\<close>.\<close>

definition id_value :: "bytes \<Rightarrow> bytes option" where
  "id_value s =
     (if take 3 s \<noteq> ''@id'' then None
      else case trim_start (drop 3 s) of
             c # r \<Rightarrow>
               if c \<noteq> CHR ''('' then None
               else (case trim_start r of
                       c' # r' \<Rightarrow> if c' = quote \<and> quote \<in> set r' then Some (takeWhile (\<lambda>x. x \<noteq> quote) r') else None
                     | [] \<Rightarrow> None)
           | [] \<Rightarrow> None)"

function statement_id_from :: "bytes \<Rightarrow> nat \<Rightarrow> bool \<Rightarrow> bytes option" where
  "statement_id_from bs i in_string =
     (if i < length bs
      then if in_string
           then if bs ! i = backslash then statement_id_from bs (i + 2) True
                else statement_id_from bs (i + 1) (bs ! i \<noteq> quote)
           else if bs ! i = quote then statement_id_from bs (i + 1) True
           else if comment_at bs i then statement_id_from bs (skip_line bs (i + 2)) False
           else (case (if bs ! i = CHR ''@'' then id_value (drop i bs) else None) of
                   Some v \<Rightarrow> Some v
                 | None \<Rightarrow> statement_id_from bs (i + 1) False)
      else None)"
  by pat_completeness auto
termination
proof (relation "measure (\<lambda>(bs, i, _). length bs - i)")
  fix bs :: bytes and i in_string
  assume "i < length bs"
  then show "((bs, skip_line bs (i + 2), False), bs, i, in_string) \<in> measure (\<lambda>(bs, i, _). length bs - i)"
    using skip_line_ge[of "i + 2" bs] by auto
qed auto

declare statement_id_from.simps [simp del]

definition statement_id :: "bytes \<Rightarrow> bytes option" where
  "statement_id stmt = statement_id_from stmt 0 False"

definition slice :: "bytes \<Rightarrow> nat \<times> nat \<Rightarrow> bytes" where
  "slice bs r = take (snd r - fst r) (drop (fst r) bs)"

record policy_fragment =
  fr_id :: "bytes option"
  fr_leading :: "nat \<times> nat"
  fr_statement :: "nat \<times> nat"

lemma skip_trivia_ge: "i \<le> skip_trivia bs i"
proof (induction bs i rule: skip_trivia.induct)
  case (1 bs i)
  then show ?case
    using skip_line_ge[of "i + 2" bs] by (subst skip_trivia.simps) (auto intro: order_trans)
qed

lemma find_statement_end_bounds: "find_statement_end bs i b = Some k \<Longrightarrow> i \<le> k \<and> k < length bs \<and> bs ! k = semicolon"
proof (induction bs i b rule: find_statement_end.induct)
  case (1 bs i b)
  note simps = find_statement_end.simps[of bs i b]
  show ?case using 1 skip_line_ge[of "i + 2" bs] by (auto simp: simps split: if_splits)
qed

function lex_from :: "bytes \<Rightarrow> nat \<Rightarrow> policy_fragment list" where
  "lex_from bs seg_start =
     (let stmt_start = skip_trivia bs seg_start in
      if length bs \<le> stmt_start then []
      else case find_statement_end bs stmt_start False of
             None \<Rightarrow> []
           | Some semi \<Rightarrow>
               \<lparr>fr_id = statement_id (slice bs (stmt_start, semi + 1)), fr_leading = (seg_start, stmt_start),
                fr_statement = (stmt_start, semi + 1)\<rparr> # lex_from bs (semi + 1))"
  by pat_completeness auto
termination
proof (relation "measure (\<lambda>(bs, i). length bs - i)")
  fix bs seg_start x semi
  assume "x = skip_trivia bs seg_start" "\<not> length bs \<le> x" "find_statement_end bs x False = Some semi"
  then show "((bs, semi + 1), bs, seg_start) \<in> measure (\<lambda>(bs, i). length bs - i)"
    using skip_trivia_ge[of seg_start bs] find_statement_end_bounds[of bs x False semi] by auto
qed auto

declare lex_from.simps [simp del]

definition lex_fragments :: "bytes \<Rightarrow> policy_fragment list" where
  "lex_fragments content = lex_from content 0"

definition trailing_comment_end :: "bytes \<Rightarrow> nat \<Rightarrow> nat" where
  "trailing_comment_end bs i =
     (let j = i + length (takeWhile (\<lambda>c. c = CHR 0x20 \<or> c = CHR 0x09) (drop i bs)) in
      if j < length bs \<and> comment_at bs j
      then (let k = skip_line bs j in if k < length bs then k + 1 else k)
      else i)"

section \<open>Verified segmentation and editing\<close>

datatype segment_error = Parse bytes | Ambiguous | NotFound bytes

fun segment_error_text :: "segment_error \<Rightarrow> bytes" where
  "segment_error_text (Parse e) = ''policy set does not parse as Cedar: '' @ e"
| "segment_error_text Ambiguous =
     ''policy text could not be safely segmented per-policy (it disagrees with the '' @
     ''parser); edit the whole bundle instead''"
| "segment_error_text (NotFound i) = ''no policy with @id '' @ [quote] @ i @ [quote] @ '' in this bundle''"

type_synonym cedar_parser = "bytes \<Rightarrow> bytes + bytes option list"

fun adjacent_equal :: "bytes list \<Rightarrow> bool" where
  "adjacent_equal (x # y # r) \<longleftrightarrow> x = y \<or> adjacent_equal (y # r)"
| "adjacent_equal _ \<longleftrightarrow> False"

definition segment_verified :: "cedar_parser \<Rightarrow> bytes \<Rightarrow> segment_error + policy_fragment list" where
  "segment_verified cedar content =
     (case cedar content of
        Inl e \<Rightarrow> Inl (Parse e)
      | Inr parsed \<Rightarrow>
          let cedar_ids = List.map_filter id parsed;
              fragments = lex_fragments content;
              seg_ids = List.map_filter fr_id fragments
          in if length fragments \<noteq> length parsed then Inl Ambiguous
             else if sort seg_ids \<noteq> sort cedar_ids then Inl Ambiguous
             else if adjacent_equal (sort seg_ids) then Inl Ambiguous
             else Inr fragments)"

definition find_by_id :: "policy_fragment list \<Rightarrow> bytes \<Rightarrow> segment_error + policy_fragment" where
  "find_by_id fragments i =
     (case find (\<lambda>f. fr_id f = Some i) fragments of None \<Rightarrow> Inl (NotFound i) | Some f \<Rightarrow> Inr f)"

definition addressed :: "cedar_parser \<Rightarrow> bytes \<Rightarrow> bytes \<Rightarrow> segment_error + policy_fragment" where
  "addressed cedar content i =
     (case segment_verified cedar content of Inl e \<Rightarrow> Inl e | Inr fragments \<Rightarrow> find_by_id fragments i)"

definition policy_statement :: "cedar_parser \<Rightarrow> bytes \<Rightarrow> bytes \<Rightarrow> segment_error + bytes" where
  "policy_statement cedar content i = map_sum id (\<lambda>f. slice content (fr_statement f)) (addressed cedar content i)"

definition replace_policy :: "cedar_parser \<Rightarrow> bytes \<Rightarrow> bytes \<Rightarrow> bytes \<Rightarrow> segment_error + bytes" where
  "replace_policy cedar content i new_statement =
     map_sum id (\<lambda>f. take (fst (fr_statement f)) content @ new_statement @ drop (snd (fr_statement f)) content)
       (addressed cedar content i)"

definition remove_policy :: "cedar_parser \<Rightarrow> bytes \<Rightarrow> bytes \<Rightarrow> segment_error + bytes" where
  "remove_policy cedar content i =
     map_sum id (\<lambda>f. take (fst (fr_leading f)) content @
                     drop (trailing_comment_end content (snd (fr_statement f))) content)
       (addressed cedar content i)"

definition ends_with :: "bytes \<Rightarrow> bytes \<Rightarrow> bool" where
  "ends_with suf s \<longleftrightarrow> length suf \<le> length s \<and> drop (length s - length suf) s = suf"

definition append_policy :: "cedar_parser \<Rightarrow> bytes \<Rightarrow> bytes \<Rightarrow> segment_error + bytes" where
  "append_policy cedar content new_statement =
     (case segment_verified cedar content of
        Inl e \<Rightarrow> Inl e
      | Inr _ \<Rightarrow>
          let stmt = trim new_statement in
          if content = [] then Inr (stmt @ [newline])
          else let out1 = (if ends_with [newline] content then content else content @ [newline]);
                   out2 = (if ends_with [newline, newline] out1 then out1 else out1 @ [newline])
               in Inr (out2 @ stmt @ [newline]))"

definition ensure_single_policy :: "cedar_parser \<Rightarrow> bytes \<Rightarrow> bytes option \<Rightarrow> bytes + unit" where
  "ensure_single_policy cedar text expected_id =
     (case segment_verified cedar text of
        Inl e \<Rightarrow> Inl (''the submitted policy text is invalid: '' @ segment_error_text e)
      | Inr frags \<Rightarrow>
          (case frags of
             [f] \<Rightarrow>
               (case expected_id of
                  None \<Rightarrow> Inr ()
                | Some want \<Rightarrow>
                    (case fr_id f of
                       Some got \<Rightarrow>
                         if got = want then Inr ()
                         else Inl (''the edited policy's @id must stay '' @ [quote] @ want @ [quote] @
                                   '', got '' @ [quote] @ got @ [quote])
                     | None \<Rightarrow> Inl (''the edited policy must keep its @id('' @ [quote] @ want @ [quote] @ '')'')))
           | _ \<Rightarrow> Inl (''expected exactly one policy, found '' @ decimal (length frags))))"

section \<open>The scanner reads a text from left to right\<close>

lemma skip_line_shift: "skip_line (pre @ xs) (length pre + i) = length pre + skip_line xs i"
proof (induction xs i rule: skip_line.induct)
  case (1 xs i)
  then show ?case
    by (subst (1 2) skip_line.simps) (auto simp: nth_append)
qed

lemma comment_at_shift [simp]: "comment_at (pre @ xs) (length pre + i) = comment_at xs i"
  by (auto simp: comment_at_def nth_append)

lemma skip_trivia_shift: "skip_trivia (pre @ xs) (length pre + i) = length pre + skip_trivia xs i"
proof (induction xs i rule: skip_trivia.induct)
  case (1 xs i)
  then show ?case
    using skip_line_shift[of pre xs "i + 2"]
    by (subst (1 2) skip_trivia.simps) (auto simp: nth_append add.assoc)
qed

lemma find_statement_end_shift:
  "find_statement_end (pre @ xs) (length pre + i) b = map_option ((+) (length pre)) (find_statement_end xs i b)"
proof (induction xs i b rule: find_statement_end.induct)
  case (1 xs i b)
  then show ?case
    using skip_line_shift[of pre xs "i + 2"]
    by (subst (1 2) find_statement_end.simps) (auto simp: nth_append add.assoc)
qed

lemma skip_line_bounds: "i \<le> length bs \<Longrightarrow> skip_line bs i \<le> length bs"
  by (induction bs i rule: skip_line.induct) (subst skip_line.simps, auto)

lemma skip_line_stop:
  "(\<forall>j. i \<le> j \<and> j < skip_line bs i \<longrightarrow> bs ! j \<noteq> newline) \<and>
   (skip_line bs i < length bs \<longrightarrow> bs ! skip_line bs i = newline)"
proof (induction bs i rule: skip_line.induct)
  case (1 bs i)
  show ?case
  proof (cases "i < length bs \<and> bs ! i \<noteq> newline")
    case True
    then have eq: "skip_line bs i = skip_line bs (i + 1)" by (subst skip_line.simps) simp
    show ?thesis using 1[OF True] True unfolding eq
      by (metis Suc_eq_plus1 Suc_leI le_neq_implies_less)
  next
    case False
    then have "skip_line bs i = i" by (subst skip_line.simps) auto
    with False show ?thesis by auto
  qed
qed

lemma skip_line_agree:
  assumes "skip_line xs i \<le> k" "k < length xs" "k < length ys" "\<forall>j\<le>k. ys ! j = xs ! j"
  shows "skip_line ys i = skip_line xs i"
  using assms
proof (induction xs i rule: skip_line.induct)
  case (1 xs i)
  have "i \<le> k" using 1(2) skip_line_ge[of i xs] by simp
  then show ?case
    using 1 by (subst (1 2) skip_line.simps) (auto simp: skip_line.simps[of xs i] split: if_splits)
qed

lemma skip_trivia_stop:
  "skip_trivia bs i < length bs \<Longrightarrow>
   \<not> is_ascii_whitespace (bs ! skip_trivia bs i) \<and> \<not> comment_at bs (skip_trivia bs i)"
proof (induction bs i rule: skip_trivia.induct)
  case (1 bs i)
  note simps = skip_trivia.simps[of bs i]
  show ?case using 1 by (auto simp: simps split: if_splits)
qed

text \<open>The end of a statement depends only on the bytes up to it.\<close>

lemma find_statement_end_agree:
  assumes "find_statement_end xs i b = Some k" "k < length ys" "\<forall>j\<le>k. ys ! j = xs ! j"
  shows "find_statement_end ys i b = Some k"
  using assms
proof (induction xs i b rule: find_statement_end.induct)
  case (1 xs i b)
  have k: "i \<le> k" "k < length xs" using find_statement_end_bounds[OF 1(6)] by auto
  then have here: "i < length xs" "i < length ys" "ys ! i = xs ! i" using 1(7,8) by auto
  show ?case
  proof (cases "\<not> b \<and> xs ! i = slash")
    case False
    with here have "comment_at xs i = False \<or> b" "comment_at ys i = False \<or> b" by (auto simp: comment_at_def)
    with 1 here show ?thesis
      by (subst find_statement_end.simps) (auto simp: find_statement_end.simps[of xs i b] split: if_splits)
  next
    case True
    then have nq: "\<not> b" "xs ! i \<noteq> quote" "xs ! i \<noteq> semicolon" by auto
    show ?thesis
    proof (cases "comment_at xs i")
      case c: True
      then have rec: "find_statement_end xs (skip_line xs (i + 2)) False = Some k"
        using 1(6) here nq by (simp add: find_statement_end.simps[of xs i False])
      then have le: "skip_line xs (i + 2) \<le> k" using find_statement_end_bounds by blast
      then have "i + 1 \<le> k" using skip_line_ge[of "i + 2" xs] by simp
      then have "comment_at ys i" using c here 1(7,8) by (auto simp: comment_at_def)
      moreover have "skip_line ys (i + 2) = skip_line xs (i + 2)"
        using skip_line_agree[OF le k(2) 1(7,8)] .
      ultimately show ?thesis
        using 1(4)[OF here(1) nq(1,2) c rec 1(7,8)] here nq by (subst find_statement_end.simps) simp
    next
      case c: False
      then have rec: "find_statement_end xs (i + 1) False = Some k"
        using 1(6) here nq by (simp add: find_statement_end.simps[of xs i False])
      then have "i + 1 \<le> k" using find_statement_end_bounds by blast
      then have "\<not> comment_at ys i" using c here k 1(7,8) True by (auto simp: comment_at_def)
      then show ?thesis
        using 1(5)[OF here(1) nq(1,2) c nq(3) rec 1(7,8)] here nq by (subst find_statement_end.simps) simp
    qed
  qed
qed

section \<open>Texts between statements, and statements\<close>

text \<open>Blanks and comments that are closed by their newline.\<close>

inductive trivia_text :: "bytes \<Rightarrow> bool" where
  trivia_nil: "trivia_text []"
| trivia_blank: "is_ascii_whitespace c \<Longrightarrow> trivia_text t \<Longrightarrow> trivia_text (c # t)"
| trivia_comment: "newline \<notin> set body \<Longrightarrow> trivia_text t \<Longrightarrow> trivia_text (slash # slash # body @ newline # t)"

inductive_cases trivia_consE: "trivia_text (c # t)"

lemma blank_chars [simp]: "is_ascii_whitespace newline" "\<not> is_ascii_whitespace slash"
  by (simp_all add: is_ascii_whitespace_def)

lemma trivia_append: "trivia_text s \<Longrightarrow> trivia_text t \<Longrightarrow> trivia_text (s @ t)"
  by (induction rule: trivia_text.induct) (auto intro: trivia_text.intros)

lemma skip_line_body: "newline \<notin> set body \<Longrightarrow> skip_line (body @ newline # t) 0 = length body"
proof (induction body)
  case Nil
  show ?case by (subst skip_line.simps) simp
next
  case (Cons c body)
  then have "skip_line ((c # body) @ newline # t) 0 = skip_line ([c] @ body @ newline # t) (length [c] + 0)"
    by (subst skip_line.simps) auto
  also have "\<dots> = length (c # body)" using Cons by (subst skip_line_shift) simp
  finally show ?case .
qed

lemma skip_trivia_over: "trivia_text t \<Longrightarrow> skip_trivia (t @ z) 0 = length t + skip_trivia z 0"
proof (induction rule: trivia_text.induct)
  case trivia_nil
  show ?case by simp
next
  case (trivia_blank c t)
  then have "skip_trivia ((c # t) @ z) 0 = skip_trivia ([c] @ t @ z) (length [c] + 0)"
    by (subst skip_trivia.simps) simp
  with trivia_blank show ?case by (subst (asm) skip_trivia_shift) simp
next
  case (trivia_comment body t)
  let ?pre = "slash # slash # body" and ?all = "slash # slash # body @ newline # t @ z"
  have "skip_line ([slash, slash] @ body @ newline # t @ z) (length [slash, slash] + 0) = 2 + length body"
    using trivia_comment(1) by (subst skip_line_shift) (simp add: skip_line_body)
  then have "skip_trivia ?all 0 = skip_trivia ?all (2 + length body)"
    by (subst skip_trivia.simps) (simp add: comment_at_def numeral_2_eq_2)
  also have "\<dots> = skip_trivia ?all (3 + length body)"
    by (subst skip_trivia.simps) (simp add: nth_append numeral_2_eq_2 numeral_3_eq_3)
  also have "\<dots> = skip_trivia ((?pre @ [newline]) @ t @ z) (length (?pre @ [newline]) + 0)"
    by (simp add: numeral_3_eq_3)
  also have "\<dots> = length (?pre @ [newline]) + (length t + skip_trivia z 0)"
    using trivia_comment by (subst skip_trivia_shift) simp
  finally show ?case by simp
qed

lemma slice_self [simp]: "slice bs (i, i) = []"
  by (simp add: slice_def)

lemma slice_Cons: "i < j \<Longrightarrow> i < length bs \<Longrightarrow> slice bs (i, j) = bs ! i # slice bs (Suc i, j)"
  by (simp add: slice_def Cons_nth_drop_Suc[symmetric] Suc_diff_Suc[symmetric] del: Suc_diff_Suc)

lemma slice_split: "i \<le> k \<Longrightarrow> k \<le> j \<Longrightarrow> slice bs (i, j) = slice bs (i, k) @ slice bs (k, j)"
  using take_add[of "k - i" "j - k" "drop i bs"] by (simp add: slice_def)

lemma skip_trivia_slice: "skip_trivia bs i < length bs \<Longrightarrow> trivia_text (slice bs (i, skip_trivia bs i))"
proof (induction bs i rule: skip_trivia.induct)
  case (1 bs i)
  have i: "i < length bs" using 1(3) skip_trivia_ge[of i bs] by simp
  note step = skip_trivia.simps[of bs i]
  consider (blank) "is_ascii_whitespace (bs ! i)" | (comment) "\<not> is_ascii_whitespace (bs ! i)" "comment_at bs i"
    | (stop) "\<not> is_ascii_whitespace (bs ! i)" "\<not> comment_at bs i" by blast
  then show ?case
  proof cases
    case blank
    then have eq: "skip_trivia bs i = skip_trivia bs (i + 1)" using i step by simp
    have "trivia_text (slice bs (i + 1, skip_trivia bs (i + 1)))" using 1(1)[OF i blank] 1(3) eq by simp
    moreover have "i < skip_trivia bs (i + 1)" using skip_trivia_ge[of "i + 1" bs] by simp
    ultimately show ?thesis using blank i eq by (simp add: slice_Cons trivia_blank)
  next
    case comment
    let ?e = "skip_line bs (i + 2)"
    have eq: "skip_trivia bs i = skip_trivia bs ?e" using i comment step by simp
    let ?j = "skip_trivia bs ?e"
    have j: "?j < length bs" using 1(3) eq by simp
    have e: "i + 2 \<le> ?e" "?e < length bs" using skip_line_ge[of "i + 2" bs] skip_trivia_ge[of ?e bs] j by auto
    have nl: "bs ! ?e = newline" using skip_line_stop[of "i + 2" bs] e by blast
    then have "?j = skip_trivia bs (?e + 1)" using e by (subst skip_trivia.simps) simp
    then have ej: "?e < ?j" using skip_trivia_ge[of "?e + 1" bs] by simp
    have "trivia_text (slice bs (?e, ?j))" using 1(2)[OF i comment j] .
    then have rest: "trivia_text (slice bs (Suc ?e, ?j))"
      using slice_Cons[OF ej e(2)] nl by (auto elim: trivia_consE)
    have body: "newline \<notin> set (slice bs (i + 2, ?e))"
      using skip_line_stop[of "i + 2" bs] e by (auto simp: slice_def in_set_conv_nth)
    have "slice bs (i, ?j) = slash # slash # slice bs (i + 2, ?e) @ newline # slice bs (Suc ?e, ?j)"
      using comment(2) i e ej nl slice_split[of "i + 2" ?e ?j bs] slice_Cons[OF ej e(2)]
      by (simp add: slice_Cons comment_at_def)
    then show ?thesis using eq trivia_comment[OF body rest] by simp
  next
    case stop
    then show ?thesis using step by (simp add: trivia_nil)
  qed
qed

text \<open>One statement, from its first byte to its semicolon.\<close>

definition statement_text :: "bytes \<Rightarrow> bool" where
  "statement_text s \<longleftrightarrow>
     s \<noteq> [] \<and> \<not> is_ascii_whitespace (s ! 0) \<and> \<not> comment_at s 0 \<and>
     find_statement_end s 0 False = Some (length s - 1)"

lemma slice_nth: "i + n < j \<Longrightarrow> j \<le> length bs \<Longrightarrow> slice bs (i, j) ! n = bs ! (i + n)"
  by (simp add: slice_def)

lemma length_slice: "j \<le> length bs \<Longrightarrow> length (slice bs (i, j)) = j - i"
  by (simp add: slice_def)

lemma statement_slice:
  assumes "skip_trivia bs i = p" "p < length bs" "find_statement_end bs p False = Some k"
  shows "statement_text (slice bs (p, k + 1))"
proof -
  let ?s = "slice bs (p, k + 1)"
  have k: "p \<le> k" "k < length bs" using find_statement_end_bounds[OF assms(3)] by auto
  have stop: "\<not> is_ascii_whitespace (bs ! p)" "\<not> comment_at bs p" using skip_trivia_stop[of bs i] assms by auto
  have len: "length ?s = k + 1 - p" using k by (simp add: length_slice)
  have "find_statement_end (take p bs @ drop p bs) (length (take p bs) + 0) False = Some k"
    using assms(2,3) by simp
  then have "find_statement_end (drop p bs) 0 False = Some (k - p)"
    using assms(2) by (subst (asm) find_statement_end_shift) auto
  then have "find_statement_end ?s 0 False = Some (k - p)"
    by (rule find_statement_end_agree) (use k len in \<open>auto simp: slice_nth\<close>)
  moreover have "?s ! 0 = bs ! p" using k by (simp add: slice_nth)
  moreover have "\<not> comment_at ?s 0"
    using stop(2) k len by (auto simp: comment_at_def slice_nth)
  ultimately show ?thesis using stop(1) len k by (auto simp: statement_text_def)
qed

section \<open>The statements of a text\<close>

definition statements_from :: "bytes \<Rightarrow> nat \<Rightarrow> (bytes option \<times> bytes) list" where
  "statements_from bs i = map (\<lambda>f. (fr_id f, slice bs (fr_statement f))) (lex_from bs i)"

definition statements :: "bytes \<Rightarrow> (bytes option \<times> bytes) list" where
  "statements bs = statements_from bs 0"

lemma slice_shift: "slice (pre @ xs) (length pre + i, length pre + j) = slice xs (i, j)"
  by (simp add: slice_def)

lemma statements_from_unfold:
  "statements_from bs i =
     (let p = skip_trivia bs i in
      if length bs \<le> p then []
      else case find_statement_end bs p False of
             None \<Rightarrow> []
           | Some k \<Rightarrow> (statement_id (slice bs (p, k + 1)), slice bs (p, k + 1)) # statements_from bs (k + 1))"
  unfolding statements_from_def by (subst lex_from.simps) (simp add: Let_def split: option.splits)

lemma statements_from_same: "skip_trivia bs i = skip_trivia bs j \<Longrightarrow> statements_from bs i = statements_from bs j"
  by (subst (1 2) statements_from_unfold) simp

lemma statements_from_shift: "statements_from (pre @ xs) (length pre + i) = statements_from xs i"
proof (induction xs i rule: lex_from.induct)
  case (1 xs i)
  let ?p = "skip_trivia xs i"
  show ?case
  proof (cases "?p < length xs \<and> find_statement_end xs ?p False \<noteq> None")
    case True
    then obtain k where k: "find_statement_end xs ?p False = Some k" by auto
    have rec: "statements_from (pre @ xs) (length pre + (k + 1)) = statements_from xs (k + 1)"
      using 1[OF refl _ k] True by simp
    show ?thesis
      using True k rec slice_shift[of pre xs ?p "k + 1"]
      by (subst (1 2) statements_from_unfold)
        (simp add: skip_trivia_shift find_statement_end_shift Let_def add.assoc)
  next
    case False
    then show ?thesis
      by (subst (1 2) statements_from_unfold)
        (auto simp: skip_trivia_shift find_statement_end_shift Let_def split: option.splits)
  qed
qed

lemma statements_drop: "i \<le> length bs \<Longrightarrow> statements (drop i bs) = statements_from bs i"
  using statements_from_shift[of "take i bs" "drop i bs" 0] by (simp add: statements_def min_absorb2)

lemma statements_over_trivia: "trivia_text t \<Longrightarrow> statements (t @ z) = statements z"
proof -
  assume t: "trivia_text t"
  have "skip_trivia (t @ z) 0 = skip_trivia (t @ z) (length t)"
    using skip_trivia_over[OF t, of z] skip_trivia_shift[of t z 0] by simp
  then have "statements_from (t @ z) 0 = statements_from (t @ z) (length t)" by (rule statements_from_same)
  then show ?thesis using statements_from_shift[of t z 0] by (simp add: statements_def)
qed

lemma lex_from_statement:
  assumes "statement_text s"
  shows "lex_from (s @ z) 0 =
    \<lparr>fr_id = statement_id s, fr_leading = (0, 0), fr_statement = (0, length s)\<rparr> # lex_from (s @ z) (length s)"
proof -
  have s: "s \<noteq> []" "\<not> is_ascii_whitespace (s ! 0)" "\<not> comment_at s 0"
    "find_statement_end s 0 False = Some (length s - 1)" using assms by (auto simp: statement_text_def)
  have "0 < length s" using s(1) by simp
  then have inside: "j < length s" if "j \<le> length s - 1" for j using that by linarith
  have "length s - 1 < length (s @ z)" using inside[OF order_refl] unfolding length_append by linarith
  moreover have "\<forall>j\<le>length s - 1. (s @ z) ! j = s ! j"
    using inside by (intro allI impI) (simp only: nth_append if_True)
  ultimately have f: "find_statement_end (s @ z) 0 False = Some (length s - 1)"
    by (rule find_statement_end_agree[OF s(4)])
  have semi: "s ! (length s - 1) = semicolon" using find_statement_end_bounds[OF s(4)] by blast
  have "\<not> comment_at (s @ z) 0"
  proof
    assume c: "comment_at (s @ z) 0"
    then have "length s \<noteq> 1" using semi s(1) by (auto simp: comment_at_def nth_append)
    with c s(1,3) show False by (cases s) (auto simp: comment_at_def nth_append)
  qed
  then have p: "skip_trivia (s @ z) 0 = 0" using s(1,2) by (subst skip_trivia.simps) (auto simp: nth_append)
  have sl: "slice (s @ z) (0, length s) = s" by (simp add: slice_def)
  show ?thesis by (subst lex_from.simps) (use p f s(1) sl in \<open>simp add: Let_def\<close>)
qed

lemma statements_Cons: "statement_text s \<Longrightarrow> statements (s @ z) = (statement_id s, s) # statements z"
  using statements_from_shift[of s z 0]
  by (simp add: statements_def statements_from_def lex_from_statement) (simp add: slice_def)

text \<open>Where fragment \<open>j\<close> of the scan from \<open>i\<close> lies, and what precedes and follows it.\<close>

definition located :: "bytes \<Rightarrow> nat \<Rightarrow> nat \<Rightarrow> policy_fragment \<Rightarrow> bool" where
  "located bs i j f \<longleftrightarrow>
     (\<exists>a p e. fr_leading f = (a, p) \<and> fr_statement f = (p, e) \<and> i \<le> a \<and> a \<le> p \<and> p < e \<and> e \<le> length bs \<and>
        fr_id f = statement_id (slice bs (p, e)) \<and>
        trivia_text (slice bs (a, p)) \<and> statement_text (slice bs (p, e)) \<and>
        (\<forall>z. statements (slice bs (i, a) @ z) = take j (statements_from bs i) @ statements z) \<and>
        statements_from bs e = drop (Suc j) (statements_from bs i))"

lemma lex_from_located: "j < length (lex_from bs i) \<Longrightarrow> located bs i j (lex_from bs i ! j)"
proof (induction bs i arbitrary: j rule: lex_from.induct)
  case (1 bs i)
  let ?p = "skip_trivia bs i"
  from 1(2) obtain k where k: "?p < length bs" "find_statement_end bs ?p False = Some k"
    by (subst (asm) lex_from.simps) (auto simp: Let_def split: if_splits option.splits)
  let ?f = "\<lparr>fr_id = statement_id (slice bs (?p, k + 1)), fr_leading = (i, ?p), fr_statement = (?p, k + 1)\<rparr>"
  have lex: "lex_from bs i = ?f # lex_from bs (k + 1)" using k by (subst lex_from.simps) (simp add: Let_def)
  have st: "statements_from bs i =
      (statement_id (slice bs (?p, k + 1)), slice bs (?p, k + 1)) # statements_from bs (k + 1)"
    by (simp add: statements_from_def lex)
  have b: "i \<le> ?p" "?p \<le> k" "k < length bs"
    using skip_trivia_ge[of i bs] find_statement_end_bounds[OF k(2)] by auto
  have triv: "trivia_text (slice bs (i, ?p))" using skip_trivia_slice k(1) by blast
  have stmt: "statement_text (slice bs (?p, k + 1))" using statement_slice[OF refl k] .
  show ?case
  proof (cases j)
    case 0
    then show ?thesis unfolding located_def lex using b triv stmt st by auto
  next
    case (Suc m)
    then have "located bs (k + 1) m (lex_from bs (k + 1) ! m)" using 1(1)[OF refl _ k(2)] 1(2) k(1) lex by simp
    then obtain a p e where f: "fr_leading (lex_from bs (k + 1) ! m) = (a, p)"
        "fr_statement (lex_from bs (k + 1) ! m) = (p, e)" "k + 1 \<le> a" "a \<le> p" "p < e" "e \<le> length bs"
        "fr_id (lex_from bs (k + 1) ! m) = statement_id (slice bs (p, e))"
        "trivia_text (slice bs (a, p))" "statement_text (slice bs (p, e))"
      and pre: "\<And>z. statements (slice bs (k + 1, a) @ z) = take m (statements_from bs (k + 1)) @ statements z"
      and post: "statements_from bs e = drop (Suc m) (statements_from bs (k + 1))"
      unfolding located_def by blast
    have "slice bs (i, a) = slice bs (i, ?p) @ slice bs (?p, k + 1) @ slice bs (k + 1, a)"
      using b f(3) slice_split[of i ?p a bs] slice_split[of ?p "k + 1" a bs] by simp
    then have "statements (slice bs (i, a) @ z) = take j (statements_from bs i) @ statements z" for z
      using pre[of z] statements_Cons[OF stmt, of "slice bs (k + 1, a) @ z"]
      by (simp add: statements_over_trivia[OF triv] st Suc)
    with f b post show ?thesis unfolding located_def lex Suc by (auto simp: st)
  qed
qed

lemma fragments_join:
  "i \<le> length bs \<Longrightarrow>
   \<exists>rest. drop i bs = concat (map (\<lambda>f. slice bs (fr_leading f) @ slice bs (fr_statement f)) (lex_from bs i)) @ rest"
proof (induction bs i rule: lex_from.induct)
  case (1 bs i)
  let ?p = "skip_trivia bs i"
  show ?case
  proof (cases "?p < length bs \<and> find_statement_end bs ?p False \<noteq> None")
    case True
    then obtain k where k: "?p < length bs" "find_statement_end bs ?p False = Some k" by auto
    have b: "i \<le> ?p" "?p \<le> k" "k < length bs"
      using skip_trivia_ge[of i bs] find_statement_end_bounds[OF k(2)] by auto
    have lex: "lex_from bs i = \<lparr>fr_id = statement_id (slice bs (?p, k + 1)), fr_leading = (i, ?p),
        fr_statement = (?p, k + 1)\<rparr> # lex_from bs (k + 1)"
      using k by (subst lex_from.simps) (simp add: Let_def)
    have "drop i bs = slice bs (i, k + 1) @ drop (k + 1) bs"
      using b append_take_drop_id[of "k + 1 - i" "drop i bs"] by (simp add: slice_def)
    then have "drop i bs = slice bs (i, ?p) @ slice bs (?p, k + 1) @ drop (k + 1) bs"
      using b slice_split[of i ?p "k + 1" bs] by simp
    then show ?thesis using 1(1)[OF refl _ k(2)] k(1) b unfolding lex by auto
  next
    case False
    then have "lex_from bs i = []" by (subst lex_from.simps) (auto simp: Let_def)
    then show ?thesis by simp
  qed
qed

section \<open>The comment behind a removed statement\<close>

lemma skip_trivia_from:
  assumes "i \<le> length bs" "trivia_text (take n (drop i bs))" "i + n \<le> length bs"
  shows "skip_trivia bs (i + n) = skip_trivia bs i"
proof -
  let ?t = "take n (drop i bs)" and ?z = "drop (i + n) bs"
  have z: "drop i bs = ?t @ ?z" by (metis append_take_drop_id add.commute drop_drop)
  have "skip_trivia bs i = i + skip_trivia (drop i bs) 0"
    using skip_trivia_shift[of "take i bs" "drop i bs" 0] assms(1) by (simp add: min_absorb2)
  also have "\<dots> = i + (n + skip_trivia ?z 0)"
    using skip_trivia_over[OF assms(2), of ?z] z assms(3) by (simp add: min_absorb2)
  also have "\<dots> = skip_trivia bs (i + n)"
    using skip_trivia_shift[of "take (i + n) bs" ?z 0] assms(3) by (simp add: min_absorb2)
  finally show ?thesis by simp
qed

lemma blanks_trivia: "\<forall>c\<in>set t. c = CHR 0x20 \<or> c = CHR 0x09 \<Longrightarrow> trivia_text t"
proof (induction t)
  case (Cons c t)
  then have "is_ascii_whitespace c" by (auto simp: is_ascii_whitespace_def)
  with Cons show ?case by (simp add: trivia_blank)
qed (rule trivia_nil)

lemma trailing_comment_is_trivia:
  assumes "e \<le> length bs"
  shows "skip_trivia bs (trailing_comment_end bs e) = skip_trivia bs e \<and> trailing_comment_end bs e \<le> length bs"
proof -
  define w where "w = takeWhile (\<lambda>c. c = CHR 0x20 \<or> c = CHR 0x09) (drop e bs)"
  let ?j = "e + length w"
  have "length w \<le> length (drop e bs)" unfolding w_def by (rule length_takeWhile_le)
  then have j: "?j \<le> length bs" using assms unfolding length_drop by linarith
  have "trivia_text w" unfolding w_def by (rule blanks_trivia) (blast dest: set_takeWhileD)
  moreover have "take (length w) (drop e bs) = w" unfolding w_def by (rule takeWhile_eq_take[symmetric])
  ultimately have blanks: "skip_trivia bs ?j = skip_trivia bs e"
    using skip_trivia_from[OF assms _ j] by (simp only:)
  show ?thesis
  proof (cases "?j < length bs \<and> comment_at bs ?j")
    case False
    then have "trailing_comment_end bs e = e" by (auto simp: trailing_comment_end_def Let_def w_def)
    then show ?thesis using assms by simp
  next
    case True
    let ?k = "skip_line bs ?j"
    have two: "bs ! ?j = slash" "bs ! (?j + 1) = slash" "?j + 1 < length bs" using True by (auto simp: comment_at_def)
    then have "?k = skip_line bs (?j + 2)"
      using skip_line.simps[of bs ?j] skip_line.simps[of bs "?j + 1"] by simp
    then have k: "skip_trivia bs ?j = skip_trivia bs ?k"
      using True two by (subst skip_trivia.simps) simp
    have end': "trailing_comment_end bs e = (if ?k < length bs then ?k + 1 else ?k)"
      using True by (simp add: trailing_comment_end_def Let_def w_def)
    show ?thesis
    proof (cases "?k < length bs")
      case lt: True
      then have "bs ! ?k = newline" using skip_line_stop by blast
      then have "skip_trivia bs ?k = skip_trivia bs (?k + 1)" using lt by (subst skip_trivia.simps) simp
      then show ?thesis using end' lt blanks k by simp
    next
      case False
      then show ?thesis using end' blanks k skip_line_bounds[OF j] by simp
    qed
  qed
qed

section \<open>Addressing by identifier\<close>

lemma adjacent_distinct: "sorted xs \<Longrightarrow> \<not> adjacent_equal xs \<Longrightarrow> distinct xs"
  by (induction xs rule: adjacent_equal.induct) auto

lemma map_filter_unique:
  "distinct (List.map_filter g xs) \<Longrightarrow> a < length xs \<Longrightarrow> b < length xs \<Longrightarrow> g (xs ! a) = Some v \<Longrightarrow>
   g (xs ! b) = Some v \<Longrightarrow> a = b"
proof (induction xs arbitrary: a b)
  case (Cons x xs)
  have mem: "m < length xs \<Longrightarrow> g (xs ! m) = Some v \<Longrightarrow> v \<in> set (List.map_filter g xs)" for m
    by (force simp: map_filter_def)
  show ?case using Cons mem by (cases a; cases b) (auto simp: map_filter_simps split: option.splits)
qed simp

lemma segment_verified_ok:
  assumes "segment_verified cedar content = Inr fs"
  shows "fs = lex_from content 0 \<and> distinct (List.map_filter fr_id fs)"
proof -
  have "fs = lex_from content 0" "\<not> adjacent_equal (sort (List.map_filter fr_id fs))"
    using assms by (auto simp: segment_verified_def lex_fragments_def Let_def split: sum.splits if_splits)
  then show ?thesis using adjacent_distinct[of "sort (List.map_filter fr_id fs)"] by simp
qed

lemma addressed_fragment:
  assumes "segment_verified cedar content = Inr fs" "j < length fs" "fr_id (fs ! j) = Some i"
  shows "addressed cedar content i = Inr (fs ! j)" "\<forall>k<length fs. fr_id (fs ! k) = Some i \<longrightarrow> k = j"
proof -
  have "distinct (List.map_filter fr_id fs)" using segment_verified_ok[OF assms(1)] by blast
  from map_filter_unique[OF this _ assms(2) _ assms(3)]
  show uniq: "\<forall>k<length fs. fr_id (fs ! k) = Some i \<longrightarrow> k = j" by blast
  have "find (\<lambda>f. fr_id f = Some i) fs = Some (fs ! j)"
    using assms(2,3) uniq unfolding find_Some_iff by (metis less_trans nat_neq_iff)
  then show "addressed cedar content i = Inr (fs ! j)" using assms(1) by (simp add: addressed_def find_by_id_def)
qed

section \<open>Edits\<close>

text \<open>
  The text behind the last statement is closed: a further byte would be read as the start of a statement and
  not as part of a comment.
\<close>

definition ends_closed :: "bytes \<Rightarrow> bool" where
  "ends_closed text =
     (case rev (lex_fragments text) of
        [] \<Rightarrow> False
      | f # _ \<Rightarrow> skip_trivia (text @ ''x'') (snd (fr_statement f)) = length text)"

lemma single_policy:
  assumes "ensure_single_policy cedar new (Some i) = Inr ()"
  obtains lead stmt rest where "new = lead @ stmt @ rest" "trivia_text lead" "statement_text stmt"
    "statement_id stmt = Some i" "statements new = [(Some i, stmt)]" "ends_closed new \<longrightarrow> trivia_text rest"
proof -
  obtain f where seg: "segment_verified cedar new = Inr [f]" and i: "fr_id f = Some i"
    using assms by (auto simp: ensure_single_policy_def split: sum.splits list.splits option.splits if_splits)
  have lex: "lex_from new 0 = [f]" using segment_verified_ok[OF seg] by simp
  then have loc: "located new 0 0 f" using lex_from_located[of 0 new 0] by simp
  then obtain a p e where f: "fr_leading f = (a, p)" "fr_statement f = (p, e)" "a \<le> p" "p < e" "e \<le> length new"
      "fr_id f = statement_id (slice new (p, e))" "trivia_text (slice new (a, p))"
      "statement_text (slice new (p, e))"
    unfolding located_def by blast
  have "a = 0" using lex f(1) by (subst (asm) lex_from.simps) (auto simp: Let_def split: if_splits option.splits)
  then have "take p new = slice new (a, p)" by (simp add: slice_def)
  moreover have "drop p new = slice new (p, e) @ drop e new"
    using f(4) append_take_drop_id[of "e - p" "drop p new"] by (simp add: slice_def)
  ultimately have new: "new = slice new (a, p) @ slice new (p, e) @ drop e new"
    by (metis append_take_drop_id)
  have st: "statements new = [(Some i, slice new (p, e))]"
    by (simp add: statements_def statements_from_def lex i f(2))
  have "trivia_text (drop e new)" if "ends_closed new"
  proof -
    have "skip_trivia (new @ ''x'') e = length new" using that by (simp add: ends_closed_def lex_fragments_def lex f(2))
    then show ?thesis using skip_trivia_slice[of "new @ ''x''" e] f(5) by (simp add: slice_def)
  qed
  then show thesis using that[OF new f(7,8)] f(6) i st by simp
qed

text \<open>The place of an addressed fragment, with the statements in front of it and behind it.\<close>

lemma addressed_place:
  assumes "segment_verified cedar content = Inr fs" "j < length fs" "fr_id (fs ! j) = Some i"
  obtains a p e where "addressed cedar content i = Inr (fs ! j)" "fr_leading (fs ! j) = (a, p)"
    "fr_statement (fs ! j) = (p, e)" "p < e" "e \<le> length content" "trivia_text (slice content (a, p))"
    "take p content = take a content @ slice content (a, p)"
    "\<And>z. statements (take a content @ z) = take j (statements content) @ statements z"
    "statements_from content e = drop (Suc j) (statements content)"
    "j < length (statements content)" "statements content ! j = (Some i, slice content (p, e))"
proof -
  have fs: "fs = lex_from content 0" using segment_verified_ok[OF assms(1)] by blast
  then have "located content 0 j (fs ! j)" using lex_from_located assms(2) by blast
  then obtain a p e where f: "fr_leading (fs ! j) = (a, p)" "fr_statement (fs ! j) = (p, e)" "a \<le> p" "p < e"
      "e \<le> length content" "trivia_text (slice content (a, p))"
    and pre: "\<And>z. statements (slice content (0, a) @ z) = take j (statements content) @ statements z"
    and post: "statements_from content e = drop (Suc j) (statements content)"
    unfolding located_def statements_def by blast
  have "take p content = take a content @ slice content (a, p)" "take a content = slice content (0, a)"
    using f(3) slice_split[of 0 a p content] by (simp_all add: slice_def)
  moreover have "j < length (statements content)" "statements content ! j = (Some i, slice content (p, e))"
    using assms(2,3) fs f(2) by (simp_all add: statements_def statements_from_def)
  ultimately show thesis
    using that[OF addressed_fragment(1)[OF assms] f(1,2,4,5,6)] pre post by simp
qed

lemma replace_statement:
  assumes seg: "segment_verified cedar content = Inr fs" "j < length fs" "fr_id (fs ! j) = Some i"
    and single: "ensure_single_policy cedar new (Some i) = Inr ()" and closed: "ends_closed new"
  shows "\<exists>out stmt. replace_policy cedar content i new = Inr out \<and> statements new = [(Some i, stmt)] \<and>
    statements out = (statements content)[j := (Some i, stmt)]"
proof -
  obtain a p e where at: "addressed cedar content i = Inr (fs ! j)" "fr_statement (fs ! j) = (p, e)"
      "e \<le> length content" "trivia_text (slice content (a, p))"
      "take p content = take a content @ slice content (a, p)" "j < length (statements content)"
    and pre: "\<And>z. statements (take a content @ z) = take j (statements content) @ statements z"
    and post: "statements_from content e = drop (Suc j) (statements content)"
    using addressed_place[OF seg] by metis
  from single_policy[OF single] closed obtain lead stmt rest where new: "new = lead @ stmt @ rest"
      "trivia_text lead" "statement_text stmt" "statement_id stmt = Some i" "statements new = [(Some i, stmt)]"
      "trivia_text rest" by metis
  have "statements (drop e content) = drop (Suc j) (statements content)" using post at(3) by (simp add: statements_drop)
  then have "statements (take p content @ new @ drop e content) =
      take j (statements content) @ (Some i, stmt) # drop (Suc j) (statements content)"
    by (simp add: new(1) at(5) pre statements_over_trivia at(4) new(2,6) statements_Cons[OF new(3)] new(4))
  then show ?thesis using at new(5) by (simp add: replace_policy_def upd_conv_take_nth_drop)
qed

lemma remove_statement:
  assumes "segment_verified cedar content = Inr fs" "j < length fs" "fr_id (fs ! j) = Some i"
  shows "\<exists>out. remove_policy cedar content i = Inr out \<and>
    statements out = take j (statements content) @ drop (Suc j) (statements content)"
proof -
  obtain a p e where at: "addressed cedar content i = Inr (fs ! j)" "fr_leading (fs ! j) = (a, p)"
      "fr_statement (fs ! j) = (p, e)" "e \<le> length content"
    and pre: "\<And>z. statements (take a content @ z) = take j (statements content) @ statements z"
    and post: "statements_from content e = drop (Suc j) (statements content)"
    using addressed_place[OF assms] by metis
  let ?t = "trailing_comment_end content e"
  have t: "skip_trivia content ?t = skip_trivia content e" "?t \<le> length content"
    using trailing_comment_is_trivia[OF at(4)] by auto
  have "statements (drop ?t content) = drop (Suc j) (statements content)"
    using t(2) post statements_from_same[OF t(1)] by (simp add: statements_drop)
  then show ?thesis using at by (simp add: remove_policy_def pre)
qed

lemma shown_statement_roundtrip:
  assumes "segment_verified cedar content = Inr fs" "j < length fs" "fr_id (fs ! j) = Some i"
  shows "\<exists>stmt. policy_statement cedar content i = Inr stmt \<and> statements content ! j = (Some i, stmt) \<and>
    replace_policy cedar content i stmt = Inr content"
proof -
  obtain p e where at: "addressed cedar content i = Inr (fs ! j)" "fr_statement (fs ! j) = (p, e)" "p < e"
      "statements content ! j = (Some i, slice content (p, e))"
    using addressed_place[OF assms] by metis
  have "take p content @ slice content (p, e) @ drop e content = content"
    using at(3) append_take_drop_id[of p content] append_take_drop_id[of "e - p" "drop p content"]
    by (simp add: slice_def)
  then show ?thesis using at by (simp add: policy_statement_def replace_policy_def)
qed

lemma append_policy_extends:
  "segment_verified cedar content = Inr fs \<Longrightarrow> \<exists>added. append_policy cedar content new = Inr (content @ added)"
  by (auto simp: append_policy_def Let_def)

text \<open>C13: In a bundle whose segmentation agrees with Cedar's parser, the fragments joined give the bundle back
  up to its tail, and an identifier addresses one fragment. Replacing it by a text that passes the one-policy
  check and leaves no comment open replaces that statement in the list of statements of the bundle and keeps
  every other; removing it removes exactly that statement, with a comment on its line; writing back the text
  the editor was shown changes nothing; and appending keeps every byte of the bundle.\<close>

theorem policy_edit_touches_one_statement:
  assumes "segment_verified cedar content = Inr fs" "j < length fs" "fr_id (fs ! j) = Some i"
  shows "(\<exists>rest. content = concat (map (\<lambda>f. slice content (fr_leading f) @ slice content (fr_statement f)) fs) @ rest) \<and>
    (\<forall>k<length fs. fr_id (fs ! k) = Some i \<longrightarrow> k = j) \<and>
    (\<forall>new. ensure_single_policy cedar new (Some i) = Inr () \<longrightarrow> ends_closed new \<longrightarrow>
       (\<exists>out stmt. replace_policy cedar content i new = Inr out \<and> statements new = [(Some i, stmt)] \<and>
          statements out = (statements content)[j := (Some i, stmt)])) \<and>
    (\<exists>out. remove_policy cedar content i = Inr out \<and>
       statements out = take j (statements content) @ drop (Suc j) (statements content)) \<and>
    (\<exists>stmt. policy_statement cedar content i = Inr stmt \<and> statements content ! j = (Some i, stmt) \<and>
       replace_policy cedar content i stmt = Inr content) \<and>
    (\<forall>new. \<exists>added. append_policy cedar content new = Inr (content @ added))"
proof (intro conjI allI impI)
  show "\<exists>rest. content = concat (map (\<lambda>f. slice content (fr_leading f) @ slice content (fr_statement f)) fs) @ rest"
    using fragments_join[of 0 content] segment_verified_ok[OF assms(1)] by simp
qed (use assms addressed_fragment(2)[OF assms] replace_statement[OF assms] remove_statement[OF assms]
      shown_statement_roundtrip[OF assms] append_policy_extends[OF assms(1)] in blast)+

section \<open>A bundle of two policies\<close>

definition sample_policy :: "bytes \<Rightarrow> bytes \<Rightarrow> bytes" where
  "sample_policy i effect = ''@id('' @ [quote] @ i @ [quote] @ '') '' @ effect @ ''(principal,action,resource);''"

definition sample_live :: bytes where
  "sample_live = sample_policy ''a'' ''permit'' @ '' '' @ sample_policy ''b'' ''forbid''"

definition sample_edit :: bytes where
  "sample_edit = sample_policy ''a'' ''forbid''"

definition sample_noted :: bytes where
  "sample_noted = sample_edit @ '' // note''"

text \<open>What a parser of Cedar answers on these texts.\<close>

definition sample_cedar :: cedar_parser where
  "sample_cedar t =
     (if t = sample_live then Inr [Some ''a'', Some ''b'']
      else if t = sample_edit \<or> t = sample_noted then Inr [Some ''a'']
      else Inl ''unexpected token'')"

lemma find_end_plain:
  "\<forall>c\<in>set t. c \<notin> {quote, slash, semicolon} \<Longrightarrow>
   find_statement_end (t @ z) 0 False = map_option ((+) (length t)) (find_statement_end z 0 False)"
proof (induction t)
  case (Cons c t)
  then have "find_statement_end ((c # t) @ z) 0 False = find_statement_end ([c] @ t @ z) (length [c] + 0) False"
    by (subst find_statement_end.simps) (auto simp: comment_at_def)
  with Cons show ?case
    by (subst (asm) find_statement_end_shift) (simp add: option.map_comp comp_def)
qed (cases "find_statement_end z 0 False"; simp)

lemma find_end_quoted:
  "\<forall>c\<in>set t. c \<notin> {quote, backslash} \<Longrightarrow>
   find_statement_end (t @ quote # z) 0 True = map_option ((+) (Suc (length t))) (find_statement_end z 0 False)"
proof (induction t)
  case Nil
  have "find_statement_end (quote # z) 0 True = find_statement_end ([quote] @ z) (length [quote] + 0) False"
    by (subst find_statement_end.simps) simp
  then show ?case
    by (subst (asm) find_statement_end_shift) (cases "find_statement_end z 0 False"; simp)
next
  case (Cons c t)
  then have "find_statement_end ((c # t) @ quote # z) 0 True =
      find_statement_end ([c] @ t @ quote # z) (length [c] + 0) True"
    by (subst find_statement_end.simps) auto
  with Cons show ?case
    by (subst (asm) find_statement_end_shift) (simp add: option.map_comp comp_def)
qed

lemma find_end_open_quote:
  "find_statement_end (quote # z) 0 False = map_option Suc (find_statement_end z 0 True)"
  using find_statement_end_shift[of "[quote]" z 0 True]
  by (subst find_statement_end.simps) (cases "find_statement_end z 0 True"; simp)

lemma find_end_semicolon: "find_statement_end (semicolon # z) 0 False = Some 0"
  by (subst find_statement_end.simps) (simp add: comment_at_def)

lemma sample_statement:
  assumes "\<forall>c\<in>set i. c \<notin> {quote, backslash}" "\<forall>c\<in>set eff. c \<notin> {quote, slash, semicolon}"
  shows "statement_text (sample_policy i eff)"
proof -
  let ?q = "'') '' @ eff @ ''(principal,action,resource)''"
  have s: "sample_policy i eff = ''@id('' @ quote # i @ quote # ?q @ [semicolon]"
    by (simp add: sample_policy_def)
  have q: "\<forall>c\<in>set ?q. c \<notin> {quote, slash, semicolon}" using assms(2) by simp
  have "find_statement_end (''@id('' @ quote # i @ quote # ?q @ [semicolon]) 0 False =
      Some (length (sample_policy i eff) - 1)"
    using find_end_plain[OF q, of "[semicolon]"]
    by (subst find_end_plain) (simp_all add: find_end_open_quote find_end_quoted[OF assms(1)] find_end_semicolon s)
  then show ?thesis by (simp add: statement_text_def s is_ascii_whitespace_def comment_at_def)
qed

lemma whitespace_heads:
  "\<forall>w\<in>set utf8_whitespace. of_char (hd w) \<in> {9, 10, 11, 12, 13, 32, 194, 225, 226, 227 :: nat}"
  by (simp add: utf8_whitespace_def)

lemma trim_start_visible:
  assumes "of_char c \<notin> {9, 10, 11, 12, 13, 32, 194, 225, 226, 227 :: nat}"
  shows "trim_start (c # r) = c # r"
proof -
  have "take (length w) (c # r) \<noteq> w" if "w \<in> set utf8_whitespace" for w
  proof
    assume "take (length w) (c # r) = w"
    moreover have "w \<noteq> []" using that utf8_whitespace_nonempty by blast
    ultimately have "hd w = c" by (cases w) auto
    then show False using whitespace_heads that assms by blast
  qed
  then have "find (\<lambda>w. take (length w) (c # r) = w) utf8_whitespace = None" unfolding find_None_iff by blast
  then have "strip_whitespace (c # r) = None" unfolding strip_whitespace_def by simp
  then show ?thesis by (subst trim_start.simps) simp
qed

lemma sample_id:
  assumes "quote \<notin> set i"
  shows "statement_id (sample_policy i eff) = Some i"
proof -
  obtain rest where s: "sample_policy i eff = CHR ''@'' # ''id('' @ quote # i @ quote # rest"
    by (simp add: sample_policy_def)
  have "takeWhile (\<lambda>x. x \<noteq> quote) (i @ quote # rest) = i" using assms by (subst takeWhile_append2) auto
  then have "id_value (sample_policy i eff) = Some i" by (simp add: id_value_def s trim_start_visible of_char_def)
  then show ?thesis
    unfolding statement_id_def by (subst statement_id_from.simps) (simp add: s comment_at_def)
qed

lemma sample_ids:
  "statement_id (sample_policy ''a'' ''permit'') = Some ''a''" "statement_id (sample_policy ''b'' ''forbid'') = Some ''b''"
  "statement_id (sample_policy ''a'' ''forbid'') = Some ''a''"
  by (simp_all add: sample_id)

lemma adjacent_equal_repeats: "adjacent_equal xs \<Longrightarrow> \<not> distinct xs"
  by (induction xs rule: adjacent_equal.induct) auto

text \<open>A text whose statements carry the identifiers the parser reports, without repetition, is segmented.\<close>

lemma segment_verified_agrees:
  assumes "cedar t = Inr (map fst (statements t))" "distinct (List.map_filter fst (statements t))"
  shows "segment_verified cedar t = Inr (lex_fragments t)"
proof -
  have "map fst (statements t) = map fr_id (lex_fragments t)"
    by (simp add: statements_def statements_from_def lex_fragments_def)
  moreover have "List.map_filter fst (statements t) = List.map_filter fr_id (lex_fragments t)"
    by (simp add: statements_def statements_from_def lex_fragments_def map_filter_def filter_map comp_def)
  moreover have "List.map_filter id (map fr_id (lex_fragments t)) = List.map_filter fr_id (lex_fragments t)"
    by (simp add: map_filter_def filter_map comp_def)
  ultimately show ?thesis
    using assms adjacent_equal_repeats[of "sort (List.map_filter fr_id (lex_fragments t))"]
    by (auto simp: segment_verified_def Let_def)
qed

lemma statements_Nil [simp]: "statements [] = []"
  by code_simp

lemma sample_statement_texts:
  "statement_text (sample_policy ''a'' ''permit'')" "statement_text (sample_policy ''b'' ''forbid'')"
  "statement_text sample_edit"
  by (simp_all add: sample_statement sample_edit_def)

lemma sample_open_comment: "statements '' // note'' = []" "statements ('' // note '' @ sample_policy ''b'' ''forbid'') = []"
  by code_simp+

lemma sample_statements:
  "statements sample_live = [(Some ''a'', sample_policy ''a'' ''permit''), (Some ''b'', sample_policy ''b'' ''forbid'')]"
  "statements sample_edit = [(Some ''a'', sample_edit)]"
  "statements sample_noted = [(Some ''a'', sample_edit)]"
proof -
  have "trivia_text '' ''" by (intro trivia_blank trivia_nil) (simp add: is_ascii_whitespace_def)
  then show "statements sample_live =
      [(Some ''a'', sample_policy ''a'' ''permit''), (Some ''b'', sample_policy ''b'' ''forbid'')]"
    using statements_Cons[OF sample_statement_texts(1)] statements_Cons[OF sample_statement_texts(2), of "[]"]
      statements_over_trivia[of "'' ''"] unfolding sample_live_def sample_ids by simp
  show "statements sample_edit = [(Some ''a'', sample_edit)]"
    using statements_Cons[OF sample_statement_texts(3), of "[]"] sample_ids(3) by (simp add: sample_edit_def)
  show "statements sample_noted = [(Some ''a'', sample_edit)]"
    using statements_Cons[OF sample_statement_texts(3), of "'' // note''"] sample_ids(3) sample_open_comment(1)
    unfolding sample_noted_def sample_edit_def by simp
qed

lemma sample_cedar_answers:
  "sample_cedar sample_live = Inr [Some ''a'', Some ''b'']" "sample_cedar sample_edit = Inr [Some ''a'']"
  "sample_cedar sample_noted = Inr [Some ''a'']"
proof -
  have "statements sample_live \<noteq> statements sample_edit" "statements sample_live \<noteq> statements sample_noted"
    by (simp_all add: sample_statements)
  then have "sample_edit \<noteq> sample_live" "sample_noted \<noteq> sample_live" by auto
  then show "sample_cedar sample_live = Inr [Some ''a'', Some ''b'']" "sample_cedar sample_edit = Inr [Some ''a'']"
    "sample_cedar sample_noted = Inr [Some ''a'']" by (simp_all add: sample_cedar_def)
qed

lemma sample_segments:
  "segment_verified sample_cedar sample_live = Inr (lex_fragments sample_live)"
  "segment_verified sample_cedar sample_edit = Inr (lex_fragments sample_edit)"
  "segment_verified sample_cedar sample_noted = Inr (lex_fragments sample_noted)"
  by (rule segment_verified_agrees; simp add: sample_cedar_answers sample_statements map_filter_simps)+

lemma lex_rest_empty: "length z \<le> skip_trivia z 0 \<Longrightarrow> lex_from (s @ z) (length s) = []"
  using skip_trivia_shift[of s z 0] by (subst lex_from.simps) simp

lemma sample_fragments:
  "lex_fragments sample_edit = [\<lparr>fr_id = Some ''a'', fr_leading = (0, 0), fr_statement = (0, length sample_edit)\<rparr>]"
  "lex_fragments sample_noted = [\<lparr>fr_id = Some ''a'', fr_leading = (0, 0), fr_statement = (0, length sample_edit)\<rparr>]"
  "lex_fragments sample_live ! 0 =
     \<lparr>fr_id = Some ''a'', fr_leading = (0, 0), fr_statement = (0, length (sample_policy ''a'' ''permit''))\<rparr>"
  "length (lex_fragments sample_live) = 2"
proof -
  have i: "statement_id sample_edit = Some ''a''" using sample_ids(3) by (simp add: sample_edit_def)
  have "length '' // note'' \<le> skip_trivia '' // note'' 0" by code_simp
  note note_end = lex_rest_empty[OF this, of sample_edit]
  show "lex_fragments sample_edit = [\<lparr>fr_id = Some ''a'', fr_leading = (0, 0), fr_statement = (0, length sample_edit)\<rparr>]"
    using lex_from_statement[OF sample_statement_texts(3), of "[]"] lex_rest_empty[of "[]" sample_edit] i
    unfolding lex_fragments_def by simp
  show "lex_fragments sample_noted = [\<lparr>fr_id = Some ''a'', fr_leading = (0, 0), fr_statement = (0, length sample_edit)\<rparr>]"
    unfolding lex_fragments_def sample_noted_def lex_from_statement[OF sample_statement_texts(3)] note_end i ..
  show "lex_fragments sample_live ! 0 =
     \<lparr>fr_id = Some ''a'', fr_leading = (0, 0), fr_statement = (0, length (sample_policy ''a'' ''permit''))\<rparr>"
    unfolding lex_fragments_def sample_live_def lex_from_statement[OF sample_statement_texts(1)] sample_ids by simp
  have "length (statements sample_live) = 2" by (simp add: sample_statements)
  then show "length (lex_fragments sample_live) = 2" by (simp add: statements_def statements_from_def lex_fragments_def)
qed

text \<open>
  The hypothesis on open comments is needed. The check of the submitted text accepts a policy with a comment
  behind it and no newline; put in front of a policy on the same line it turns that policy into a comment.
\<close>

lemma open_comment_hides_next_policy:
  "ensure_single_policy sample_cedar sample_noted (Some ''a'') = Inr () \<and>
   (\<exists>out. replace_policy sample_cedar sample_live ''a'' sample_noted = Inr out \<and>
      statements out = [(Some ''a'', sample_edit)])"
proof -
  have adr: "addressed sample_cedar sample_live ''a'' = Inr (lex_fragments sample_live ! 0)"
    using addressed_fragment(1)[OF sample_segments(1), of 0] by (simp add: sample_fragments)
  have "sample_noted @ drop (length (sample_policy ''a'' ''permit'')) sample_live =
      sample_edit @ '' // note '' @ sample_policy ''b'' ''forbid''"
    by (simp add: sample_noted_def sample_live_def)
  moreover have "statements (sample_edit @ '' // note '' @ sample_policy ''b'' ''forbid'') = [(Some ''a'', sample_edit)]"
    using sample_ids(3) unfolding statements_Cons[OF sample_statement_texts(3)] sample_open_comment
    by (simp add: sample_edit_def)
  ultimately show ?thesis
    by (simp add: ensure_single_policy_def sample_segments sample_fragments replace_policy_def adr)
qed

theorem policy_edit_touches_one_statement_witness:
  "\<exists>out. replace_policy sample_cedar sample_live ''a'' sample_edit = Inr out \<and>
     statements out = [(Some ''a'', sample_edit), (Some ''b'', sample_policy ''b'' ''forbid'')]"
proof -
  have x: "skip_trivia ''x'' 0 = 0" by code_simp
  have "ends_closed sample_edit"
    using skip_trivia_shift[of sample_edit "''x''" 0] by (simp add: ends_closed_def sample_fragments x)
  moreover have "ensure_single_policy sample_cedar sample_edit (Some ''a'') = Inr ()"
    by (simp add: ensure_single_policy_def sample_segments sample_fragments)
  ultimately show ?thesis
    using policy_edit_touches_one_statement[OF sample_segments(1), of 0 "''a''"]
    by (force simp: sample_fragments sample_statements)
qed

end
