(* ===== verification/Decision_Cache.thy ===== *)
theory Decision_Cache
  imports Prelude Audit_Encoding Audit_Log Request_Facts "HOL-Library.Char_ord" "HOL-Library.List_Lexorder"
begin

text \<open>
  The cache of policy decisions of \<open>waygate-authz\<close> (\<open>decision_cache.rs\<close>), the typed facts it is keyed by
  (\<open>waygate-core/src/facts.rs\<close>) and its use in \<open>CedarEngine::evaluate_facts_inner\<close> (\<open>cedar.rs\<close>). The hasher is
  the list of bytes it has absorbed and BLAKE3 is an argument, as is the evaluation of the policy set. A JSON
  value is represented by its compact serialisation. The look-up and the insertion of one evaluation are
  separate critical sections, so that evaluations interleave between them.
\<close>

section \<open>Facts\<close>

record scim_facts =
  sc_user_id :: bytes
  sc_user_name :: bytes
  sc_external_id :: "bytes option"
  sc_active :: bool
  sc_group_names :: "bytes list"
  sc_attrs :: bytes

record principal_facts =
  pn_sub :: bytes
  pn_email :: "bytes option"
  pn_groups :: "bytes list"
  pn_scopes :: "bytes list"
  pn_auth_method :: bytes
  pn_roles :: "bytes list"
  pn_scim :: "scim_facts option"

record client_facts =
  cn_client_id :: "bytes option"

record tenant_facts =
  tn_tenant_id :: bytes

record action_facts =
  an_kind :: bytes
  an_required_scope :: "bytes option"

record resource_facts =
  rf_server :: bytes
  rf_tool :: bytes
  rf_risk :: risk_tier
  rf_side_effects :: bool
  rf_pii :: bool
  rf_data_classification :: "bytes option"
  rf_cost_class :: "bytes option"
  rf_uri :: "bytes option"
  rf_source_origin :: "bytes option"
  rf_artifact_digest :: "bytes option"
  rf_source_tree_digest :: "bytes option"
  rf_skill_uri :: "bytes option"
  rf_revision_digest :: "bytes option"
  rf_content_digest :: "bytes option"
  rf_source_path :: "bytes option"
  rf_source_object :: "bytes option"
  rf_resource_type :: "bytes option"
  rf_operation :: "bytes option"

record request_facts =
  qf_discovery_only :: bool
  qf_email_recipients :: "email_recipients option"
  qf_target_domain :: "bytes option"
  qf_recipient_count :: "u32 option"
  qf_destructive :: "bool option"
  qf_file_paths :: "bytes list"
  qf_argument_hash :: bytes

datatype ip_addr = V4 "32 word" | V6 "128 word"

datatype invocation_channel_fact = Direct | CodeMode

record runtime_context_facts =
  xf_approval_present :: bool
  xf_mfa :: bool
  xf_time :: int
  xf_source_ip :: "ip_addr option"
  xf_channel :: invocation_channel_fact

record authz_facts =
  fa_principal :: principal_facts
  fa_client :: client_facts
  fa_tenant :: tenant_facts
  fa_action :: action_facts
  fa_resource :: resource_facts
  fa_request :: "request_facts option"
  fa_context :: runtime_context_facts

section \<open>Key derivation\<close>

definition hash_count :: "nat \<Rightarrow> bytes" where
  "hash_count n = u64_to_le_bytes (of_nat n)"

definition hash_str :: "bytes \<Rightarrow> bytes" where
  "hash_str s = hash_count (length s) @ s"

fun hash_option :: "('a \<Rightarrow> bytes) \<Rightarrow> 'a option \<Rightarrow> bytes" where
  "hash_option hash_present None = [CHR 0x00]"
| "hash_option hash_present (Some v) = CHR 0x01 # hash_present v"

definition hash_opt_str :: "bytes option \<Rightarrow> bytes" where
  "hash_opt_str v = hash_option hash_str v"

definition hash_strs :: "bytes list \<Rightarrow> bytes" where
  "hash_strs vs = hash_count (length vs) @ concat (map hash_str vs)"

definition hash_bool :: "bool \<Rightarrow> bytes" where
  "hash_bool b = [if b then CHR 0x01 else CHR 0x00]"

fun hash_risk :: "risk_tier \<Rightarrow> bytes" where
  "hash_risk Low = [CHR 0x00]"
| "hash_risk Medium = [CHR 0x01]"
| "hash_risk High = [CHR 0x02]"

fun hash_channel :: "invocation_channel_fact \<Rightarrow> bytes" where
  "hash_channel Direct = [CHR 0x00]"
| "hash_channel CodeMode = [CHR 0x01]"

text \<open>The octets of an address are big-endian.\<close>

fun hash_ip :: "ip_addr \<Rightarrow> bytes" where
  "hash_ip (V4 a) = CHR 0x04 # rev (le_bytes 4 (unat a))"
| "hash_ip (V6 a) = CHR 0x06 # rev (le_bytes 16 (unat a))"

definition hash_scim :: "scim_facts \<Rightarrow> bytes" where
  "hash_scim x =
     hash_str (sc_user_id x) @ hash_str (sc_user_name x) @ hash_opt_str (sc_external_id x) @
     hash_bool (sc_active x) @ hash_strs (sc_group_names x) @ hash_str (sc_attrs x)"

definition hash_principal :: "principal_facts \<Rightarrow> bytes" where
  "hash_principal x =
     hash_str (pn_sub x) @ hash_opt_str (pn_email x) @ hash_strs (pn_groups x) @ hash_strs (pn_scopes x) @
     hash_str (pn_auth_method x) @ hash_strs (pn_roles x) @ hash_option hash_scim (pn_scim x)"

definition hash_client :: "client_facts \<Rightarrow> bytes" where
  "hash_client x = hash_opt_str (cn_client_id x)"

definition hash_tenant :: "tenant_facts \<Rightarrow> bytes" where
  "hash_tenant x = hash_str (tn_tenant_id x)"

definition hash_action :: "action_facts \<Rightarrow> bytes" where
  "hash_action x = hash_str (an_kind x) @ hash_opt_str (an_required_scope x)"

definition hash_resource :: "resource_facts \<Rightarrow> bytes" where
  "hash_resource x =
     hash_str (rf_server x) @ hash_str (rf_tool x) @ hash_risk (rf_risk x) @ hash_bool (rf_side_effects x) @
     hash_bool (rf_pii x) @ hash_opt_str (rf_data_classification x) @ hash_opt_str (rf_cost_class x) @
     hash_opt_str (rf_uri x) @ hash_opt_str (rf_source_origin x) @ hash_opt_str (rf_artifact_digest x) @
     hash_opt_str (rf_source_tree_digest x) @ hash_opt_str (rf_skill_uri x) @
     hash_opt_str (rf_revision_digest x) @ hash_opt_str (rf_content_digest x) @
     hash_opt_str (rf_source_path x) @ hash_opt_str (rf_source_object x) @
     hash_opt_str (rf_resource_type x) @ hash_opt_str (rf_operation x)"

text \<open>The domains are a \<open>BTreeSet\<close>, iterated in the order of their bytes.\<close>

definition hash_email_recipients :: "email_recipients \<Rightarrow> bytes" where
  "hash_email_recipients x =
     (let ds = sorted_list_of_set (domains x) in
      hash_bool (valid x) @ hash_count (length ds) @ concat (map hash_str ds))"

definition hash_request :: "request_facts \<Rightarrow> bytes" where
  "hash_request x =
     hash_bool (qf_discovery_only x) @ hash_option hash_email_recipients (qf_email_recipients x) @
     hash_opt_str (qf_target_domain x) @ hash_option u32_to_le_bytes (qf_recipient_count x) @
     hash_option hash_bool (qf_destructive x) @ hash_strs (qf_file_paths x) @ hash_str (qf_argument_hash x)"

definition hash_context :: "runtime_context_facts \<Rightarrow> bytes" where
  "hash_context x =
     hash_bool (xf_approval_present x) @ hash_bool (xf_mfa x) @ hash_option hash_ip (xf_source_ip x) @
     hash_channel (xf_channel x)"

definition hash_facts :: "authz_facts \<Rightarrow> bytes" where
  "hash_facts x =
     hash_principal (fa_principal x) @ hash_client (fa_client x) @ hash_tenant (fa_tenant x) @
     hash_action (fa_action x) @ hash_resource (fa_resource x) @ hash_option hash_request (fa_request x) @
     hash_context (fa_context x)"

text \<open>What the hasher absorbs, and the key.\<close>

definition key_text :: "authz_facts \<Rightarrow> bool \<Rightarrow> bytes" where
  "key_text x strict = hash_bool strict @ hash_facts x"

definition decision_key :: "(bytes \<Rightarrow> bytes) \<Rightarrow> authz_facts \<Rightarrow> bool \<Rightarrow> bytes" where
  "decision_key blake3 x strict = blake3 (key_text x strict)"

section \<open>The cache\<close>

datatype authz_decision = Allow | Deny | StepUpRequired | ApprovalRequired

record authz_result =
  ar_decision :: authz_decision
  ar_reasons :: "bytes list"
  ar_policy_ids :: "bytes list"

definition cache_capacity :: nat where
  "cache_capacity = 4096"

record decision_cache =
  dc_entries :: "bytes \<rightharpoonup> authz_result"
  dc_order :: "bytes list"

definition cache_new :: decision_cache where
  "cache_new = \<lparr>dc_entries = Map.empty, dc_order = []\<rparr>"

definition cache_get :: "bytes \<Rightarrow> decision_cache \<Rightarrow> authz_result option" where
  "cache_get k c = dc_entries c k"

fun evict_oldest :: "bytes list \<Rightarrow> (bytes \<rightharpoonup> authz_result) \<Rightarrow> bytes list \<times> (bytes \<rightharpoonup> authz_result)" where
  "evict_oldest [] m = ([], m)"
| "evict_oldest (oldest # ks) m =
     (if cache_capacity \<le> length (oldest # ks) then evict_oldest ks (m(oldest := None)) else (oldest # ks, m))"

definition cache_insert :: "bytes \<Rightarrow> authz_result \<Rightarrow> decision_cache \<Rightarrow> decision_cache" where
  "cache_insert k v c =
     (if dc_entries c k \<noteq> None then c
      else case evict_oldest (dc_order c) (dc_entries c) of
             (ks, m) \<Rightarrow> \<lparr>dc_entries = m(k \<mapsto> v), dc_order = ks @ [k]\<rparr>)"

type_synonym 'e decider = "authz_facts \<Rightarrow> bool \<Rightarrow> 'e + authz_result"

definition evaluate_facts_inner ::
  "(bytes \<Rightarrow> bytes) \<Rightarrow> 'e decider \<Rightarrow> authz_facts \<Rightarrow> bool \<Rightarrow> decision_cache \<Rightarrow> ('e + authz_result) \<times> decision_cache" where
  "evaluate_facts_inner blake3 decide x strict c =
     (let k = decision_key blake3 x strict in
      case cache_get k c of
        Some cached \<Rightarrow> (Inr cached, c)
      | None \<Rightarrow>
          (case decide x strict of
             Inl e \<Rightarrow> (Inl e, c)
           | Inr decided \<Rightarrow> (Inr decided, cache_insert k decided c)))"

section \<open>Well-formed facts\<close>

text \<open>Rust's lengths are below \<open>2 ^ 64\<close>.\<close>

definition scim_ok :: "scim_facts \<Rightarrow> bool" where
  "scim_ok x \<longleftrightarrow> str_ok (sc_user_id x) \<and> str_ok (sc_user_name x) \<and> pred_option str_ok (sc_external_id x) \<and>
     vec_ok (sc_group_names x) \<and> str_ok (sc_attrs x)"

definition principal_ok :: "principal_facts \<Rightarrow> bool" where
  "principal_ok x \<longleftrightarrow> str_ok (pn_sub x) \<and> pred_option str_ok (pn_email x) \<and> vec_ok (pn_groups x) \<and>
     vec_ok (pn_scopes x) \<and> str_ok (pn_auth_method x) \<and> vec_ok (pn_roles x) \<and> pred_option scim_ok (pn_scim x)"

definition action_ok :: "action_facts \<Rightarrow> bool" where
  "action_ok x \<longleftrightarrow> str_ok (an_kind x) \<and> pred_option str_ok (an_required_scope x)"

definition resource_ok :: "resource_facts \<Rightarrow> bool" where
  "resource_ok x \<longleftrightarrow> str_ok (rf_server x) \<and> str_ok (rf_tool x) \<and>
     pred_option str_ok (rf_data_classification x) \<and> pred_option str_ok (rf_cost_class x) \<and>
     pred_option str_ok (rf_uri x) \<and> pred_option str_ok (rf_source_origin x) \<and>
     pred_option str_ok (rf_artifact_digest x) \<and> pred_option str_ok (rf_source_tree_digest x) \<and>
     pred_option str_ok (rf_skill_uri x) \<and> pred_option str_ok (rf_revision_digest x) \<and>
     pred_option str_ok (rf_content_digest x) \<and> pred_option str_ok (rf_source_path x) \<and>
     pred_option str_ok (rf_source_object x) \<and> pred_option str_ok (rf_resource_type x) \<and>
     pred_option str_ok (rf_operation x)"

definition recipients_ok :: "email_recipients \<Rightarrow> bool" where
  "recipients_ok x \<longleftrightarrow> finite (domains x) \<and> card (domains x) < 2 ^ 64 \<and> (\<forall>d\<in>domains x. str_ok d)"

definition request_ok :: "request_facts \<Rightarrow> bool" where
  "request_ok x \<longleftrightarrow> pred_option recipients_ok (qf_email_recipients x) \<and> pred_option str_ok (qf_target_domain x) \<and>
     vec_ok (qf_file_paths x) \<and> str_ok (qf_argument_hash x)"

definition facts_ok :: "authz_facts \<Rightarrow> bool" where
  "facts_ok x \<longleftrightarrow> principal_ok (fa_principal x) \<and> pred_option str_ok (cn_client_id (fa_client x)) \<and>
     str_ok (tn_tenant_id (fa_tenant x)) \<and> action_ok (fa_action x) \<and> resource_ok (fa_resource x) \<and>
     pred_option request_ok (fa_request x)"

section \<open>Concurrent evaluations\<close>

text \<open>
  \<open>Ask\<close> is an evaluation up to its answer or up to the insertion of a fresh decision, \<open>Finish n\<close> the rest of
  the \<open>n\<close>-th evaluation that is under way. The state keeps the questions asked and the answers given.
\<close>

type_synonym question = "authz_facts \<times> bool"

datatype engine_action = Ask authz_facts bool | Finish nat

record 'e engine =
  en_cache :: decision_cache
  en_pending :: "(question \<times> authz_result) list"
  en_asked :: "question list"
  en_answers :: "(question \<times> ('e + authz_result)) list"

fun engine_step :: "(bytes \<Rightarrow> bytes) \<Rightarrow> 'e decider \<Rightarrow> engine_action \<Rightarrow> 'e engine \<Rightarrow> 'e engine option" where
  "engine_step blake3 decide (Ask x strict) s =
     (if \<not> facts_ok x then None
      else let s1 = s\<lparr>en_asked := en_asked s @ [(x, strict)]\<rparr> in
           Some (case cache_get (decision_key blake3 x strict) (en_cache s) of
                   Some v \<Rightarrow> s1\<lparr>en_answers := en_answers s @ [((x, strict), Inr v)]\<rparr>
                 | None \<Rightarrow>
                     (case decide x strict of
                        Inl e \<Rightarrow> s1\<lparr>en_answers := en_answers s @ [((x, strict), Inl e)]\<rparr>
                      | Inr v \<Rightarrow> s1\<lparr>en_pending := en_pending s @ [((x, strict), v)]\<rparr>)))"
| "engine_step blake3 decide (Finish n) s =
     (if n < length (en_pending s)
      then case en_pending s ! n of
             ((x, strict), v) \<Rightarrow>
               Some (s\<lparr>en_cache := cache_insert (decision_key blake3 x strict) v (en_cache s),
                       en_pending := take n (en_pending s) @ drop (Suc n) (en_pending s),
                       en_answers := en_answers s @ [((x, strict), Inr v)]\<rparr>)
      else None)"

definition engine_init :: "'e engine \<Rightarrow> bool" where
  "engine_init s \<longleftrightarrow> s = \<lparr>en_cache = cache_new, en_pending = [], en_asked = [], en_answers = []\<rparr>"

section \<open>The key determines the question\<close>

interpretation h_count: self_delimiting hash_count "\<lambda>n. n < 2 ^ 64"
  by unfold_locales (auto simp: hash_count_def u64_le.append_iff of_nat_u64_eq)

interpretation h_str: self_delimiting hash_str str_ok
  by unfold_locales (auto simp: hash_str_def str_ok_def h_count.append_iff)

interpretation h_bool: self_delimiting hash_bool "\<lambda>_. True"
  by unfold_locales (auto simp: hash_bool_def split: if_splits)

interpretation h_risk: self_delimiting hash_risk "\<lambda>_. True"
proof
  fix x y r s assume "hash_risk x @ r = hash_risk y @ s"
  then show "x = y \<and> r = s" by (cases x; cases y) auto
qed

interpretation h_channel: self_delimiting hash_channel "\<lambda>_. True"
proof
  fix x y r s assume "hash_channel x @ r = hash_channel y @ s"
  then show "x = y \<and> r = s" by (cases x; cases y) auto
qed

interpretation h_ip: self_delimiting hash_ip "\<lambda>_. True"
proof
  fix x y r s assume "hash_ip x @ r = hash_ip y @ s"
  then show "x = y \<and> r = s" by (cases x; cases y) (auto simp: le_bytes_unat)
qed

text \<open>A presence byte makes an optional writer of any writer, and a count makes a writer of sequences.\<close>

context self_delimiting
begin

lemma option_delimited: "self_delimiting (hash_option enc) (pred_option valid)"
proof
  fix x y r s assume "pred_option valid x" "pred_option valid y" "hash_option enc x @ r = hash_option enc y @ s"
  then show "x = y \<and> r = s" by (cases x; cases y) (auto simp: append_iff)
qed

lemma counted_delimited:
  "self_delimiting (\<lambda>vs. hash_count (length vs) @ concat (map enc vs)) (\<lambda>vs. length vs < 2 ^ 64 \<and> list_all valid vs)"
proof
  fix x y r s
  assume ok: "length x < 2 ^ 64 \<and> list_all valid x" "length y < 2 ^ 64 \<and> list_all valid y"
    and eq: "(hash_count (length x) @ concat (map enc x)) @ r = (hash_count (length y) @ concat (map enc y)) @ s"
  then have "length x = length y" "concat (map enc x) @ r = concat (map enc y) @ s"
    by (simp_all add: h_count.append_iff)
  with ok show "x = y \<and> r = s" by (simp add: concat_iff)
qed

end

interpretation h_opt_str: self_delimiting hash_opt_str "pred_option str_ok"
  using h_str.option_delimited unfolding hash_opt_str_def[abs_def] .

interpretation h_strs: self_delimiting hash_strs vec_ok
  using h_str.counted_delimited unfolding hash_strs_def[abs_def] vec_ok_def[abs_def] .

interpretation h_opt_bool: self_delimiting "hash_option hash_bool" "pred_option (\<lambda>_. True)"
  by (rule h_bool.option_delimited)

interpretation h_opt_u32: self_delimiting "hash_option u32_to_le_bytes" "pred_option (\<lambda>_. True)"
  by (rule u32_le.option_delimited)

interpretation h_opt_ip: self_delimiting "hash_option hash_ip" "pred_option (\<lambda>_. True)"
  by (rule h_ip.option_delimited)

lemma pred_option_True [simp]: "pred_option (\<lambda>_. True) x"
  by (cases x) simp_all

lemmas hash_iffs = h_str.append_iff h_bool.append_iff h_risk.append_iff h_channel.append_iff h_opt_str.append_iff
  h_strs.append_iff h_opt_bool.append_iff h_opt_u32.append_iff h_opt_ip.append_iff

interpretation h_scim: self_delimiting hash_scim scim_ok
  by unfold_locales (auto simp: hash_scim_def scim_ok_def hash_iffs intro!: scim_facts.equality)

interpretation h_opt_scim: self_delimiting "hash_option hash_scim" "pred_option scim_ok"
  by (rule h_scim.option_delimited)

interpretation h_principal: self_delimiting hash_principal principal_ok
  by unfold_locales
    (auto simp: hash_principal_def principal_ok_def hash_iffs h_opt_scim.append_iff intro!: principal_facts.equality)

interpretation h_client: self_delimiting hash_client "\<lambda>x. pred_option str_ok (cn_client_id x)"
  by unfold_locales (auto simp: hash_client_def hash_iffs intro!: client_facts.equality)

interpretation h_tenant: self_delimiting hash_tenant "\<lambda>x. str_ok (tn_tenant_id x)"
  by unfold_locales (auto simp: hash_tenant_def hash_iffs intro!: tenant_facts.equality)

interpretation h_action: self_delimiting hash_action action_ok
  by unfold_locales (auto simp: hash_action_def action_ok_def hash_iffs intro!: action_facts.equality)

interpretation h_resource: self_delimiting hash_resource resource_ok
  by unfold_locales (auto simp: hash_resource_def resource_ok_def hash_iffs intro!: resource_facts.equality)

interpretation h_recipients: self_delimiting hash_email_recipients recipients_ok
proof
  fix x y r s
  assume ok: "recipients_ok x" "recipients_ok y" and eq: "hash_email_recipients x @ r = hash_email_recipients y @ s"
  have vec: "vec_ok (sorted_list_of_set (domains z))" if "recipients_ok z" for z
    using that by (auto simp: recipients_ok_def vec_ok_def list_all_iff)
  have alt: "hash_email_recipients z = hash_bool (valid z) @ hash_strs (sorted_list_of_set (domains z))" for z
    by (simp add: hash_email_recipients_def Let_def hash_strs_def)
  have "valid x = valid y" "sorted_list_of_set (domains x) = sorted_list_of_set (domains y)" "r = s"
    using eq vec[OF ok(1)] vec[OF ok(2)]
    by (simp_all add: alt hash_iffs)
  moreover have "domains x = domains y"
    using calculation(2) ok set_sorted_list_of_set unfolding recipients_ok_def by metis
  ultimately show "x = y \<and> r = s" by (simp add: email_recipients.equality)
qed

interpretation h_opt_recipients: self_delimiting "hash_option hash_email_recipients" "pred_option recipients_ok"
  by (rule h_recipients.option_delimited)

interpretation h_request: self_delimiting hash_request request_ok
  by unfold_locales
    (auto simp: hash_request_def request_ok_def hash_iffs h_opt_recipients.append_iff intro!: request_facts.equality)

interpretation h_opt_request: self_delimiting "hash_option hash_request" "pred_option request_ok"
  by (rule h_request.option_delimited)

text \<open>The same facts at another time.\<close>

definition at_time :: "int \<Rightarrow> authz_facts \<Rightarrow> authz_facts" where
  "at_time t x = x\<lparr>fa_context := (fa_context x)\<lparr>xf_time := t\<rparr>\<rparr>"

lemma hash_context_iff: "hash_context x = hash_context y \<longleftrightarrow> x\<lparr>xf_time := t\<rparr> = y\<lparr>xf_time := t\<rparr>"
proof -
  have "hash_context x = hash_context y \<longleftrightarrow>
      xf_approval_present x = xf_approval_present y \<and> xf_mfa x = xf_mfa y \<and> xf_source_ip x = xf_source_ip y \<and>
      xf_channel x = xf_channel y"
    by (simp add: hash_context_def hash_iffs h_channel.enc_iff)
  also have "\<dots> \<longleftrightarrow> x\<lparr>xf_time := t\<rparr> = y\<lparr>xf_time := t\<rparr>" by (cases x; cases y) simp
  finally show ?thesis .
qed

lemma key_text_iff:
  assumes "facts_ok x" "facts_ok y"
  shows "key_text x b = key_text y c \<longleftrightarrow> b = c \<and> at_time t x = at_time t y"
proof -
  have "key_text x b = key_text y c \<longleftrightarrow> b = c \<and> fa_principal x = fa_principal y \<and> fa_client x = fa_client y \<and>
      fa_tenant x = fa_tenant y \<and> fa_action x = fa_action y \<and> fa_resource x = fa_resource y \<and>
      fa_request x = fa_request y \<and> hash_context (fa_context x) = hash_context (fa_context y)"
    using assms
    by (simp add: key_text_def hash_facts_def facts_ok_def h_bool.append_iff h_principal.append_iff
        h_client.append_iff h_tenant.append_iff h_action.append_iff h_resource.append_iff h_opt_request.append_iff)
  also have "\<dots> \<longleftrightarrow> b = c \<and> at_time t x = at_time t y"
    unfolding hash_context_iff[where t = t] at_time_def by (cases x; cases y) auto
  finally show ?thesis .
qed

section \<open>Every entry was decided\<close>

lemma evict_oldest_inv:
  assumes "evict_oldest ks m = (ks', m')" "distinct ks" "dom m = set ks"
  shows "distinct ks' \<and> dom m' = set ks' \<and> length ks' < cache_capacity \<and> m' \<subseteq>\<^sub>m m"
  using assms
proof (induction ks m rule: evict_oldest.induct)
  case (1 m)
  then show ?case by (simp add: cache_capacity_def)
next
  case (2 k ks m)
  show ?case
  proof (cases "cache_capacity \<le> length (k # ks)")
    case True
    have "dom (m(k := None)) = set ks" using 2(3,4) by auto
    moreover have "evict_oldest ks (m(k := None)) = (ks', m')" using 2(2) True by simp
    moreover have "distinct ks" using 2(3) by simp
    ultimately have "distinct ks' \<and> dom m' = set ks' \<and> length ks' < cache_capacity \<and> m' \<subseteq>\<^sub>m m(k := None)"
      using 2(1)[OF True] by blast
    moreover have "m(k := None) \<subseteq>\<^sub>m m" by (simp add: map_le_def)
    ultimately show ?thesis using map_le_trans by blast
  next
    case False
    then show ?thesis using 2 by auto
  qed
qed

definition cache_shape :: "decision_cache \<Rightarrow> bool" where
  "cache_shape c \<longleftrightarrow>
     distinct (dc_order c) \<and> dom (dc_entries c) = set (dc_order c) \<and> length (dc_order c) \<le> cache_capacity"

lemma cache_insert_shape:
  assumes "cache_shape c"
  shows "cache_shape (cache_insert k v c)"
    "dc_entries (cache_insert k v c) k' = Some v' \<Longrightarrow> dc_entries c k' = Some v' \<or> k' = k \<and> v' = v"
proof -
  obtain ks m where e: "evict_oldest (dc_order c) (dc_entries c) = (ks, m)" by force
  have i: "distinct ks" "dom m = set ks" "length ks < cache_capacity" "m \<subseteq>\<^sub>m dc_entries c"
    using evict_oldest_inv[OF e] assms by (auto simp: cache_shape_def)
  have "k \<notin> set ks" if "dc_entries c k = None" using i(2,4) that by (metis domIff map_le_def)
  then show "cache_shape (cache_insert k v c)"
    using assms i by (auto simp: cache_insert_def e cache_shape_def)
  show "dc_entries c k' = Some v' \<or> k' = k \<and> v' = v" if "dc_entries (cache_insert k v c) k' = Some v'"
    using that i(4) by (auto simp: cache_insert_def e map_le_def dom_def split: if_splits)
qed

text \<open>A verdict that was decided for a question with this key.\<close>

definition decided_for :: "(bytes \<Rightarrow> bytes) \<Rightarrow> 'e decider \<Rightarrow> question list \<Rightarrow> bytes \<Rightarrow> 'e + authz_result \<Rightarrow> bool" where
  "decided_for blake3 decide asked k r \<longleftrightarrow>
     (\<exists>(y, b)\<in>set asked. decision_key blake3 y b = k \<and> decide y b = r)"

definition engine_inv :: "(bytes \<Rightarrow> bytes) \<Rightarrow> 'e decider \<Rightarrow> 'e engine \<Rightarrow> bool" where
  "engine_inv blake3 decide s \<longleftrightarrow>
     cache_shape (en_cache s) \<and>
     (\<forall>k v. dc_entries (en_cache s) k = Some v \<longrightarrow> decided_for blake3 decide (en_asked s) k (Inr v)) \<and>
     (\<forall>q\<in>set (en_asked s). facts_ok (fst q)) \<and>
     (\<forall>(q, v)\<in>set (en_pending s). q \<in> set (en_asked s) \<and> decide (fst q) (snd q) = Inr v) \<and>
     (\<forall>(q, r)\<in>set (en_answers s). q \<in> set (en_asked s) \<and>
        decided_for blake3 decide (en_asked s) (decision_key blake3 (fst q) (snd q)) r)"

lemma decided_for_more: "decided_for blake3 decide as k r \<Longrightarrow> decided_for blake3 decide (as @ bs) k r"
  by (auto simp: decided_for_def)

lemma decided_for_own: "(x, b) \<in> set as \<Longrightarrow> decided_for blake3 decide as (decision_key blake3 x b) (decide x b)"
  by (auto simp: decided_for_def)

lemma engine_inv_ask:
  assumes "engine_inv blake3 decide s" "engine_step blake3 decide (Ask x b) s = Some s'"
  shows "engine_inv blake3 decide s'"
proof -
  have x: "facts_ok x" using assms(2) by (auto split: if_splits)
  have own: "decided_for blake3 decide (en_asked s @ [(x, b)]) (decision_key blake3 x b) (decide x b)"
    by (rule decided_for_own) simp
  show ?thesis
    using assms x own
    by (fastforce simp: engine_inv_def cache_get_def Let_def intro: decided_for_more split: option.splits sum.splits)
qed

lemma engine_inv_finish:
  assumes inv: "engine_inv blake3 decide s" and step: "engine_step blake3 decide (Finish n) s = Some s'"
  shows "engine_inv blake3 decide s'"
proof -
  obtain x b v where n: "n < length (en_pending s)" "en_pending s ! n = ((x, b), v)"
    and s': "s' = s\<lparr>en_cache := cache_insert (decision_key blake3 x b) v (en_cache s),
        en_pending := take n (en_pending s) @ drop (Suc n) (en_pending s),
        en_answers := en_answers s @ [((x, b), Inr v)]\<rparr>"
    using step by (auto split: if_splits prod.splits)
  have "((x, b), v) \<in> set (en_pending s)" using n nth_mem by metis
  then have xb: "(x, b) \<in> set (en_asked s)" "decide x b = Inr v" using inv by (auto simp: engine_inv_def)
  then have own: "decided_for blake3 decide (en_asked s) (decision_key blake3 x b) (Inr v)"
    using decided_for_own[OF xb(1), of blake3 decide] by simp
  have shape: "cache_shape (en_cache s)" using inv by (simp add: engine_inv_def)
  have entries: "decided_for blake3 decide (en_asked s) k (Inr w)"
    if "dc_entries (cache_insert (decision_key blake3 x b) v (en_cache s)) k = Some w" for k w
    using cache_insert_shape(2)[OF shape that] inv own by (auto simp: engine_inv_def)
  have "set (take n (en_pending s) @ drop (Suc n) (en_pending s)) \<subseteq> set (en_pending s)"
    by (auto dest: in_set_takeD in_set_dropD)
  then show ?thesis
    using inv xb own entries cache_insert_shape(1)[OF shape] unfolding s' engine_inv_def by auto
qed

interpretation engine_sys: guarded_system "engine_step blake3 decide" engine_init "engine_inv blake3 decide"
  for blake3 decide
proof
  show "engine_inv blake3 decide s" if "engine_init s" for s
    using that by (simp add: engine_init_def engine_inv_def cache_new_def cache_shape_def cache_capacity_def)
  show "engine_inv blake3 decide s'" if "engine_inv blake3 decide s" "engine_step blake3 decide a s = Some s'" for s a s'
    using that engine_inv_ask engine_inv_finish by (cases a) blast+
qed

text \<open>An evaluation without interference is its two critical sections in a row.\<close>

lemma evaluate_as_steps:
  assumes "facts_ok x" "evaluate_facts_inner blake3 decide x b (en_cache s) = (r, c)"
  shows "\<exists>acts s'. runs (engine_step blake3 decide) acts s = Some s' \<and> en_cache s' = c \<and>
    en_pending s' = en_pending s \<and> en_answers s' = en_answers s @ [((x, b), r)]"
proof (cases "cache_get (decision_key blake3 x b) (en_cache s) = None \<and> \<not> isl (decide x b)")
  case True
  then show ?thesis
    using assms
    by (intro exI[of _ "[Ask x b, Finish (length (en_pending s))]"])
      (auto simp: evaluate_facts_inner_def Let_def split: sum.splits)
next
  case False
  then show ?thesis
    using assms
    by (intro exI[of _ "[Ask x b]"]) (auto simp: evaluate_facts_inner_def Let_def split: sum.splits option.splits)
qed

lemma evaluate_again:
  assumes "evaluate_facts_inner blake3 decide x b c = (Inr v, c')"
  shows "evaluate_facts_inner blake3 decide' x b c' = (Inr v, c')"
  using assms
  by (auto simp: evaluate_facts_inner_def cache_get_def cache_insert_def Let_def split: option.splits sum.splits prod.splits)

text \<open>C12: Whatever evaluations of one engine interleave, every answer is the verdict that the policy set gave to
  the same question, with the same strictness and facts that differ at most in their time stamp, or two
  different questions that were asked collide under BLAKE3. The cache never holds more than 4096 decisions,
  each key once, and a decision just given is given again from the cache, without a new evaluation.\<close>

theorem cached_decision_answers_its_question:
  assumes "engine_init s" and "runs (engine_step blake3 decide) acts s = Some s'"
  shows "(\<forall>x b r. ((x, b), r) \<in> set (en_answers s') \<longrightarrow>
      (\<exists>y. (y, b) \<in> set (en_asked s') \<and> at_time 0 y = at_time 0 x \<and> r = decide y b) \<or>
      (\<exists>y c. (y, c) \<in> set (en_asked s') \<and> key_text y c \<noteq> key_text x b \<and>
         blake3 (key_text y c) = blake3 (key_text x b))) \<and>
    length (dc_order (en_cache s')) \<le> 4096 \<and> distinct (dc_order (en_cache s')) \<and>
    dom (dc_entries (en_cache s')) = set (dc_order (en_cache s')) \<and>
    (\<forall>x b v c decide'. evaluate_facts_inner blake3 decide x b (en_cache s') = (Inr v, c) \<longrightarrow>
       evaluate_facts_inner blake3 (decide' :: 'e decider) x b c = (Inr v, c))"
proof (intro conjI allI impI)
  have inv: "engine_inv blake3 decide s'" using engine_sys.reachable_inv[OF assms] .
  show "length (dc_order (en_cache s')) \<le> 4096" "distinct (dc_order (en_cache s'))"
    "dom (dc_entries (en_cache s')) = set (dc_order (en_cache s'))"
    using inv by (simp_all add: engine_inv_def cache_shape_def cache_capacity_def)
  fix x b r assume "((x, b), r) \<in> set (en_answers s')"
  then have x: "(x, b) \<in> set (en_asked s')"
    and "decided_for blake3 decide (en_asked s') (decision_key blake3 x b) r"
    using inv by (auto simp: engine_inv_def)
  then obtain y c where y: "(y, c) \<in> set (en_asked s')" "blake3 (key_text y c) = blake3 (key_text x b)" "decide y c = r"
    by (auto simp: decided_for_def decision_key_def)
  have "facts_ok x" "facts_ok y" using inv x y(1) by (auto simp: engine_inv_def)
  from key_text_iff[OF this(2,1), of c b 0] y
  show "(\<exists>y. (y, b) \<in> set (en_asked s') \<and> at_time 0 y = at_time 0 x \<and> r = decide y b) \<or>
      (\<exists>y c. (y, c) \<in> set (en_asked s') \<and> key_text y c \<noteq> key_text x b \<and>
         blake3 (key_text y c) = blake3 (key_text x b))"
    by blast
qed (rule evaluate_again)

section \<open>A repeated question\<close>

definition sample_facts :: "int \<Rightarrow> authz_facts" where
  "sample_facts t =
     \<lparr>fa_principal = \<lparr>pn_sub = ''alice'', pn_email = None, pn_groups = [''invokers''], pn_scopes = [],
        pn_auth_method = ''oauth'', pn_roles = [], pn_scim = None\<rparr>,
      fa_client = \<lparr>cn_client_id = None\<rparr>, fa_tenant = \<lparr>tn_tenant_id = ''default''\<rparr>,
      fa_action = \<lparr>an_kind = ''CallTool'', an_required_scope = None\<rparr>,
      fa_resource = \<lparr>rf_server = ''files'', rf_tool = ''read'', rf_risk = Low, rf_side_effects = False, rf_pii = False,
        rf_data_classification = None, rf_cost_class = None, rf_uri = None, rf_source_origin = None,
        rf_artifact_digest = None, rf_source_tree_digest = None, rf_skill_uri = None, rf_revision_digest = None,
        rf_content_digest = None, rf_source_path = None, rf_source_object = None, rf_resource_type = None,
        rf_operation = None\<rparr>,
      fa_request = None,
      fa_context = \<lparr>xf_approval_present = False, xf_mfa = False, xf_time = t, xf_source_ip = None, xf_channel = Direct\<rparr>\<rparr>"

definition sample_allow :: authz_result where
  "sample_allow = \<lparr>ar_decision = Allow, ar_reasons = [], ar_policy_ids = [''permit-invokers'']\<rparr>"

definition sample_decide :: "unit decider" where
  "sample_decide x strict = Inr (if ''invokers'' \<in> set (pn_groups (fa_principal x)) then sample_allow
     else \<lparr>ar_decision = Deny, ar_reasons = [], ar_policy_ids = []\<rparr>)"

abbreviation sample_engine :: "unit engine" where
  "sample_engine \<equiv> \<lparr>en_cache = cache_new, en_pending = [], en_asked = [], en_answers = []\<rparr>"

lemma sample_facts_ok: "facts_ok (sample_facts t)"
  by (simp add: sample_facts_def facts_ok_def principal_ok_def action_ok_def resource_ok_def vec_ok_def str_ok_def)

lemma sample_key: "decision_key blake3 (sample_facts t) b = decision_key blake3 (sample_facts 0) b"
  by (simp add: decision_key_def key_text_def hash_facts_def hash_context_def sample_facts_def)

lemma sample_decides: "sample_decide (sample_facts t) b = Inr sample_allow"
  by (simp add: sample_decide_def sample_facts_def)

text \<open>The second question is asked a second later and answered from the cache; the digest is the identity.\<close>

theorem cached_decision_answers_its_question_witness:
  "\<exists>s'. runs (engine_step id sample_decide) [Ask (sample_facts 0) False, Finish 0, Ask (sample_facts 1) False]
      sample_engine = Some s' \<and>
    en_answers s' = [((sample_facts 0, False), Inr sample_allow), ((sample_facts 1, False), Inr sample_allow)] \<and>
    (\<exists>y. (y, False) \<in> set (en_asked s') \<and> at_time 0 y = at_time 0 (sample_facts 1) \<and> Inr sample_allow = sample_decide y False) \<and>
    length (dc_order (en_cache s')) \<le> 4096"
proof -
  let ?acts = "[Ask (sample_facts 0) False, Finish 0, Ask (sample_facts 1) False]"
  obtain s' where run: "runs (engine_step id sample_decide) ?acts sample_engine = Some s'"
    and ans: "en_answers s' = [((sample_facts 0, False), Inr sample_allow), ((sample_facts 1, False), Inr sample_allow)]"
    by (simp add: sample_facts_ok sample_decides sample_key[of _ 1] cache_get_def cache_new_def cache_insert_def)
  note all = cached_decision_answers_its_question[OF _ run, unfolded engine_init_def, OF refl]
  have "((sample_facts 1, False), Inr sample_allow) \<in> set (en_answers s')" by (simp add: ans)
  with all have "\<exists>y. (y, False) \<in> set (en_asked s') \<and> at_time 0 y = at_time 0 (sample_facts 1) \<and>
      Inr sample_allow = sample_decide y False"
    by (metis id_apply)
  then show ?thesis using run ans all by blast
qed

end
