(* ===== verification/Spec2Isabelle.thy ===== *)
theory Spec2Isabelle
  imports Prelude Breaker Audit_Encoding Chain_Verify Audit_Log Change_Requests Change_Lifecycle Change_Properties Quota
    Request_Facts Invocation_Data Invocation Invocation_Effects Invocation_Properties
    Invocation_Frame Gateway Gateway_Samples Agent_Loop Policy_Segment Decision_Cache
begin

text \<open>
  Verification development of waygate, a gateway that puts policy, approvals, rate limits and tamper-evident
  evidence between clients of the Model Context Protocol and upstream tool servers. Paths below are relative
  to \<open>src/crates/\<close>.

  \<^bold>\<open>The program and its parts.\<close> A tool call enters \<open>DefaultInvocationService::invoke\<close> of \<open>waygate-mcp\<close>. It
  resolves the tool in the governed catalog, checks the contract the client saw, reads facts from the
  arguments, asks the Cedar engine, applies the profile of an API key, debits the quota, claims a human
  approval, writes an evidence row, and only then dispatches to the upstream, behind a circuit breaker; the
  response is inspected, labelled and validated before it is released. Evidence rows form one hash chain per
  tenant in Postgres, with an outbox for exporters, and a verifier that re-walks the chain across spans that
  retention has deleted. Administrators change the gateway through a propose-then-approve store and edit
  policies one statement at a time. An in-process agent loop issues tool calls on behalf of a model.

  \<^bold>\<open>Theories.\<close>

  \<^item> \<open>Prelude\<close>: machine words, saturating arithmetic, white space of \<open>str\<close>, SQL-like updates of lists, runs of a
    step function and the locale \<open>guarded_system\<close> that lifts an invariant from steps to runs.
  \<^item> \<open>Breaker\<close> (\<open>waygate-upstream/src/breaker.rs\<close>): the breaker's state as a record, each method as a function,
    permits in flight as part of a step relation. It trips exactly at its threshold, admits nothing while it
    cools down, and rejects only for a live reason.
  \<^item> \<open>Audit_Encoding\<close> (\<open>waygate-storage/src/hashchain.rs\<close>): the canonical bytes of a row in all generations of
    the format and the row hash. The locales \<open>self_delimiting\<close> and \<open>fixed_width\<close> are interpreted for every
    writer. The encoding is injective, the hash binds a row to its predecessor up to an explicit SHA-256
    collision, and old generations keep their bytes.
  \<^item> \<open>Chain_Verify\<close> (\<open>waygate-storage/src/chain_verify.rs\<close>): the walk, retention markers, the admission queue
    and the bounded search for bridges. The report is exact, the queue computes the least fixed point, the
    hop bound is enough, and a verified head determines the whole history.
  \<^item> \<open>Audit_Log\<close> (\<open>waygate-storage/src/audit.rs\<close>, \<open>outbox.rs\<close>, \<open>routing.rs\<close>): the writer with every database
    failure as a branch. Every reachable log verifies, a required write is atomic, outbox rows are safe.
  \<^item> \<open>Change_Requests\<close>, \<open>Change_Lifecycle\<close>, \<open>Change_Properties\<close> (\<open>waygate-changeset/src/lib.rs\<close> and migrations
    0039, 0044, 0045): the Postgres store and the in-memory store, the locale \<open>request_store\<close> that states the
    contract of the trait, interpreted for both, and a simulation between them. Decisions are final,
    execution needs a quorum and is claimed once, a secret is delivered once, pages are complete.
  \<^item> \<open>Quota\<close> (\<open>waygate-quota/src/lib.rs\<close>, \<open>store.rs\<close>): token buckets and their policies. The rate is bounded in
    every window, a debit is all or nothing, the probe and the retry hint are sound.
  \<^item> \<open>Request_Facts\<close> (\<open>waygate-core/src/email_recipients.rs\<close>): the scan of recipients agrees with a
    specification.
  \<^item> \<open>Invocation_Data\<close>, \<open>Invocation\<close> (\<open>waygate-mcp/src/invocation/\<close>, \<open>authz.rs\<close>, \<open>catalog.rs\<close>,
    \<open>waygate-invocation/src/lib.rs\<close>): the pipeline with its fifteen stages. Trait objects are fields of the
    record \<open>service\<close> over a world of any type; a ghost trail lists the calls made on them.
    \<open>Invocation_Effects\<close> gives what every stage appends to the trail. \<open>Invocation_Properties\<close> shows that a
    dispatch has passed every control, the order of the stages, the rows an outcome leaves, what a released
    result has passed, and the binding of sealed continuations.
  \<^item> \<open>Invocation_Frame\<close>: the locales \<open>call_frame\<close> and \<open>call_invariant\<close>. A relation between world and trail that
    each service keeps is kept by a whole call.
  \<^item> \<open>Gateway\<close>, \<open>Gateway_Samples\<close> (\<open>build_default_invocation_service\<close> and \<open>TraceStampingRecorder\<close>): the pipeline
    composed with the audit log and the quota tables. After any history of calls every chain verifies, every
    dispatched side-effecting call has its sealed row under fail-closed auditing, and a call debits the quota at
    most once. The samples evaluate a concrete call.
  \<^item> \<open>Agent_Loop\<close> (\<open>waygate-agent/src/run.rs\<close>, \<open>lib.rs\<close>): the loop with its caps and approval gate. A run
    respects its caps, executes a side-effecting tool only after approval, and answers every tool use.
  \<^item> \<open>Policy_Segment\<close> (\<open>waygate-authz/src/segment.rs\<close>): the scanner of policy sets and the edits of one policy.
    An edit, a removal and an addition touch only the statement they name, provided the new text leaves no
    comment open; the source does not check that, and \<open>open_comment_hides_next_policy\<close> evaluates the edit that
    loses a policy.
  \<^item> \<open>Decision_Cache\<close> (\<open>waygate-authz/src/decision_cache.rs\<close>, \<open>waygate-core/src/facts.rs\<close>, the cached evaluation of
    \<open>cedar.rs\<close>): the key derivation, for which the locale \<open>self_delimiting\<close> is interpreted again, and the cache. In
    every interleaving an answer is the verdict of its own question up to the time stamp, or the digest collides.

  \<^bold>\<open>Conventions.\<close> Strings are their UTF-8 bytes. Clocks, fresh identifiers, SHA-256, BLAKE3, Cedar, JSON schema
  validators and ciphers are arguments. Errors are the left values of a sum. A method that runs under one lock,
  or as one statement or transaction, is one step. Integers have their width where the code relies on
  saturation or wrapping and are unbounded where they are only compared; token counts are rationals, without
  the rounding of \<open>DOUBLE PRECISION\<close>.

  \<^bold>\<open>Bounds and fuel.\<close> Loops over text and lists are total functions with a measure. The search for bridges uses
  the hop bound of the source, which \<open>bridge_search_complete\<close> shows to be enough. The agent loop counts down
  the steps that \<open>max_steps\<close> leaves, as the \<open>for\<close> loop of the source does. No other definition carries fuel.

  \<^bold>\<open>Not modelled.\<close> The inference fast path of the pipeline and the inference crates (HTTP streams to
  providers); upstream tasks with a task router; delivery of retained or oversized bodies; the redacted
  argument view shown to approvers; the Cedar engine behind the decision cache; the pattern engines of the inspectors;
  transports and the pool of upstream connections; the protocol server and its catalog search; code mode; file
  transfer; OAuth, OIDC, API-key and SCIM endpoints; exporters and retention sweeps; dashboards and start-up.
  These are network or process I/O, thin layers over packages outside the repository, or rendering; where
  modelled code calls them, they are arguments of the model.
\<close>

end
